(* ===== verification/Prelude.thy ===== *)
theory Prelude
  imports Main "HOL-Library.Word" "HOL-Library.Monad_Syntax"
begin

section \<open>Conventions shared by every component\<close>

text \<open>
  The C fragments of libstrophe are translated into functions of HOL under these conventions.

  \<^item> A C computation that can go wrong in the sense of the C standard (a \<open>NULL\<close> dereference,
    an access outside an array or a string, a use after free) or that does not return has a result
    of type \<open>'a option\<close>, where \<open>None\<close> stands for that undefined outcome.  Sequencing is
    \<open>Option.bind\<close>, written with the do-notation of the library.  A pointer that may be
    \<open>NULL\<close> is again an option, so a function that returns a nullable pointer and may be undefined
    has a result of type \<open>'a option option\<close>.
  \<^item> A C string is a HOL \<open>string\<close> without its terminating zero; a byte buffer is a list of
    \<open>8 word\<close>.  Plain \<open>char\<close> is signed, as on the platforms the library is built for.
  \<^item> The error codes of the API are \<open>int\<close>s; unsigned machine words are kept at their width
    wherever the code shifts, masks or wraps them.
  \<^item> Lengths of strings held in memory are \<open>nat\<close>; they are assumed to fit an \<open>int\<close>.
\<close>

unbundle bit_operations_syntax

named_theorems c_simps \<open>unfolding of the C primitives\<close>

type_synonym u8 = "8 word"
type_synonym u16 = "16 word"
type_synonym u32 = "32 word"
type_synonym u64 = "64 word"

subsection \<open>Array reads and writes\<close>

definition rd :: "'a list \<Rightarrow> nat \<Rightarrow> 'a option" where
  "rd xs i = (if i < length xs then Some (xs ! i) else None)"

definition wr :: "'a list \<Rightarrow> nat \<Rightarrow> 'a \<Rightarrow> 'a list option" where
  "wr xs i x = (if i < length xs then Some (xs[i := x]) else None)"

text \<open>\<open>memcpy(dst + i, src, n)\<close> for a source given as a list.\<close>

definition blit :: "'a list \<Rightarrow> nat \<Rightarrow> 'a list \<Rightarrow> 'a list option" where
  "blit xs i ys =
     (if i + length ys \<le> length xs then Some (take i xs @ ys @ drop (i + length ys) xs) else None)"

lemma rd_in [simp]: "i < length xs \<Longrightarrow> rd xs i = Some (xs ! i)"
  by (simp add: rd_def)

lemma rd_out [simp]: "length xs \<le> i \<Longrightarrow> rd xs i = None"
  by (simp add: rd_def)

lemma rd_Some_iff: "rd xs i = Some x \<longleftrightarrow> i < length xs \<and> xs ! i = x"
  by (auto simp: rd_def)

lemma wr_in [simp]: "i < length xs \<Longrightarrow> wr xs i x = Some (xs[i := x])"
  by (simp add: wr_def)

lemma wr_out [simp]: "length xs \<le> i \<Longrightarrow> wr xs i x = None"
  by (simp add: wr_def)

lemma blit_in: "i + length ys \<le> length xs \<Longrightarrow>
    blit xs i ys = Some (take i xs @ ys @ drop (i + length ys) xs)"
  by (simp add: blit_def)

lemma length_blit: "blit xs i ys = Some zs \<Longrightarrow> length zs = length xs"
  by (auto simp: blit_def split: if_splits)

subsection \<open>Characters and bytes\<close>

text \<open>The value of a plain (signed) \<open>char\<close> promoted to \<open>int\<close>.\<close>

definition schar :: "char \<Rightarrow> int" where
  "schar c = (if (of_char c :: int) < 128 then of_char c else of_char c - 256)"

definition ascii :: "string \<Rightarrow> bool" where
  "ascii s \<longleftrightarrow> (\<forall>c \<in> set s. (of_char c :: int) < 128)"

definition byte_of_char :: "char \<Rightarrow> u8" where
  "byte_of_char c = of_char c"

definition char_of_byte :: "u8 \<Rightarrow> char" where
  "char_of_byte w = char_of (unat w)"

lemma of_char_int_bounds: "0 \<le> (of_char c :: int)" "(of_char c :: int) < 256"
  by (cases c; simp add: of_char_def horner_sum_simps)+

lemma of_char_nat_bound: "(of_char c :: nat) < 256"
  by (cases c; simp add: of_char_def horner_sum_simps)

lemma schar_bounds: "- 128 \<le> schar c" "schar c < 128"
  using of_char_int_bounds [of c] by (auto simp: schar_def)

lemma schar_ascii: "(of_char c :: int) < 128 \<Longrightarrow> 0 \<le> schar c"
  using of_char_int_bounds [of c] by (simp add: schar_def)

lemma ascii_Nil [simp]: "ascii []"
  by (simp add: ascii_def)

lemma ascii_Cons [simp]: "ascii (c # s) \<longleftrightarrow> (of_char c :: int) < 128 \<and> ascii s"
  by (auto simp: ascii_def)

lemma unat_byte_of_char: "unat (byte_of_char c) = of_char c"
proof -
  have "(of_char c :: u8) = of_nat (of_char c)"
    by (simp add: of_nat_of_char)
  then show ?thesis
    using of_char_nat_bound [of c] by (simp add: byte_of_char_def unat_of_nat take_bit_nat_eq_self)
qed

lemma char_of_byte_of_char [simp]: "char_of_byte (byte_of_char c) = c"
  by (simp add: char_of_byte_def unat_byte_of_char)

lemma byte_of_char_of_byte [simp]: "byte_of_char (char_of_byte w) = w"
proof -
  have "unat w < 256" using unsigned_less [of w, where 'a = nat] by simp
  then have "unat (byte_of_char (char_of_byte w)) = unat w"
    by (simp add: unat_byte_of_char char_of_byte_def)
  then show ?thesis by (simp add: word_unat_eq_iff)
qed

definition bytes_of_string :: "string \<Rightarrow> u8 list" where
  "bytes_of_string = map byte_of_char"

definition string_of_bytes :: "u8 list \<Rightarrow> string" where
  "string_of_bytes = map char_of_byte"

lemma string_of_bytes_of_string [simp]: "string_of_bytes (bytes_of_string s) = s"
  by (induction s) (simp_all add: string_of_bytes_def bytes_of_string_def)

lemma bytes_of_string_of_bytes [simp]: "bytes_of_string (string_of_bytes bs) = bs"
  by (induction bs) (simp_all add: string_of_bytes_def bytes_of_string_def)

lemma length_bytes_of_string [simp]: "length (bytes_of_string s) = length s"
  by (simp add: bytes_of_string_def)

lemma length_string_of_bytes [simp]: "length (string_of_bytes s) = length s"
  by (simp add: string_of_bytes_def)

text \<open>The C string stored in a byte buffer ends before the first zero byte.\<close>

definition cstring :: "u8 list \<Rightarrow> string" where
  "cstring bs = string_of_bytes (takeWhile (\<lambda>b. b \<noteq> 0) bs)"

subsection \<open>Comparison of C strings\<close>

text \<open>\<open>strcmp(a, b) == 0\<close>; passing \<open>NULL\<close> is undefined.\<close>

fun strcmp_eq :: "string option \<Rightarrow> string option \<Rightarrow> bool option" where
  "strcmp_eq (Some a) (Some b) = Some (a = b)"
| "strcmp_eq _ _ = None"

text \<open>\<open>strchr(s, c)\<close>: the rest of the string from the first \<open>c\<close> on, or \<open>NULL\<close>.\<close>

definition strchr :: "string \<Rightarrow> char \<Rightarrow> string option" where
  "strchr s c = (case dropWhile (\<lambda>x. x \<noteq> c) s of [] \<Rightarrow> None | r \<Rightarrow> Some r)"

lemma strchr_None: "strchr s c = None \<longleftrightarrow> c \<notin> set s"
  by (induction s) (auto simp: strchr_def)

lemma strchr_append: "c \<notin> set s \<Longrightarrow> strchr (s @ c # r) c = Some (c # r)"
  by (induction s) (auto simp: strchr_def)

lemma strchr_skip: "c \<notin> set p \<Longrightarrow> strchr (p @ r) c = strchr r c"
  by (induction p) (auto simp: strchr_def)

lemma strchr_Some:
  "strchr s c = Some r \<longleftrightarrow> (\<exists>p r'. s = p @ c # r' \<and> c \<notin> set p \<and> r = c # r')"
proof (induction s)
  case Nil
  then show ?case by (simp add: strchr_def)
next
  case (Cons x s)
  show ?case
  proof (cases "x = c")
    case True
    then show ?thesis by (auto simp: strchr_def Cons_eq_append_conv)
  next
    case False
    then have "strchr (x # s) c = strchr s c" by (simp add: strchr_def)
    with False Cons show ?thesis by (auto simp: Cons_eq_append_conv)
  qed
qed

subsection \<open>Remainder and unsigned subtraction of C\<close>

text \<open>The \<open>%\<close> of C takes the sign of the dividend.\<close>

definition c_rem :: "int \<Rightarrow> int \<Rightarrow> int" where
  "c_rem a b = sgn a * (\<bar>a\<bar> mod \<bar>b\<bar>)"

lemma c_rem_nonneg: "0 \<le> a \<Longrightarrow> 0 < b \<Longrightarrow> c_rem a b = a mod b"
  by (cases "a = 0") (simp_all add: c_rem_def)

lemma c_rem_bounds: "0 < b \<Longrightarrow> - b < c_rem a b \<and> c_rem a b < b"
proof -
  assume b: "0 < b"
  have m: "0 \<le> \<bar>a\<bar> mod b" "\<bar>a\<bar> mod b < b"
    using b by simp_all
  show ?thesis
    using b m by (cases a "0::int" rule: linorder_cases) (simp_all add: c_rem_def abs_if)
qed

text \<open>Subtraction of 32-bit unsigned values.\<close>

definition u32_sub :: "nat \<Rightarrow> nat \<Rightarrow> nat" where
  "u32_sub a b = (a + 2 ^ 32 - b) mod 2 ^ 32"

lemma u32_sub_ge: "b \<le> a \<Longrightarrow> a < 2 ^ 32 \<Longrightarrow> u32_sub a b = a - b"
  by (simp add: u32_sub_def mod_if)

subsection \<open>The option monad\<close>

declare Option.bind_eq_Some_conv [c_simps] Option.bind_eq_None_conv [c_simps]

subsection \<open>Lists\<close>

lemma concat_list_update:
  "i < length xss \<Longrightarrow>
    concat (xss[i := ys]) = concat (take i xss) @ ys @ concat (drop (Suc i) xss)"
  by (simp add: upd_conv_take_nth_drop)

lemma concat_nth_split:
  "i < length xss \<Longrightarrow> concat xss = concat (take i xss) @ xss ! i @ concat (drop (Suc i) xss)"
  by (metis concat.simps(2) concat_append id_take_nth_drop)

lemma length_concat_list_update:
  "i < length xss \<Longrightarrow>
    length (concat (xss[i := ys])) + length (xss ! i) = length (concat xss) + length ys"
  by (simp add: concat_list_update concat_nth_split [of i xss])

lemma takeWhile_append_stop: "(\<forall>x \<in> set xs. P x) \<Longrightarrow> \<not> P y \<Longrightarrow> takeWhile P (xs @ y # ys) = xs"
  by (induction xs) auto

lemma dropWhile_append_stop: "(\<forall>x \<in> set xs. P x) \<Longrightarrow> \<not> P y \<Longrightarrow> dropWhile P (xs @ y # ys) = y # ys"
  by (induction xs) auto

lemma takeWhile_upto [simp]: "c \<notin> set xs \<Longrightarrow> takeWhile (\<lambda>x. x \<noteq> c) (xs @ c # ys) = xs"
  by (induction xs) auto

lemma takeWhile_none [simp]: "c \<notin> set xs \<Longrightarrow> takeWhile (\<lambda>x. x \<noteq> c) xs = xs"
  by (induction xs) auto

lemma dropWhile_upto [simp]: "c \<notin> set xs \<Longrightarrow> dropWhile (\<lambda>x. x \<noteq> c) (xs @ c # ys) = c # ys"
  by (induction xs) auto

lemma find_dropWhile: "List.find P xs = (case dropWhile (\<lambda>x. \<not> P x) xs of [] \<Rightarrow> None | x # _ \<Rightarrow> Some x)"
  by (induction xs) auto

end
