(* ===== verification/Ctx.thy ===== *)
theory Ctx
  imports Prelude
begin

section \<open>The run-time context: allocator, clock, versions and log levels\<close>

text \<open>
  Models \<open>src/ctx.c\<close> and \<open>src/util.c\<close>.  The allocator of a context is supplied by
  the user of the library (\<open>xmpp_mem_t\<close>), so its answers are an input of the model: a script
  \<open>mem\<close> says for each coming allocation whether it succeeds, and an exhausted script answers
  every further request with success.  Every function that allocates takes the script and returns
  what is left of it, so each failure branch of the code is a branch of the model.  Logging calls
  change no state of the library and are left out of the other models; the filter of the default logger is modelled here,
  and the way of a message to it in the theory of log messages.
\<close>

type_synonym mem = "bool list"

text \<open>The API's error codes (\<open>strophe.h\<close>).\<close>

definition XMPP_EOK :: int where "XMPP_EOK = 0"
definition XMPP_EMEM :: int where "XMPP_EMEM = - 1"
definition XMPP_EINVOP :: int where "XMPP_EINVOP = - 2"
definition XMPP_EINT :: int where "XMPP_EINT = - 3"

lemmas error_code_defs = XMPP_EOK_def XMPP_EMEM_def XMPP_EINVOP_def XMPP_EINT_def

text \<open>\<open>xmpp_alloc\<close>: whether the user's allocator returns a block.\<close>

fun xmpp_alloc :: "mem \<Rightarrow> bool \<times> mem" where
  "xmpp_alloc [] = (True, [])"
| "xmpp_alloc (b # m) = (b, m)"

definition xmpp_strdup :: "mem \<Rightarrow> string \<Rightarrow> string option \<times> mem" where
  "xmpp_strdup m s = (case xmpp_alloc m of
      (True, m') \<Rightarrow> (Some s, m')
    | (False, m') \<Rightarrow> (None, m'))"

text \<open>An allocator that never fails is the empty script; it stays so.\<close>

lemma xmpp_strdup_Nil [simp]: "xmpp_strdup [] s = (Some s, [])"
  by (simp add: xmpp_strdup_def)

lemma xmpp_strdup_result: "xmpp_strdup m s = (r, m') \<Longrightarrow> r = None \<or> r = Some s"
  by (auto simp: xmpp_strdup_def split: prod.splits bool.splits)

subsection \<open>Time stamps\<close>

text \<open>\<open>time_stamp\<close> from the seconds and microseconds of \<open>gettimeofday\<close>.\<close>

definition time_stamp_of :: "u64 \<Rightarrow> u64 \<Rightarrow> u64" where
  "time_stamp_of tv_sec tv_usec = tv_sec * 1000 + tv_usec div 1000"

definition time_elapsed :: "u64 \<Rightarrow> u64 \<Rightarrow> u64" where
  "time_elapsed t1 t2 = t2 - t1"

lemma time_elapsed_add: "t1 + time_elapsed t1 t2 = t2"
  by (simp add: time_elapsed_def)

lemma unat_time_elapsed: "t1 \<le> t2 \<Longrightarrow> unat (time_elapsed t1 t2) = unat t2 - unat t1"
  by (simp add: time_elapsed_def unat_sub)

subsection \<open>Versions\<close>

definition LIBXMPP_VERSION_MAJOR :: int where "LIBXMPP_VERSION_MAJOR = 0"
definition LIBXMPP_VERSION_MINOR :: int where "LIBXMPP_VERSION_MINOR = 0"

definition xmpp_version_check :: "int \<Rightarrow> int \<Rightarrow> bool" where
  "xmpp_version_check major minor \<longleftrightarrow>
     major = LIBXMPP_VERSION_MAJOR \<and> minor \<ge> LIBXMPP_VERSION_MINOR"

subsection \<open>Log levels\<close>

datatype xmpp_log_level_t = XMPP_LEVEL_DEBUG | XMPP_LEVEL_INFO | XMPP_LEVEL_WARN | XMPP_LEVEL_ERROR

fun level_num :: "xmpp_log_level_t \<Rightarrow> int" where
  "level_num XMPP_LEVEL_DEBUG = 0"
| "level_num XMPP_LEVEL_INFO = 1"
| "level_num XMPP_LEVEL_WARN = 2"
| "level_num XMPP_LEVEL_ERROR = 3"

fun log_level_name :: "xmpp_log_level_t \<Rightarrow> string" where
  "log_level_name XMPP_LEVEL_DEBUG = ''DEBUG''"
| "log_level_name XMPP_LEVEL_INFO = ''INFO''"
| "log_level_name XMPP_LEVEL_WARN = ''WARN''"
| "log_level_name XMPP_LEVEL_ERROR = ''ERROR''"

text \<open>
  \<open>xmpp_default_logger\<close> writes its line when the level reaches the filter level; the result
  is the line written to \<open>stderr\<close>, if any.
\<close>

definition xmpp_default_logger ::
    "xmpp_log_level_t \<Rightarrow> xmpp_log_level_t \<Rightarrow> string \<Rightarrow> string \<Rightarrow> string option" where
  "xmpp_default_logger filter_level level area msg =
     (if level_num level \<ge> level_num filter_level
      then Some (area @ '' '' @ log_level_name level @ '' '' @ msg @ [CHR 0x0A]) else None)"

text \<open>
  \<open>xmpp_get_default_logger\<close> clamps the number it is given to the known levels; a logger is
  represented by its filter level.
\<close>

definition xmpp_get_default_logger :: "int \<Rightarrow> xmpp_log_level_t" where
  "xmpp_get_default_logger level =
     (let level = (if level > 3 then 3 else level);
          level = (if level < 0 then 0 else level)
      in if level = 0 then XMPP_LEVEL_DEBUG else if level = 1 then XMPP_LEVEL_INFO
         else if level = 2 then XMPP_LEVEL_WARN else XMPP_LEVEL_ERROR)"

lemma default_logger_levels:
  "level_num (xmpp_get_default_logger n) = max 0 (min 3 n)"
  by (auto simp: xmpp_get_default_logger_def Let_def)

end
