(* ===== verification/Base64.thy ===== *)
theory Base64
  imports Ctx
begin

section \<open>Base64 (sasl.c)\<close>

text \<open>
  Models the Base64 routines of \<open>src/sasl.c\<close>.  Buffers are read by index, as the code does, so
  that a read past the end is visible; the loop bounds \<open>len - 2\<close> and \<open>len - 3\<close> are unsigned
  and wrap for short inputs.  The decoder writes into a block of \<open>dlen + 1\<close> bytes; a write outside
  it is undefined.  \<open>enc_list\<close> is the encoding as RFC 4648 gives it, by groups of three bytes.
\<close>

subsection \<open>The tables\<close>

definition base64_invcharmap :: "u32 list" where
  "base64_invcharmap = [
    65, 65, 65, 65, 65, 65, 65, 65, 65, 65, 65, 65, 65, 65, 65, 65,
    65, 65, 65, 65, 65, 65, 65, 65, 65, 65, 65, 65, 65, 65, 65, 65,
    65, 65, 65, 65, 65, 65, 65, 65, 65, 65, 65, 62, 65, 65, 65, 63,
    52, 53, 54, 55, 56, 57, 58, 59, 60, 61, 65, 65, 65, 64, 65, 65,
    65, 0, 1, 2, 3, 4, 5, 6, 7, 8, 9, 10, 11, 12, 13, 14,
    15, 16, 17, 18, 19, 20, 21, 22, 23, 24, 25, 65, 65, 65, 65, 65,
    65, 26, 27, 28, 29, 30, 31, 32, 33, 34, 35, 36, 37, 38, 39, 40,
    41, 42, 43, 44, 45, 46, 47, 48, 49, 50, 51, 65, 65, 65, 65, 65,
    65, 65, 65, 65, 65, 65, 65, 65, 65, 65, 65, 65, 65, 65, 65, 65,
    65, 65, 65, 65, 65, 65, 65, 65, 65, 65, 65, 65, 65, 65, 65, 65,
    65, 65, 65, 65, 65, 65, 65, 65, 65, 65, 65, 65, 65, 65, 65, 65,
    65, 65, 65, 65, 65, 65, 65, 65, 65, 65, 65, 65, 65, 65, 65, 65,
    65, 65, 65, 65, 65, 65, 65, 65, 65, 65, 65, 65, 65, 65, 65, 65,
    65, 65, 65, 65, 65, 65, 65, 65, 65, 65, 65, 65, 65, 65, 65, 65,
    65, 65, 65, 65, 65, 65, 65, 65, 65, 65, 65, 65, 65, 65, 65, 65,
    65, 65, 65, 65, 65, 65, 65, 65, 65, 65, 65, 65, 65, 65, 65, 65]"

definition base64_charmap :: string where
  "base64_charmap = ''ABCDEFGHIJKLMNOPQRSTUVWXYZabcdefghijklmnopqrstuvwxyz0123456789+/=''"

text \<open>The table reads \<open>_base64_charmap[hextet]\<close> and \<open>_base64_invcharmap[(int)c]\<close>; the second
  is undefined for a negative \<open>char\<close>.\<close>

definition b64_char :: "u32 \<Rightarrow> char" where
  "b64_char h = base64_charmap ! unat h"

definition b64_inv :: "char \<Rightarrow> u32 option" where
  "b64_inv c = (if 0 \<le> schar c then Some (base64_invcharmap ! nat (schar c)) else None)"

subsection \<open>Encoding\<close>

definition base64_encoded_len :: "nat \<Rightarrow> nat" where
  "base64_encoded_len len = ((len + 2) div 3) * 4"

definition pack3 :: "u8 \<Rightarrow> u8 \<Rightarrow> u8 \<Rightarrow> u32" where
  "pack3 a b c = push_bit 16 (ucast a) OR push_bit 8 (ucast b) OR ucast c"

definition enc_quad :: "u8 \<Rightarrow> u8 \<Rightarrow> u8 \<Rightarrow> string" where
  "enc_quad a b c =
     (let word = pack3 a b c
      in [b64_char (drop_bit 18 (word AND 0x00FC0000)),
          b64_char (drop_bit 12 (word AND 0x0003F000)),
          b64_char (drop_bit 6 (word AND 0x00000FC0)),
          b64_char (word AND 0x0000003F)])"

text \<open>The loop over the buffer; the result is the final value of \<open>i\<close> and the characters written.\<close>

function enc_loop :: "u8 list \<Rightarrow> nat \<Rightarrow> (nat \<times> string) option" where
  "enc_loop buffer i =
     (if i < u32_sub (length buffer) 2 then do {
        a \<leftarrow> rd buffer i;
        b \<leftarrow> rd buffer (i + 1);
        c \<leftarrow> rd buffer (i + 2);
        (j, s) \<leftarrow> enc_loop buffer (i + 3);
        Some (j, enc_quad a b c @ s) }
      else Some (i, []))"
  by pat_completeness auto
termination
  by (relation "measure (\<lambda>(buffer, i). length buffer - i)") (auto simp: rd_Some_iff)

declare enc_loop.simps [simp del]

text \<open>The bytes left over, from the end of the buffer.\<close>

definition rd_end :: "'a list \<Rightarrow> nat \<Rightarrow> 'a option" where
  "rd_end xs k = (if 0 < k \<and> k \<le> length xs then Some (xs ! (length xs - k)) else None)"

definition enc_tail :: "u8 list \<Rightarrow> nat \<Rightarrow> string option" where
  "enc_tail buffer n =
     (if n = 1 then do {
        x \<leftarrow> rd_end buffer 1;
        Some [b64_char (drop_bit 2 (ucast x AND 0xFC)),
              b64_char (push_bit 4 (ucast x AND 0x03)),
              b64_char 64, b64_char 64] }
      else if n = 2 then do {
        y \<leftarrow> rd_end buffer 2;
        x \<leftarrow> rd_end buffer 1;
        Some [b64_char (drop_bit 2 (ucast y AND 0xFC)),
              b64_char (push_bit 4 (ucast y AND 0x03) OR drop_bit 4 (ucast x AND 0xF0)),
              b64_char (push_bit 2 (ucast x AND 0x0F)),
              b64_char 64] }
      else Some [])"

definition base64_encode :: "mem \<Rightarrow> u8 list \<Rightarrow> (string option \<times> mem) option" where
  "base64_encode m buffer =
     (case xmpp_alloc m of
        (False, m') \<Rightarrow> Some (None, m')
      | (True, m') \<Rightarrow> do {
          (i, s) \<leftarrow> enc_loop buffer 0;
          t \<leftarrow> enc_tail buffer (u32_sub (length buffer) i);
          Some (Some (s @ t), m') })"

subsection \<open>Decoding\<close>

text \<open>The number of padding characters, or -1 for bad coding.\<close>

definition b64_nudge :: "string \<Rightarrow> int option" where
  "b64_nudge buffer = do {
     c \<leftarrow> Option.bind (rd_end buffer 1) b64_inv;
     if c < 64 then Some 0
     else if c = 64 then do {
       c \<leftarrow> Option.bind (rd_end buffer 2) b64_inv;
       if c < 64 then Some 1
       else if c = 64 then do {
         c \<leftarrow> Option.bind (rd_end buffer 3) b64_inv;
         if c < 64 then Some 2 else Some (- 1) }
       else Some (- 1) }
     else Some (- 1) }"

definition base64_decoded_len :: "string \<Rightarrow> int option" where
  "base64_decoded_len buffer = do {
     nudge \<leftarrow> b64_nudge buffer;
     if nudge < 0 then Some 0 else Some (3 * (int (length buffer) div 4) - nudge) }"

text \<open>\<open>*d++ = b\<close> in a block of \<open>cap\<close> bytes of which \<open>out\<close> are written.\<close>

definition put_byte :: "nat \<Rightarrow> u8 list \<Rightarrow> u8 \<Rightarrow> u8 list option" where
  "put_byte cap out b = (if length out < cap then Some (out @ [b]) else None)"

text \<open>The main loop: the last hextet looked up and the bytes written.\<close>

function dec_loop :: "nat \<Rightarrow> string \<Rightarrow> nat \<Rightarrow> u32 \<Rightarrow> u8 list \<Rightarrow> (u32 \<times> u8 list) option" where
  "dec_loop cap buffer i hextet d =
     (if i < u32_sub (length buffer) 3 then do {
        h1 \<leftarrow> Option.bind (rd buffer i) b64_inv;
        if h1 AND 0xC0 \<noteq> 0 then Some (h1, d) else do {
        h2 \<leftarrow> Option.bind (rd buffer (i + 1)) b64_inv;
        if h2 AND 0xC0 \<noteq> 0 then Some (h2, d) else do {
        h3 \<leftarrow> Option.bind (rd buffer (i + 2)) b64_inv;
        if h3 AND 0xC0 \<noteq> 0 then Some (h3, d) else do {
        h4 \<leftarrow> Option.bind (rd buffer (i + 3)) b64_inv;
        if h4 AND 0xC0 \<noteq> 0 then Some (h4, d) else do {
        let word = push_bit 18 h1 OR push_bit 12 h2 OR push_bit 6 h3 OR h4;
        d \<leftarrow> put_byte cap d (ucast (drop_bit 16 (word AND 0x00FF0000)));
        d \<leftarrow> put_byte cap d (ucast (drop_bit 8 (word AND 0x0000FF00)));
        d \<leftarrow> put_byte cap d (ucast (word AND 0x000000FF));
        dec_loop cap buffer (i + 4) h4 d }}}}}
      else Some (hextet, d))"
  by pat_completeness auto
termination
  by (relation "measure (\<lambda>(cap, buffer, i, hextet, d). length buffer - i)")
    (auto simp: rd_Some_iff c_simps)

declare dec_loop.simps [simp del]

text \<open>The last quartet when one or two bytes are left; an inner \<open>None\<close> is the jump to the error
  label.\<close>

definition dec_tail :: "nat \<Rightarrow> string \<Rightarrow> int \<Rightarrow> u8 list \<Rightarrow> u8 list option option" where
  "dec_tail cap buffer r d =
     (if r = 1 then do {
        h \<leftarrow> Option.bind (rd_end buffer 4) b64_inv;
        if h AND 0xC0 \<noteq> 0 then Some None else do {
        let word = push_bit 2 h;
        h \<leftarrow> Option.bind (rd_end buffer 3) b64_inv;
        if h AND 0xC0 \<noteq> 0 then Some None else do {
        let word = word OR drop_bit 4 h;
        d \<leftarrow> put_byte cap d (ucast (word AND 0xFF));
        h \<leftarrow> Option.bind (rd_end buffer 2) b64_inv;
        if h \<noteq> 64 then Some None else do {
        h \<leftarrow> Option.bind (rd_end buffer 1) b64_inv;
        if h \<noteq> 64 then Some None else Some (Some d) }}}}
      else if r = 2 then do {
        h \<leftarrow> Option.bind (rd_end buffer 4) b64_inv;
        if h AND 0xC0 \<noteq> 0 then Some None else do {
        let word = push_bit 10 h;
        h \<leftarrow> Option.bind (rd_end buffer 3) b64_inv;
        if h AND 0xC0 \<noteq> 0 then Some None else do {
        let word = word OR push_bit 4 h;
        h \<leftarrow> Option.bind (rd_end buffer 2) b64_inv;
        if h AND 0xC0 \<noteq> 0 then Some None else do {
        let word = word OR drop_bit 2 h;
        d \<leftarrow> put_byte cap d (ucast (drop_bit 8 (word AND 0xFF00)));
        d \<leftarrow> put_byte cap d (ucast (word AND 0x00FF));
        h \<leftarrow> Option.bind (rd_end buffer 1) b64_inv;
        if h \<noteq> 64 then Some None else Some (Some d) }}}}
      else Some (Some d))"

text \<open>When the allocation fails, the terminating zero is still written, through a pointer that was
  never set.\<close>

definition base64_decode :: "mem \<Rightarrow> string \<Rightarrow> (u8 list option \<times> mem) option" where
  "base64_decode m buffer =
     (if length buffer mod 4 \<noteq> 0 then Some (None, m)
      else do {
        dlen \<leftarrow> base64_decoded_len buffer;
        case xmpp_alloc m of
          (False, m') \<Rightarrow> None
        | (True, m') \<Rightarrow> do {
            (hextet, d) \<leftarrow> dec_loop (nat dlen + 1) buffer 0 0 [];
            if hextet > 64 then Some (None, m')
            else do {
              r \<leftarrow> dec_tail (nat dlen + 1) buffer (dlen mod 3) d;
              case r of
                None \<Rightarrow> Some (None, m')
              | Some d \<Rightarrow> do {
                  _ \<leftarrow> put_byte (nat dlen + 1) d 0;
                  Some (Some d, m') } } } })"

subsection \<open>The encoding of RFC 4648\<close>

fun enc_list :: "u8 list \<Rightarrow> string" where
  "enc_list [] = []"
| "enc_list [x] =
     [b64_char (drop_bit 2 (ucast x AND 0xFC)), b64_char (push_bit 4 (ucast x AND 0x03)),
      b64_char 64, b64_char 64]"
| "enc_list [y, x] =
     [b64_char (drop_bit 2 (ucast y AND 0xFC)),
      b64_char (push_bit 4 (ucast y AND 0x03) OR drop_bit 4 (ucast x AND 0xF0)),
      b64_char (push_bit 2 (ucast x AND 0x0F)), b64_char 64]"
| "enc_list (a # b # c # bs) = enc_quad a b c @ enc_list bs"

subsection \<open>Tables and bits\<close>

lemma base64_tables:
  "\<forall>n \<in> {0..<65}. 0 \<le> schar (base64_charmap ! n) \<and>
     unat (base64_invcharmap ! nat (schar (base64_charmap ! n))) = n"
  by code_simp

lemma b64_inv_char: "h < 65 \<Longrightarrow> b64_inv (b64_char h) = Some h"
proof -
  assume "h < 65"
  then have "unat h \<in> {0..<65}" by (simp add: word_less_nat_alt)
  from bspec [OF base64_tables this] show ?thesis
    by (simp add: b64_inv_def b64_char_def word_unat_eq_iff)
qed

lemma bits8: "(n::nat) < 8 \<longleftrightarrow> n = 0 \<or> n = 1 \<or> n = 2 \<or> n = 3 \<or> n = 4 \<or> n = 5 \<or> n = 6 \<or> n = 7"
  by auto

lemma mask_forms:
  "(0x00FC0000 :: u32) = push_bit 18 (mask 6)" "(0x0003F000 :: u32) = push_bit 12 (mask 6)"
  "(0x00000FC0 :: u32) = push_bit 6 (mask 6)" "(0x0000003F :: u32) = mask 6"
  "(0x00FF0000 :: u32) = push_bit 16 (mask 8)" "(0x0000FF00 :: u32) = push_bit 8 (mask 8)"
  "(0x000000FF :: u32) = mask 8" "(0xFC :: u32) = push_bit 2 (mask 6)" "(0x03 :: u32) = mask 2"
  "(0x0F :: u32) = mask 4" "(0xF0 :: u32) = push_bit 4 (mask 4)"
  by (simp_all add: mask_eq_exp_minus_1 push_bit_eq_mult)


lemma drop_and_mask: "drop_bit k (w AND push_bit k (mask m)) = take_bit m (drop_bit k (w :: u32))"
  by (rule bit_word_eqI) (auto simp: bit_simps dest: bit_imp_le_length)

lemma and_mask32: "w AND mask m = take_bit m (w :: u32)"
  by (simp add: take_bit_eq_mask)

lemma pack3_lt: "take_bit 24 (pack3 a b c) = pack3 a b c"
  by (rule bit_word_eqI) (auto simp: pack3_def bit_simps dest: bit_imp_le_length)

lemma split_quad:
  fixes w :: u32
  shows "push_bit 18 (take_bit 6 (drop_bit 18 w)) OR push_bit 12 (take_bit 6 (drop_bit 12 w)) OR
     push_bit 6 (take_bit 6 (drop_bit 6 w)) OR take_bit 6 w = take_bit 24 w" (is "?l = ?r")
proof (rule bit_word_eqI)
  fix n :: nat assume "n < LENGTH(32)"
  consider "n < 6" | "6 \<le> n" "n < 12" | "12 \<le> n" "n < 18" | "18 \<le> n" "n < 24" | "24 \<le> n" by linarith
  then show "bit ?l n = bit ?r n"
    by cases (use \<open>n < LENGTH(32)\<close> in \<open>auto simp: bit_simps\<close>)
qed

lemma take_bit6_lt: "take_bit 6 (w :: u32) < 65"
proof -
  have "unat (take_bit 6 w) < 2 ^ 6" by (simp only: unsigned_take_bit_eq take_bit_nat_less_exp)
  then show ?thesis by (simp add: word_less_nat_alt)
qed

lemma take_bit6_and: "take_bit 6 (w :: u32) AND 0xC0 = 0"
proof -
  have m: "(0xC0 :: u32) = push_bit 6 (mask 2)" by (simp add: mask_eq_exp_minus_1 push_bit_eq_mult)
  show ?thesis unfolding m by (rule bit_word_eqI) (auto simp: bit_simps)
qed

lemma pack_bytes:
  "ucast (drop_bit 16 (pack3 a b c AND 0x00FF0000)) = a"
  "ucast (drop_bit 8 (pack3 a b c AND 0x0000FF00)) = b"
  "ucast (pack3 a b c AND 0x000000FF) = c"
  unfolding mask_forms pack3_def
  by (rule bit_word_eqI; auto simp: bit_simps dest: bit_imp_le_length)+

lemma enc_quad_hextets:
  "enc_quad a b c = (let w = pack3 a b c in
     map b64_char [take_bit 6 (drop_bit 18 w), take_bit 6 (drop_bit 12 w), take_bit 6 (drop_bit 6 w), take_bit 6 w])"
  by (simp only: enc_quad_def Let_def mask_forms drop_and_mask and_mask32 list.map)

text \<open>The hextets of one and of two last bytes, and the bytes read back from them.\<close>

lemma tail_hextets:
  "drop_bit 2 (w AND 0xFC) = take_bit 6 (drop_bit 2 (w::u32))"
  "push_bit 4 (w AND 0x03) = take_bit 6 (push_bit 4 w)"
  "push_bit 4 (w AND 0x03) OR drop_bit 4 (v AND 0xF0) = take_bit 6 (push_bit 4 w OR take_bit 4 (drop_bit 4 v))"
  "push_bit 2 (w AND 0x0F) = take_bit 6 (push_bit 2 w)"
  unfolding mask_forms
  by (rule bit_word_eqI; auto simp: bit_simps dest: bit_imp_le_length)+

lemma tail_bytes:
  fixes x y :: u8
  shows "ucast ((push_bit 2 (take_bit 6 (drop_bit 2 (ucast x))) OR
      drop_bit 4 (take_bit 6 (push_bit 4 (ucast x)))) AND (0xFF::u32)) = x"
  "ucast (drop_bit 8 (((push_bit 10 (take_bit 6 (drop_bit 2 (ucast y))) OR
      push_bit 4 (take_bit 6 (push_bit 4 (ucast y) OR take_bit 4 (drop_bit 4 (ucast x))))) OR
      drop_bit 2 (take_bit 6 (push_bit 2 (ucast x)))) AND (0xFF00 :: u32))) = y"
  "ucast (((push_bit 10 (take_bit 6 (drop_bit 2 (ucast y))) OR
      push_bit 4 (take_bit 6 (push_bit 4 (ucast y) OR take_bit 4 (drop_bit 4 (ucast x))))) OR
      drop_bit 2 (take_bit 6 (push_bit 2 (ucast x)))) AND (0x00FF :: u32)) = x"
  unfolding mask_forms
  by (rule bit_word_eqI; simp add: bit_simps bits8; elim disjE; simp add: bit_simps eval_nat_numeral)+
subsection \<open>The encoder\<close>

lemma enc_loop_end: "length buffer < i + 3 \<Longrightarrow> 2 \<le> length buffer \<Longrightarrow> length buffer < 2 ^ 32 \<Longrightarrow>
    enc_loop buffer i = Some (i, [])"
proof -
  assume "length buffer < i + 3" "2 \<le> length buffer" "length buffer < 2 ^ 32"
  then have "\<not> i < u32_sub (length buffer) 2" by (simp add: u32_sub_ge)
  then show ?thesis by (subst enc_loop.simps) simp
qed

lemma enc_loop_list:
  assumes "2 \<le> length (p @ bs)" "length (p @ bs) < 2 ^ 32"
  shows "\<exists>j s t. enc_loop (p @ bs) (length p) = Some (j, s) \<and>
    enc_tail (p @ bs) (u32_sub (length (p @ bs)) j) = Some t \<and> s @ t = enc_list bs"
  using assms
proof (induction bs arbitrary: p rule: enc_list.induct)
  case (4 a b c bs)
  have "enc_loop (p @ a # b # c # bs) (length p) =
      map_option (\<lambda>(j, s). (j, enc_quad a b c @ s)) (enc_loop (p @ a # b # c # bs) (length p + 3))"
    using 4(2,3) by (subst enc_loop.simps)
      (simp add: u32_sub_ge nth_append rd_def map_option_case split: option.splits)
  moreover have "\<exists>j s t. enc_loop ((p @ [a, b, c]) @ bs) (length (p @ [a, b, c])) = Some (j, s) \<and>
    enc_tail ((p @ [a, b, c]) @ bs) (u32_sub (length ((p @ [a, b, c]) @ bs)) j) = Some t \<and> s @ t = enc_list bs"
    by (rule 4(1)) (use 4(2,3) in simp_all)
  ultimately show ?case by (fastforce simp: numeral_3_eq_3)
qed (simp_all add: enc_loop_end u32_sub_ge enc_tail_def rd_end_def nth_append)

lemma length_enc_list: "length (enc_list bs) = base64_encoded_len (length bs)"
proof (induction bs rule: enc_list.induct)
  case (4 a b c bs)
  then show ?case by (simp add: base64_encoded_len_def enc_quad_def Let_def) presburger
qed (simp_all add: base64_encoded_len_def)

lemma base64_encode_ok:
  assumes "2 \<le> length b" "length b < 2 ^ 32"
  shows "base64_encode m b = (case xmpp_alloc m of (ok, m') \<Rightarrow> Some (if ok then Some (enc_list b) else None, m'))"
  using enc_loop_list [of "[]" b] assms
  by (auto simp: base64_encode_def split: prod.splits bool.splits)

subsection \<open>The decoder\<close>

lemma rd_end_append: "k \<le> length ys \<Longrightarrow> rd_end (xs @ ys) k = rd_end ys k"
  by (auto simp: rd_end_def nth_append)

lemma length_enc_list_ge: "bs \<noteq> [] \<Longrightarrow> 4 \<le> length (enc_list bs)"
  by (cases bs rule: enc_list.cases) (simp_all add: enc_quad_def Let_def)

lemma rd_end_appends:
  assumes "4 \<le> length ys"
  shows "rd_end (xs @ ys) 1 = rd_end ys 1" "rd_end (xs @ ys) 2 = rd_end ys 2"
    "rd_end (xs @ ys) 3 = rd_end ys 3" "rd_end (xs @ ys) 4 = rd_end ys 4"
  using assms by (simp_all add: rd_end_append)

lemma b64_nudge_append: "4 \<le> length ys \<Longrightarrow> b64_nudge (xs @ ys) = b64_nudge ys"
  unfolding b64_nudge_def by (simp only: rd_end_appends)

lemma dec_tail_append: "4 \<le> length ys \<Longrightarrow> dec_tail cap (xs @ ys) r d = dec_tail cap ys r d"
  unfolding dec_tail_def rd_end_appends ..

lemma take_bit6_lt64: "take_bit 6 (w :: u32) < 64" "take_bit 6 w < (65 :: u32)" "take_bit 6 w \<noteq> (64 :: u32)"
proof -
  have "unat (take_bit 6 w) < 2 ^ 6" by (simp only: unsigned_take_bit_eq take_bit_nat_less_exp)
  then show "take_bit 6 w < 64" "take_bit 6 w < (65 :: u32)"
    by (simp_all add: word_less_nat_alt)
  then show "take_bit 6 w \<noteq> (64 :: u32)" by auto
qed

lemma b64_inv_take [simp]: "b64_inv (b64_char (take_bit 6 w)) = Some (take_bit 6 w)"
  by (simp add: b64_inv_char take_bit6_lt64)

lemma b64_inv_pad [simp]: "b64_inv (b64_char 64) = Some 64"
  by (simp add: b64_inv_char)

lemma enc_list_nudge:
  "bs \<noteq> [] \<Longrightarrow> b64_nudge (enc_list bs) = Some (int ((3 - length bs mod 3) mod 3))"
proof (induction bs rule: enc_list.induct)
  case (2 x)
  then show ?case
    by (simp only: enc_list.simps tail_hextets) (simp add: b64_nudge_def rd_end_def take_bit6_lt64)
next
  case (3 y x)
  then show ?case
    by (simp only: enc_list.simps tail_hextets) (simp add: b64_nudge_def rd_end_def take_bit6_lt64)
next
  case (4 a b c bs)
  show ?case
  proof (cases "bs = []")
    case True
    then show ?thesis
      by (simp add: b64_nudge_def rd_end_def enc_quad_hextets Let_def take_bit6_lt64)
  next
    case False
    then show ?thesis
      using 4 length_enc_list_ge [of bs] by (simp add: b64_nudge_append)
  qed
qed simp

lemma enc_list_decoded_len:
  assumes "bs \<noteq> []"
  shows "base64_decoded_len (enc_list bs) = Some (int (length bs))"
proof -
  obtain q r where n: "length bs = 3 * q + r" "r < 3"
    by (metis mod_less_divisor mult_div_mod_eq zero_less_numeral)
  have "r = 0 \<or> r = 1 \<or> r = 2" using n(2) by linarith
  moreover have "(3 * q + r) mod 3 = r" using n(2) by simp
  ultimately have "3 * (int (length (enc_list bs)) div 4) - int ((3 - length bs mod 3) mod 3) = int (length bs)"
    by (elim disjE) (simp_all add: length_enc_list base64_encoded_len_def n(1) del: mult_Suc_right)
  then show ?thesis
    using assms by (simp add: base64_decoded_len_def enc_list_nudge)
qed


lemma dec_loop_end: "length buffer < i + 4 \<Longrightarrow> 4 \<le> length buffer \<Longrightarrow> length buffer < 2 ^ 32 \<Longrightarrow>
    dec_loop cap buffer i h d = Some (h, d)"
proof -
  assume "length buffer < i + 4" "4 \<le> length buffer" "length buffer < 2 ^ 32"
  then have "\<not> i < u32_sub (length buffer) 3" by (simp add: u32_sub_ge)
  then show ?thesis by (subst dec_loop.simps) simp
qed

lemma dec_loop_at:
  assumes "i + 4 \<le> length s" "length s < 2 ^ 32" "b64_inv (s ! i) = Some h1" "b64_inv (s ! (i + 1)) = Some h2"
    "b64_inv (s ! (i + 2)) = Some h3" "b64_inv (s ! (i + 3)) = Some h4"
  shows "dec_loop cap s i h d =
    (if h1 AND 0xC0 \<noteq> 0 then Some (h1, d) else if h2 AND 0xC0 \<noteq> 0 then Some (h2, d)
     else if h3 AND 0xC0 \<noteq> 0 then Some (h3, d) else if h4 AND 0xC0 \<noteq> 0 then Some (h4, d)
     else do {
        let word = push_bit 18 h1 OR push_bit 12 h2 OR push_bit 6 h3 OR h4;
        d \<leftarrow> put_byte cap d (ucast (drop_bit 16 (word AND 0x00FF0000)));
        d \<leftarrow> put_byte cap d (ucast (drop_bit 8 (word AND 0x0000FF00)));
        d \<leftarrow> put_byte cap d (ucast (word AND 0x000000FF));
        dec_loop cap s (i + 4) h4 d })"
proof -
  have "i < u32_sub (length s) 3" using assms(1,2) by (simp add: u32_sub_ge)
  moreover have "rd s i = Some (s ! i)" "rd s (i + 1) = Some (s ! (i + 1))"
    "rd s (i + 2) = Some (s ! (i + 2))" "rd s (i + 3) = Some (s ! (i + 3))"
    using assms(1) by (simp_all add: rd_def)
  ultimately show ?thesis
    by (subst dec_loop.simps) (simp only: assms(3-6) Option.bind.bind_lunit if_True)
qed

lemma dec_loop_quad:
  assumes "length q + 4 + length s < 2 ^ 32" "b64_inv c1 = Some h1" "b64_inv c2 = Some h2"
    "b64_inv c3 = Some h3" "b64_inv c4 = Some h4"
  shows "dec_loop cap (q @ c1 # c2 # c3 # c4 # s) (length q) h d =
    (if h1 AND 0xC0 \<noteq> 0 then Some (h1, d) else if h2 AND 0xC0 \<noteq> 0 then Some (h2, d)
     else if h3 AND 0xC0 \<noteq> 0 then Some (h3, d) else if h4 AND 0xC0 \<noteq> 0 then Some (h4, d)
     else do {
        let word = push_bit 18 h1 OR push_bit 12 h2 OR push_bit 6 h3 OR h4;
        d \<leftarrow> put_byte cap d (ucast (drop_bit 16 (word AND 0x00FF0000)));
        d \<leftarrow> put_byte cap d (ucast (drop_bit 8 (word AND 0x0000FF00)));
        d \<leftarrow> put_byte cap d (ucast (word AND 0x000000FF));
        dec_loop cap (q @ c1 # c2 # c3 # c4 # s) (length q + 4) h4 d })"
  using assms by (intro dec_loop_at) (simp_all add: nth_append)

lemma three_div: "3 * ((3 + n) div 3) = Suc (Suc (Suc (3 * (n div 3))))" for n :: nat
  using div_add_self1 [of "3::nat" n] by simp

lemma dec_loop_enc:
  assumes "4 \<le> length (q @ enc_list bs)" "length (q @ enc_list bs) < 2 ^ 32" "h \<le> 64"
    "length d + length bs \<le> cap"
  shows "\<exists>h'. h' \<le> 64 \<and>
    dec_loop cap (q @ enc_list bs) (length q) h d = Some (h', d @ take (3 * (length bs div 3)) bs)"
  using assms
proof (induction bs arbitrary: q h d rule: enc_list.induct)
  case 1
  then show ?case by (simp add: dec_loop_end)
next
  case (2 x)
  from 2(1-3) show ?case
    unfolding enc_list.simps tail_hextets
    by (simp add: dec_loop_quad take_bit6_and)
next
  case (3 y x)
  define v :: u32 where "v = push_bit 4 (ucast y) OR take_bit 4 (drop_bit 4 (ucast x))"
  from 3(1-3) show ?case
    unfolding enc_list.simps tail_hextets(1,3,4) v_def [symmetric]
    by (simp add: dec_loop_quad take_bit6_and)
next
  case (4 a b c bs)
  define w where "w = pack3 a b c"
  have h4: "take_bit 6 w \<le> 64" using take_bit6_lt64(1) [of w] by simp
  have lw: "take_bit 24 w = w" by (simp add: w_def pack3_lt)
  have step: "dec_loop cap (q @ enc_quad a b c @ enc_list bs) (length q) h d =
      dec_loop cap (q @ enc_quad a b c @ enc_list bs) (length q + 4) (take_bit 6 w) (d @ [a, b, c])"
    using 4(2-5) unfolding enc_list.simps enc_quad_hextets Let_def w_def [symmetric]
    by (simp add: dec_loop_quad take_bit6_and split_quad lw)
       (simp add: put_byte_def w_def pack_bytes [simplified])
  have "\<exists>h'. h' \<le> 64 \<and> dec_loop cap ((q @ enc_quad a b c) @ enc_list bs) (length (q @ enc_quad a b c))
      (take_bit 6 w) (d @ [a, b, c]) = Some (h', (d @ [a, b, c]) @ take (3 * (length bs div 3)) bs)"
    by (rule 4(1)) (use 4(2-5) h4 in simp_all)
  moreover have "length q + 4 = length (q @ enc_quad a b c)" by (simp add: enc_quad_hextets Let_def)
  moreover have "3 * (length (a # b # c # bs) div 3) = Suc (Suc (Suc (3 * (length bs div 3))))"
    using three_div [of "length bs"] by simp
  ultimately show ?case
    using step by (simp del: length_append)
qed

lemma dec_tail_enc:
  assumes "bs \<noteq> []" "length d + length bs mod 3 \<le> cap"
  shows "dec_tail cap (enc_list bs) (int (length bs) mod 3) d =
    Some (Some (d @ drop (3 * (length bs div 3)) bs))"
  using assms
proof (induction bs rule: enc_list.induct)
  case (2 x)
  then show ?case
    unfolding enc_list.simps tail_hextets
    by (simp add: dec_tail_def rd_end_def take_bit6_and put_byte_def tail_bytes)
next
  case (3 y x)
  define v :: u32 where "v = push_bit 4 (ucast y) OR take_bit 4 (drop_bit 4 (ucast x))"
  from 3 show ?case
    unfolding enc_list.simps tail_hextets(1,3,4) v_def [symmetric]
    by (simp add: dec_tail_def rd_end_def take_bit6_and put_byte_def Let_def tail_bytes(2,3) [where x = x and y = y, folded v_def, simplified])
next
  case (4 a b c bs)
  show ?case
  proof (cases "bs = []")
    case False
    have "int (length (a # b # c # bs)) mod 3 = int (length bs) mod 3" by simp
    then show ?thesis
      using False 4 length_enc_list_ge [of bs] by (simp add: dec_tail_append three_div)
  qed (simp add: dec_tail_def)
qed simp

lemma base64_decode_enc_list:
  assumes "bs \<noteq> []" "length bs < 2 ^ 31" "xmpp_alloc m = (True, m')"
  shows "base64_decode m (enc_list bs) = Some (Some bs, m')"
proof -
  have l4: "length (enc_list bs) mod 4 = 0" by (simp add: length_enc_list base64_encoded_len_def)
  have lt: "length (enc_list bs) < 2 ^ 32"
    using assms(2) by (simp add: length_enc_list base64_encoded_len_def)
  let ?cap = "length bs + 1"
  obtain h' where h': "h' \<le> 64" "dec_loop ?cap (enc_list bs) 0 0 [] = Some (h', take (3 * (length bs div 3)) bs)"
    using dec_loop_enc [of "[]" bs 0 "[]" ?cap] length_enc_list_ge [OF assms(1)] lt by auto
  have t: "dec_tail ?cap (enc_list bs) (int (length bs) mod 3) (take (3 * (length bs div 3)) bs) = Some (Some bs)"
    using dec_tail_enc [of bs "take (3 * (length bs div 3)) bs" ?cap] assms(1) by simp
  show ?thesis
    using h' t l4 assms(3)
    by (simp add: base64_decode_def enc_list_decoded_len [OF assms(1)] nat_int_add put_byte_def not_less)
qed

subsection \<open>Memory safety of the decoder\<close>

text \<open>A character is good when its table entry is a hextet.\<close>

definition good_char :: "char \<Rightarrow> bool" where
  "good_char c \<longleftrightarrow> (case b64_inv c of Some h \<Rightarrow> h AND 0xC0 = 0 | None \<Rightarrow> False)"

definition good_quartet :: "string \<Rightarrow> nat \<Rightarrow> bool" where
  "good_quartet s k \<longleftrightarrow> (\<forall>j < 4. good_char (s ! (4 * k + j)))"

lemma table_range:
  "\<forall>n \<in> {0..<128}. base64_invcharmap ! n \<le> 65 \<and>
     ((base64_invcharmap ! n) AND 0xC0 = 0 \<longleftrightarrow> base64_invcharmap ! n < 64)"
  by code_simp

lemma b64_inv_ascii:
  assumes "0 \<le> schar c"
  obtains h where "b64_inv c = Some h" "h \<le> 65" "(h AND 0xC0 = 0) = (h < 64)" "good_char c \<longleftrightarrow> h < 64"
proof -
  have "nat (schar c) \<in> {0..<128}" using assms schar_bounds [of c] by auto
  from bspec [OF table_range this] show ?thesis
    using assms by (intro that [of "base64_invcharmap ! nat (schar c)"]) (auto simp: b64_inv_def good_char_def)
qed

lemma ascii_schar: "ascii s \<Longrightarrow> i < length s \<Longrightarrow> 0 \<le> schar (s ! i)"
  by (auto simp: ascii_def intro: schar_ascii)

lemma b64_inv_defined: "ascii s \<Longrightarrow> i < length s \<Longrightarrow> \<exists>h. b64_inv (s ! i) = Some h"
  by (metis ascii_schar b64_inv_ascii)

lemma good_quartet_4: "good_quartet s k \<longleftrightarrow> good_char (s ! (4 * k)) \<and> good_char (s ! (4 * k + 1)) \<and>
    good_char (s ! (4 * k + 2)) \<and> good_char (s ! (4 * k + 3))"
proof -
  have "(\<forall>j < (4::nat). P j) \<longleftrightarrow> P 0 \<and> P 1 \<and> P 2 \<and> P 3" for P
    by (auto simp: less_Suc_eq numeral_eq_Suc)
  then show ?thesis by (simp add: good_quartet_def)
qed

text \<open>One turn of the loop.\<close>

lemma dec_loop_step:
  assumes "ascii s" "4 * k + 4 \<le> length s" "length s < 2 ^ 32"
  shows "if good_quartet s k
    then \<exists>h b1 b2 b3. dec_loop cap s (4 * k) h0 d =
      (if length d + 3 \<le> cap then dec_loop cap s (4 * k + 4) h (d @ [b1, b2, b3]) else None)
    else \<exists>h. dec_loop cap s (4 * k) h0 d = Some (h, d)"
proof -
  obtain h1 h2 h3 h4 where h: "b64_inv (s ! (4 * k)) = Some h1" "b64_inv (s ! (4 * k + 1)) = Some h2"
    "b64_inv (s ! (4 * k + 2)) = Some h3" "b64_inv (s ! (4 * k + 3)) = Some h4"
    using b64_inv_defined [OF assms(1), of "4 * k"] b64_inv_defined [OF assms(1), of "4 * k + 1"]
      b64_inv_defined [OF assms(1), of "4 * k + 2"] b64_inv_defined [OF assms(1), of "4 * k + 3"] assms(2)
    by auto
  have "dec_loop cap s (4 * k) h0 d = 
    (if h1 AND 0xC0 \<noteq> 0 then Some (h1, d) else if h2 AND 0xC0 \<noteq> 0 then Some (h2, d)
     else if h3 AND 0xC0 \<noteq> 0 then Some (h3, d) else if h4 AND 0xC0 \<noteq> 0 then Some (h4, d)
     else do {
        let word = push_bit 18 h1 OR push_bit 12 h2 OR push_bit 6 h3 OR h4;
        d \<leftarrow> put_byte cap d (ucast (drop_bit 16 (word AND 0x00FF0000)));
        d \<leftarrow> put_byte cap d (ucast (drop_bit 8 (word AND 0x0000FF00)));
        d \<leftarrow> put_byte cap d (ucast (word AND 0x000000FF));
        dec_loop cap s (4 * k + 4) h4 d })"
    by (rule dec_loop_at [OF assms(2,3) h])
  moreover have "good_quartet s k \<longleftrightarrow> h1 AND 0xC0 = 0 \<and> h2 AND 0xC0 = 0 \<and> h3 AND 0xC0 = 0 \<and> h4 AND 0xC0 = 0"
    by (simp only: good_quartet_4 good_char_def h option.case)
  ultimately show ?thesis
    by (auto simp: put_byte_def Let_def)
qed


text \<open>The loop stays inside the block when the quartets before the first bad one fit.\<close>

lemma dec_loop_safe:
  assumes "ascii s" "length s < 2 ^ 32" "4 \<le> length s" "4 * K \<le> length s" "3 * K \<le> cap"
    "4 * K + 4 \<le> length s \<Longrightarrow> \<not> good_quartet s K" "k \<le> K" "length d = 3 * k"
  shows "\<exists>h d'. dec_loop cap s (4 * k) h0 d = Some (h, d') \<and> length d' \<le> 3 * K"
  using assms(7,8)
proof (induction "K - k" arbitrary: k h0 d)
  case 0
  then have k: "k = K" by simp
  show ?case
  proof (cases "4 * K + 4 \<le> length s")
    case True
    then show ?thesis
      using dec_loop_step [OF assms(1) True assms(2), of cap h0 d] assms(6) 0 k by auto
  next
    case False
    then show ?thesis using 0 k assms(2,3) by (simp add: dec_loop_end)
  qed
next
  case (Suc n)
  then have l: "4 * k + 4 \<le> length s" "length d + 3 \<le> cap" using assms(4,5) by linarith+
  from dec_loop_step [OF assms(1) l(1) assms(2), of cap h0 d] l(2) consider
    (stop) h where "dec_loop cap s (4 * k) h0 d = Some (h, d)"
  | (again) h b1 b2 b3 where
      "dec_loop cap s (4 * k) h0 d = dec_loop cap s (4 * k + 4) h (d @ [b1, b2, b3])"
    by (auto split: if_splits)
  then show ?case
  proof cases
    case stop
    then show ?thesis using Suc(3,4) by simp
  next
    case again
    have "\<exists>h' d'. dec_loop cap s (4 * Suc k) h (d @ [b1, b2, b3]) = Some (h', d') \<and> length d' \<le> 3 * K"
      by (rule Suc(1)) (use Suc(2-4) in simp_all)
    then show ?thesis using again by (simp add: add.commute)
  qed
qed

lemma dec_tail_safe:
  assumes "ascii s" "4 \<le> length s" "r = 1 \<or> r = 2 \<Longrightarrow> length d + nat r \<le> cap"
  shows "dec_tail cap s r d \<noteq> None \<and> (\<forall>d'. dec_tail cap s r d = Some (Some d') \<longrightarrow>
    length d' \<le> (if r = 1 \<or> r = 2 then length d + nat r else length d))"
proof -
  have re: "rd_end s j = Some (s ! (length s - j))" if "0 < j" "j \<le> 4" for j
    using that assms(2) by (simp add: rd_end_def)
  obtain h1 h2 h3 h4 where h: "b64_inv (s ! (length s - 1)) = Some h1" "b64_inv (s ! (length s - 2)) = Some h2"
    "b64_inv (s ! (length s - 3)) = Some h3" "b64_inv (s ! (length s - 4)) = Some h4"
    using b64_inv_defined [OF assms(1), of "length s - 1"] b64_inv_defined [OF assms(1), of "length s - 2"]
      b64_inv_defined [OF assms(1), of "length s - 3"] b64_inv_defined [OF assms(1), of "length s - 4"] assms(2)
    by (force simp del: One_nat_def)
  show ?thesis
    using assms(3) by (auto simp: dec_tail_def re h put_byte_def Let_def simp del: One_nat_def)
qed

subsection \<open>Properties\<close>


lemma b64_nudge_cases:
  assumes "ascii s" "4 \<le> length s"
  obtains "b64_nudge s = Some 0" | "b64_nudge s = Some (- 1)"
  | n where "b64_nudge s = Some n" "n = 1 \<or> n = 2" "\<not> good_char (s ! (length s - 1))"
proof -
  have re: "rd_end s j = Some (s ! (length s - j))" if "0 < j" "j \<le> 4" for j
    using that assms(2) by (simp add: rd_end_def)
  obtain h1 where h1: "b64_inv (s ! (length s - 1)) = Some h1" "good_char (s ! (length s - 1)) \<longleftrightarrow> h1 < 64"
  proof (rule b64_inv_ascii [OF ascii_schar [OF assms(1), of "length s - 1"]])
    show "length s - 1 < length s" using assms(2) by simp
  qed
  obtain h2 h3 where h: "b64_inv (s ! (length s - 2)) = Some h2" "b64_inv (s ! (length s - 3)) = Some h3"
    using b64_inv_defined [OF assms(1), of "length s - 2"] b64_inv_defined [OF assms(1), of "length s - 3"] assms(2)
    by force
  have "b64_nudge s = (if h1 < 64 then Some 0 else if h1 = 64 then if h2 < 64 then Some 1 else if h2 = 64
      then if h3 < 64 then Some 2 else Some (- 1) else Some (- 1) else Some (- 1))"
    by (simp add: b64_nudge_def re h h1 del: One_nat_def)
  then show thesis using that h1(2) by (auto split: if_splits)
qed

lemma base64_decode_fits:
  assumes "ascii s" "length s < 2 ^ 30" "4 \<le> length s" "length s mod 4 = 0" "base64_decoded_len s = Some (int n)"
    "4 * K \<le> length s" "4 * K + 4 \<le> length s \<Longrightarrow> \<not> good_quartet s K" 
    "3 * K + n mod 3 \<le> n"
  shows "base64_decode m s \<noteq> None \<or> \<not> fst (xmpp_alloc m)"
proof -
  obtain h d where d: "dec_loop (Suc n) s 0 0 [] = Some (h, d)" "length d \<le> 3 * K"
    using dec_loop_safe [OF assms(1) _ assms(3,6) _ assms(7), of "Suc n" 0 "[]" 0] assms(2,8) by auto
  have "int n mod 3 = 1 \<or> int n mod 3 = 2 \<Longrightarrow> length d + nat (int n mod 3) \<le> n"
    using d(2) assms(8) by (auto simp: nat_mod_as_int)
  moreover have "length d \<le> n" using d(2) assms(8) by simp
  ultimately obtain t where t: "dec_tail (Suc n) s (int n mod 3) d = Some t" "\<And>d'. t = Some d' \<Longrightarrow> length d' \<le> n"
    using dec_tail_safe [OF assms(1,3), of "int n mod 3" d "Suc n"] by (force split: if_splits)
  then show ?thesis
    by (cases "xmpp_alloc m"; cases t)
       (auto simp: base64_decode_def assms(4,5) d(1) nat_int_add put_byte_def split: bool.splits)
qed

text \<open>The decoder writes outside its block exactly when the string ends in bad padding while its
  first four characters are a valid quartet: the block then has one byte, and three are
  written.  For every other string of a positive multiple of four ASCII characters the decoding
  stays inside its buffers.\<close>

theorem base64_decode_overrun_iff:
  assumes "ascii s" "s \<noteq> []" "length s mod 4 = 0" "length s < 2 ^ 30" "fst (xmpp_alloc m)"
  shows "base64_decode m s = None \<longleftrightarrow> b64_nudge s = Some (- 1) \<and> good_quartet s 0"
proof -
  obtain q where q: "length s = 4 * q" "0 < q" using assms(2,3) that [of "length s div 4"] by (simp add: mod_eq_0_iff_dvd div_greater_zero_iff dvd_imp_le)
  then have l4: "4 \<le> length s" by simp
  note fits = base64_decode_fits [OF assms(1,4) l4 assms(3), where m = m]
  from assms(1) l4 show ?thesis
  proof (cases rule: b64_nudge_cases)
    case 1
    then have "base64_decoded_len s = Some (int (3 * q))" by (simp add: base64_decoded_len_def q)
    then show ?thesis using fits [of "3 * q" q] assms(5) 1 q by simp
  next
    case 2
    then have len: "base64_decoded_len s = Some (int 0)" by (simp add: base64_decoded_len_def)
    show ?thesis
    proof (cases "good_quartet s 0")
      case True
      then show ?thesis
        using dec_loop_step [OF assms(1), of 0 1 0 "[]"] l4 assms(3-5) 2 len
        by (cases "xmpp_alloc m") (auto simp: base64_decode_def)
    next
      case False
      then show ?thesis using fits [of 0 0] assms(5) len 2 by simp
    qed
  next
    case (3 n)
    have nz: "nat n = 1 \<or> nat n = 2" using 3(2) by auto
    have len: "base64_decoded_len s = Some (int (3 * q - nat n))"
      using 3(1,2) q by (auto simp: base64_decoded_len_def)
    have "\<not> good_quartet s (q - 1)"
    proof -
      obtain p where "q = Suc p" using q(2) gr0_implies_Suc by blast
      then have "4 * (q - 1) + 3 = length s - 1" using q by simp
      then show ?thesis using 3(3) by (simp add: good_quartet_4)
    qed
    moreover have "3 * (q - 1) + (3 * q - nat n) mod 3 \<le> 3 * q - nat n"
    proof -
      obtain p where "q = Suc p" using q(2) gr0_implies_Suc by blast
      then show ?thesis using nz by auto
    qed
    ultimately show ?thesis using fits [OF len, of "q - 1"] assms(5) 3(1,2) q by auto
  qed
qed

theorem base64_decode_overrun_iff_witness:
  "base64_decode [] ''QUJDQQ*='' = None \<and> base64_decode [] ''QU*DQQ*='' \<noteq> None"
proof -
  have n: "b64_nudge ''QUJDQQ*='' = Some (- 1)" "b64_nudge ''QU*DQQ*='' = Some (- 1)"
    "good_quartet ''QUJDQQ*='' 0" "\<not> good_quartet ''QU*DQQ*='' 0" unfolding good_quartet_4
    by code_simp+
  show ?thesis
    by (subst (1 2) base64_decode_overrun_iff) (simp_all add: n)
qed



text \<open>Claim C21. Decoding what the encoder returned gives the bytes back.\<close>

theorem base64_round_trip:
  assumes "2 \<le> length b" "length b < 2 ^ 30" "base64_encode m b = Some (Some s, m1)" "xmpp_alloc m1 = (True, m2)"
  shows "base64_decode m1 s = Some (Some b, m2)"
proof -
  have "s = enc_list b"
    using assms by (auto simp: base64_encode_ok split: prod.splits if_splits)
  moreover have "b \<noteq> []" using assms(1) by auto
  ultimately show ?thesis using base64_decode_enc_list [of b m1 m2] assms(2,4) by simp
qed

theorem base64_round_trip_witness:
  "base64_decode [] ''TWFuIGk='' = Some (Some (bytes_of_string ''Man i''), [])"
proof (rule base64_round_trip)
  have "enc_list (bytes_of_string ''Man i'') = ''TWFuIGk=''" by code_simp
  then show "base64_encode [] (bytes_of_string ''Man i'') = Some (Some ''TWFuIGk='', [])"
    by (simp add: base64_encode_ok)
qed simp_all

text \<open>The encoder reads outside its input exactly for inputs of fewer than two bytes, where the
  unsigned loop bound wraps around.\<close>

theorem base64_encode_undefined_iff:
  assumes "length b < 2 ^ 30"
  shows "base64_encode m b = None \<longleftrightarrow> fst (xmpp_alloc m) \<and> length b < 2"
proof (cases "2 \<le> length b")
  case True
  then show ?thesis using assms by (auto simp: base64_encode_ok split: prod.splits)
next
  case False
  then have "0 < u32_sub (length b) 2" by (cases b; cases "tl b") (auto simp: u32_sub_def)
  moreover have "rd b 2 = None" using False by (simp add: rd_def)
  ultimately have "enc_loop b 0 = None" 
    by (subst enc_loop.simps) (cases "rd b 0"; cases "rd b 1"; simp add: numeral_2_eq_2)
  then show ?thesis using False by (auto simp: base64_encode_def split: prod.splits bool.splits)
qed

theorem base64_encode_undefined_iff_witness:
  "base64_encode [] [65] = None \<and> base64_encode [] [65, 66] \<noteq> None"
  using base64_encode_undefined_iff [of "[65]" "[]"] base64_encode_undefined_iff [of "[65, 66]" "[]"] by simp

end
