(* ===== verification/Block_Hash.thy ===== *)
theory Block_Hash
  imports Prelude
begin

section \<open>Streaming block hashes\<close>

text \<open>
  What \<open>src/md5.c\<close> and \<open>src/sha1.c\<close> have in common: a chaining state that swallows blocks of 64
  bytes, a buffer for the bytes of an unfinished block and a 64-bit counter of the message bits in
  two 32-bit words.  The locale \<open>block_hash\<close> states the contract of an update operation; inside it
  the order-respecting independence of how a message is cut into pieces is proved once, and both
  hash implementations interpret it.
\<close>

subsection \<open>Little-endian words\<close>

definition GET_32BIT_LSB_FIRST :: "u8 \<Rightarrow> u8 \<Rightarrow> u8 \<Rightarrow> u8 \<Rightarrow> u32" where
  "GET_32BIT_LSB_FIRST b0 b1 b2 b3 =
     ucast b0 OR push_bit 8 (ucast b1) OR push_bit 16 (ucast b2) OR push_bit 24 (ucast b3)"

definition PUT_32BIT_LSB_FIRST :: "u32 \<Rightarrow> u8 list" where
  "PUT_32BIT_LSB_FIRST v =
     [ucast (v AND 0xFF), ucast (drop_bit 8 v AND 0xFF), ucast (drop_bit 16 v AND 0xFF),
      ucast (drop_bit 24 v AND 0xFF)]"

lemma length_PUT_32BIT [simp]: "length (PUT_32BIT_LSB_FIRST v) = 4"
  by (simp add: PUT_32BIT_LSB_FIRST_def)

text \<open>The 16 words of a block.\<close>

definition words_of_block :: "u8 list \<Rightarrow> u32 list" where
  "words_of_block block = map (\<lambda>i. GET_32BIT_LSB_FIRST (block ! (4 * i)) (block ! (4 * i + 1))
     (block ! (4 * i + 2)) (block ! (4 * i + 3))) [0..<16]"

subsection \<open>Absorbing blocks\<close>

text \<open>\<open>memcpy\<close> into a buffer of fixed size.\<close>

definition overwrite :: "'a list \<Rightarrow> nat \<Rightarrow> 'a list \<Rightarrow> 'a list" where
  "overwrite xs i ys = take i xs @ ys @ drop (i + length ys) xs"

lemma length_overwrite [simp]: "i + length ys \<le> length xs \<Longrightarrow> length (overwrite xs i ys) = length xs"
  by (simp add: overwrite_def)

lemma take_overwrite: "i \<le> length xs \<Longrightarrow> take (i + length ys) (overwrite xs i ys) = take i xs @ ys"
  by (simp add: overwrite_def)

lemma blit_overwrite: "i + length ys \<le> length xs \<Longrightarrow> blit xs i ys = Some (overwrite xs i ys)"
  by (simp add: blit_in overwrite_def)

function absorb :: "('s \<Rightarrow> u8 list \<Rightarrow> 's) \<Rightarrow> 's \<Rightarrow> u8 list \<Rightarrow> 's \<times> u8 list" where
  "absorb f s bs = (if length bs < 64 then (s, bs) else absorb f (f s (take 64 bs)) (drop 64 bs))"
  by pat_completeness auto
termination by (relation "measure (\<lambda>(f, s, bs). length bs)") auto

declare absorb.simps [simp del]

lemma absorb_short [simp]: "length bs < 64 \<Longrightarrow> absorb f s bs = (s, bs)"
  by (simp add: absorb.simps)

lemma absorb_block: "length b = 64 \<Longrightarrow> absorb f s (b @ bs) = absorb f (f s b) bs"
  by (subst absorb.simps) simp

lemma absorb_step: "64 \<le> length bs \<Longrightarrow> absorb f s bs = absorb f (f s (take 64 bs)) (drop 64 bs)"
  by (subst absorb.simps) simp

lemma absorb_append:
  "absorb f s (xs @ ys) = absorb f (fst (absorb f s xs)) (snd (absorb f s xs) @ ys)"
proof (induction f s xs rule: absorb.induct)
  case (1 f s xs)
  show ?case
  proof (cases "length xs < 64")
    case False
    then have "absorb f s (xs @ ys) = absorb f (f s (take 64 xs)) (drop 64 xs @ ys)"
      by (subst absorb.simps) simp
    then show ?thesis using False 1 by (simp add: absorb_step)
  qed simp
qed

lemma length_snd_absorb: "length (snd (absorb f s bs)) = length bs mod 64"
proof (induction f s bs rule: absorb.induct)
  case (1 f s bs)
  then show ?case by (cases "length bs < 64") (simp_all add: absorb_step le_mod_geq)
qed

subsection \<open>The contract\<close>

locale block_hash =
  fixes ok :: "'c \<Rightarrow> bool"
    and init :: 'c
    and update :: "'c \<Rightarrow> u8 list \<Rightarrow> 'c"
    and chain :: "'c \<Rightarrow> 's"
    and pending :: "'c \<Rightarrow> u8 list"
    and bitcount :: "'c \<Rightarrow> u64"
    and compress :: "'s \<Rightarrow> u8 list \<Rightarrow> 's"
    and limit :: nat
  assumes ok_init: "ok init"
    and ok_update: "ok c \<Longrightarrow> length bs < limit \<Longrightarrow> ok (update c bs)"
    and pending_init: "pending init = []"
    and bitcount_init: "bitcount init = 0"
    and pending_short: "ok c \<Longrightarrow> length (pending c) < 64"
    and update_absorb: "ok c \<Longrightarrow> length bs < limit \<Longrightarrow>
      (chain (update c bs), pending (update c bs)) = absorb compress (chain c) (pending c @ bs)"
    and update_bitcount: "ok c \<Longrightarrow> length bs < limit \<Longrightarrow>
      bitcount (update c bs) = bitcount c + of_nat (8 * length bs)"
begin

definition update_all :: "'c \<Rightarrow> u8 list list \<Rightarrow> 'c" where
  "update_all = foldl update"

lemma update_all_simps [simp]:
  "update_all c [] = c" "update_all c (b # bs) = update_all (update c b) bs"
  by (simp_all add: update_all_def)

lemma update_all_ok: "ok c \<Longrightarrow> \<forall>b \<in> set bs. length b < limit \<Longrightarrow> ok (update_all c bs)"
  by (induction bs arbitrary: c) (simp_all add: ok_update)

lemma absorb_pending: "ok c \<Longrightarrow> absorb f s (pending c) = (s, pending c)"
  by (simp add: pending_short)

lemma update_all_absorb:
  "ok c \<Longrightarrow> \<forall>b \<in> set bs. length b < limit \<Longrightarrow>
    (chain (update_all c bs), pending (update_all c bs)) = absorb compress (chain c) (pending c @ concat bs)"
proof (induction bs arbitrary: c)
  case Nil
  then show ?case by (simp add: absorb_pending)
next
  case (Cons b bs)
  then have "absorb compress (chain c) (pending c @ concat (b # bs)) =
      absorb compress (chain (update c b)) (pending (update c b) @ concat bs)"
    using update_absorb [of c b] absorb_append [of compress "chain c" "pending c @ b" "concat bs"]
    by (metis append_assoc concat.simps(2) fst_conv snd_conv list.set_intros(1))
  then show ?case using Cons by (simp add: ok_update)
qed

lemma update_all_bitcount:
  "ok c \<Longrightarrow> \<forall>b \<in> set bs. length b < limit \<Longrightarrow>
    bitcount (update_all c bs) = bitcount c + of_nat (8 * length (concat bs))"
  by (induction bs arbitrary: c) (simp_all add: ok_update update_bitcount algebra_simps)

text \<open>The state after hashing pieces of a message depends on the message only.\<close>

lemma pieces:
  assumes "\<forall>b \<in> set bs. length b < limit"
  shows "(chain (update_all init bs), pending (update_all init bs)) = absorb compress (chain init) (concat bs)"
    and "bitcount (update_all init bs) = of_nat (8 * length (concat bs))"
  using update_all_absorb [OF ok_init assms] update_all_bitcount [OF ok_init assms]
  by (simp_all add: pending_init bitcount_init)

end

subsection \<open>The bit counter in two words\<close>

definition join64 :: "u32 \<Rightarrow> u32 \<Rightarrow> u64" where
  "join64 hi lo = of_nat (unat hi * 2 ^ 32 + unat lo)"

lemma low_word_carry:
  fixes lo :: u32
  assumes "lo' = lo + of_nat k" "k < 2 ^ 32"
  shows "unat lo' + (if lo' < lo then 2 ^ 32 else 0) = unat lo + k"
proof -
  have b: "unat lo < 2 ^ 32" using unsigned_less [of lo, where 'a = nat] by simp
  have "unat lo' = (unat lo + k) mod 2 ^ 32"
    using assms by (simp add: unat_word_ariths unat_of_nat take_bit_nat_eq_self)
  moreover have "lo' < lo \<longleftrightarrow> unat lo' < unat lo" by (simp add: word_less_nat_alt)
  moreover have "(unat lo + k) mod 2 ^ 32 = (if unat lo + k < 2 ^ 32 then unat lo + k else unat lo + k - 2 ^ 32)"
    using b assms(2) by (simp add: le_mod_geq)
  ultimately show ?thesis using b assms(2) by auto
qed

lemma two32: "(of_nat (2 ^ 32) :: u32) = 0"
  by (simp add: word_of_nat_eq_0_iff)

lemma two64: "(of_nat (2 ^ 64) :: u64) = 0"
  by (simp add: word_of_nat_eq_0_iff)

lemma counter_add:
  fixes hi lo :: u32
  assumes "n < 2 ^ 32" "lo' = lo + of_nat (8 * n)"
    "hi' = (if lo' < lo then hi + 1 else hi) + of_nat (n div 2 ^ 29)"
  shows "join64 hi' lo' = join64 hi lo + of_nat (8 * n)"
proof -
  define k where "k = (8 * n) mod 2 ^ 32"
  define c where "c = (if lo' < lo then 1 else 0 :: nat)"
  have n: "8 * n = k + 2 ^ 32 * (n div 2 ^ 29)" 
  proof -
    have "8 * n div (8 * 2 ^ 29) = n div 2 ^ 29" by (rule div_mult_mult1) simp
    then show ?thesis unfolding k_def using mod_mult_div_eq [of "8 * n" "2 ^ 32"] by simp
  qed
  have "(of_nat (8 * n) :: u32) = of_nat k"
    by (subst n) (simp only: of_nat_add of_nat_mult two32 mult_zero_left add_0_right)
  then have "lo' = lo + of_nat k" by (simp only: assms(2))
  from low_word_carry [OF this] have lo: "unat lo' + c * 2 ^ 32 = unat lo + k"
    unfolding c_def k_def by (simp split: if_splits)
  have "hi' = of_nat (unat hi + c + n div 2 ^ 29)"
    using assms(3) by (simp add: c_def)
  then have "unat hi' = (unat hi + c + n div 2 ^ 29) mod 2 ^ 32"
    by (simp only: unsigned_of_nat take_bit_eq_mod of_nat_id len_of_numeral_defs) simp
  then obtain q where hi: "unat hi + c + n div 2 ^ 29 = unat hi' + 2 ^ 32 * q"
    by (metis mod_mult_div_eq)
  have "unat hi * 2 ^ 32 + unat lo + 8 * n = unat hi' * 2 ^ 32 + unat lo' + 2 ^ 64 * q"
    using lo hi n by simp
  then have "(of_nat (unat hi * 2 ^ 32 + unat lo + 8 * n) :: u64) =
      of_nat (unat hi' * 2 ^ 32 + unat lo' + 2 ^ 64 * q)" by simp
  also have "\<dots> = join64 hi' lo'"
    unfolding of_nat_add [of _ "2 ^ 64 * q"] of_nat_mult [of "2 ^ 64"] two64 by (simp only: join64_def mult_zero_left add_0_right)
  finally show ?thesis by (simp only: join64_def of_nat_add)
qed

lemma unat_less32: "unat (w :: u32) < 2 ^ 32"
  using unsigned_less [of w, where 'a = nat] by simp

lemma unat_join64: "unat (join64 hi lo) = unat hi * 2 ^ 32 + unat lo"
proof -
  have "unat hi * 2 ^ 32 + unat lo < 2 ^ LENGTH(64)"
    using unat_less32 [of hi] unat_less32 [of lo] by simp
  then show ?thesis
    unfolding join64_def unsigned_of_nat of_nat_id by (rule take_bit_nat_eq_self)
qed

lemma join64_words:
  assumes "join64 hi lo = of_nat m"
  shows "lo = of_nat m" "hi = of_nat (m div 2 ^ 32)"
proof -
  have "unat (of_nat m :: u64) = m mod 2 ^ 64" by (simp add: unsigned_of_nat take_bit_eq_mod)
  then have m: "unat hi * 2 ^ 32 + unat lo = m mod 2 ^ 64" using assms unat_join64 by metis
  have "(unat hi * 2 ^ 32 + unat lo) mod 2 ^ 32 = unat lo" "(unat hi * 2 ^ 32 + unat lo) div 2 ^ 32 = unat hi"
    using unat_less32 [of lo] by simp_all
  note parts = this [unfolded m]
  have "unat lo = m mod 2 ^ 64 mod 2 ^ 32" by (rule parts(1) [symmetric])
  also have "\<dots> = m mod 2 ^ 32"
    by (rule mod_mod_cancel) (simp add: dvd_def)
  finally show "lo = of_nat m" by (simp add: word_unat_eq_iff unsigned_of_nat take_bit_eq_mod)
  have "unat hi = m mod 2 ^ 64 div 2 ^ 32" by (rule parts(2) [symmetric])
  also have "\<dots> = m div 2 ^ 32 mod 2 ^ 32"
    using drop_bit_take_bit [of 32 64 m] by (simp add: take_bit_eq_mod drop_bit_eq_div)
  finally show "hi = of_nat (m div 2 ^ 32)" by (simp add: word_unat_eq_iff unsigned_of_nat take_bit_eq_mod)
qed

text \<open>The bytes of the unfinished block, from the low counter word.\<close>

definition block_fill :: "u32 \<Rightarrow> nat" where
  "block_fill lo = unat (drop_bit 3 lo AND 0x3F)"

lemma block_fill: "block_fill lo = unat lo div 8 mod 64"
proof -
  have m: "(0x3F :: u32) = mask 6" by (simp add: mask_eq_exp_minus_1)
  show ?thesis unfolding block_fill_def m
    by (simp only: take_bit_eq_mask [symmetric] unsigned_take_bit_eq unsigned_drop_bit_eq)
      (use unat_less32 [of lo] in \<open>simp add: take_bit_eq_mod drop_bit_eq_div\<close>)
qed

lemma block_fill_add: "block_fill (lo + of_nat (8 * n)) = (block_fill lo + n) mod 64"
proof -
  have "unat (lo + of_nat (8 * n)) = (unat lo + 8 * n) mod 2 ^ 32"
    by (simp add: unat_word_ariths unsigned_of_nat take_bit_eq_mod mod_simps)
  moreover have "x mod 2 ^ 32 div 8 mod 64 = x div 8 mod (64::nat)" for x
    using drop_bit_take_bit [of 3 32 x] take_bit_take_bit [of 6 29 "x div 8"]
    by (simp add: take_bit_eq_mod drop_bit_eq_div)
  ultimately show ?thesis by (simp add: block_fill mod_simps add.commute)
qed

lemma block_fill_less: "block_fill lo < 64"
  by (simp add: block_fill)

end
