(* ===== verification/Sha1.thy ===== *)
theory Sha1
  imports Block_Hash
begin

section \<open>SHA-1 (sha1.c)\<close>

text \<open>
  Models \<open>src/sha1.c\<close>, compiled as in the repository for a little-endian machine with
  \<open>size_t\<close> of 64 bits and without \<open>SHA1HANDSOFF\<close>: \<open>SHA1_Transform\<close> then expands the message
  schedule inside the block it is given, so it also returns what the block has become.  The
  schedule is kept in 16 words that are overwritten in a circle; \<open>sha1_compress\<close> is the compression
  function as FIPS 180 states it, over a schedule of 80 words.
\<close>

subsection \<open>The compression function\<close>

type_synonym sha1_words = "u32 \<times> u32 \<times> u32 \<times> u32 \<times> u32"

definition rol :: "u32 \<Rightarrow> nat \<Rightarrow> u32" where
  "rol v n = push_bit n v OR drop_bit (32 - n) v"

definition blk0 :: "u32 list \<Rightarrow> nat \<Rightarrow> u32" where
  "blk0 l i = (rol (l ! i) 24 AND 0xFF00FF00) OR (rol (l ! i) 8 AND 0x00FF00FF)"

definition blk :: "u32 list \<Rightarrow> nat \<Rightarrow> u32" where
  "blk l i = rol (l ! ((i + 13) mod 16) XOR l ! ((i + 8) mod 16) XOR l ! ((i + 2) mod 16) XOR l ! (i mod 16)) 1"

text \<open>The round functions and constants of \<open>R0\<close> to \<open>R4\<close>, by the number of the step.\<close>

definition sha1_R :: "nat \<Rightarrow> u32 \<Rightarrow> u32 \<Rightarrow> u32 \<Rightarrow> u32" where
  "sha1_R i w x y =
     (if i < 20 then (w AND (x XOR y)) XOR y
      else if i < 40 then w XOR x XOR y
      else if i < 60 then ((w OR x) AND y) OR (w AND x)
      else w XOR x XOR y)"

definition sha1_K :: "nat \<Rightarrow> u32" where
  "sha1_K i = (if i < 20 then 0x5A827999 else if i < 40 then 0x6ED9EBA1
     else if i < 60 then 0x8F1BBCDC else 0xCA62C1D6)"

text \<open>One step: the block's word is computed and stored back, and the roles of the five working
  variables move on by one.\<close>

fun sha1_step :: "u32 list \<times> sha1_words \<Rightarrow> nat \<Rightarrow> u32 list \<times> sha1_words" where
  "sha1_step (l, (v, w, x, y, z)) i =
     (let b = (if i < 16 then blk0 l i else blk l i);
          l = l[i mod 16 := b]
      in (l, (z + (sha1_R i w x y + b + sha1_K i + rol v 5), v, rol w 30, x, y)))"

fun add_words :: "sha1_words \<Rightarrow> sha1_words \<Rightarrow> sha1_words" where
  "add_words (a, b, c, d, e) (a', b', c', d', e') = (a + a', b + b', c + c', d + d', e + e')"

definition SHA1_Transform :: "sha1_words \<Rightarrow> u8 list \<Rightarrow> sha1_words \<times> u8 list" where
  "SHA1_Transform state buffer =
     (let (l, s) = foldl sha1_step (words_of_block buffer, state) [0..<80]
      in (add_words state s, concat (map PUT_32BIT_LSB_FIRST l)))"

subsection \<open>The context\<close>

record SHA1_CTX =
  sha1_state :: sha1_words
  sha1_count0 :: u32
  sha1_count1 :: u32
  sha1_buffer :: "u8 list"

text \<open>\<open>SHA1_Init\<close> leaves the buffer as it is.\<close>

definition SHA1_Init :: "u8 list \<Rightarrow> SHA1_CTX" where
  "SHA1_Init buffer = \<lparr> sha1_state = (0x67452301, 0xEFCDAB89, 0x98BADCFE, 0x10325476, 0xC3D2E1F0),
     sha1_count0 = 0, sha1_count1 = 0, sha1_buffer = buffer \<rparr>"

text \<open>The loop over whole blocks of the caller's data: the new state, the overwritten blocks and the
  rest of the data.\<close>

function sha1_blocks :: "sha1_words \<Rightarrow> u8 list \<Rightarrow> sha1_words \<times> u8 list \<times> u8 list" where
  "sha1_blocks state data =
     (if 64 \<le> length data
      then let (state, blk) = SHA1_Transform state (take 64 data);
               (state, clobbered, rest) = sha1_blocks state (drop 64 data)
           in (state, blk @ clobbered, rest)
      else (state, [], data))"
  by pat_completeness auto
termination by (relation "measure (\<lambda>(s, bs). length bs)") auto

declare sha1_blocks.simps [simp del]

definition SHA1_Update :: "SHA1_CTX \<Rightarrow> u8 list \<Rightarrow> SHA1_CTX \<times> u8 list" where
  "SHA1_Update ctx data =
     (let len = length data;
          j = unat (drop_bit 3 (sha1_count0 ctx) AND 63);
          bits = push_bit 3 (of_nat len :: u64);
          ctx = ctx\<lparr>sha1_count0 := ucast (ucast (sha1_count0 ctx) + bits)\<rparr>;
          ctx = (if ucast (sha1_count0 ctx) < bits then ctx\<lparr>sha1_count1 := sha1_count1 ctx + 1\<rparr> else ctx);
          ctx = ctx\<lparr>sha1_count1 := sha1_count1 ctx + ucast (drop_bit 29 (of_nat len :: u64))\<rparr>
      in if j + len > 63
         then let buffer = overwrite (sha1_buffer ctx) j (take (64 - j) data);
                  (state, buffer) = SHA1_Transform (sha1_state ctx) buffer;
                  (state, clobbered, rest) = sha1_blocks state (drop (64 - j) data)
              in (ctx\<lparr>sha1_state := state, sha1_buffer := overwrite buffer 0 rest\<rparr>,
                  take (64 - j) data @ clobbered @ rest)
         else (ctx\<lparr>sha1_buffer := overwrite (sha1_buffer ctx) j data\<rparr>, data))"

text \<open>\<open>SHA1_Final\<close>: the counter as eight bytes, most significant first, the padding bytes one at a
  time, the digest, and the wiped context.\<close>

definition be_byte :: "u32 \<Rightarrow> nat \<Rightarrow> u8" where
  "be_byte v i = ucast (drop_bit ((3 - i) * 8) v AND 255)"

definition be_word :: "u32 \<Rightarrow> u8 list" where
  "be_word v = map (be_byte v) [0..<4]"

definition sha1_digest_bytes :: "sha1_words \<Rightarrow> u8 list" where
  "sha1_digest_bytes s = (case s of (a, b, c, d, e) \<Rightarrow> concat (map be_word [a, b, c, d, e]))"

lemma length_words_of_block [simp]: "length (words_of_block b) = 16"
  by (simp add: words_of_block_def)

lemma length_SHA1_Transform [simp]: "length (snd (SHA1_Transform s b)) = 64"
proof -
  have "length (fst (foldl sha1_step (l, s) is)) = length l" for l s "is"
    by (induction "is" arbitrary: l s) (auto simp: Let_def split: prod.splits)
  from this [of "words_of_block b" s "[0..<80]"]
  have len: "length (fst (foldl sha1_step (words_of_block b, s) [0..<80])) = 16" by simp
  obtain l s' where f: "foldl sha1_step (words_of_block b, s) [0..<80] = (l, s')"
    by (rule prod.exhaust)
  have "length l = 16" using len by (simp only: f fst_conv)
  then show ?thesis
    unfolding SHA1_Transform_def f by (simp add: length_concat comp_def sum_list_triv)
qed

subsection \<open>The counter\<close>

lemma SHA1_Update_bits:
  fixes lo :: u32
  assumes "n < 2 ^ 29"
  defines "lo' \<equiv> ucast (ucast lo + push_bit 3 (of_nat n :: u64)) :: u32"
  shows "lo' = lo + of_nat (8 * n)"
    "ucast lo' < push_bit 3 (of_nat n :: u64) \<longleftrightarrow> lo' < lo"
    "ucast (drop_bit 29 (of_nat n :: u64)) = (of_nat (n div 2 ^ 29) :: u32)"
proof -
  have lt: "unat lo < 2 ^ 32" by (rule unat_less32)
  have n64: "unat (of_nat n :: u64) = n"
    using assms(1) by (simp add: unsigned_of_nat take_bit_nat_eq_self)
  have b: "push_bit 3 (of_nat n :: u64) = of_nat (8 * n)" by (simp add: push_bit_eq_mult)
  have ub: "unat (of_nat (8 * n) :: u64) = 8 * n"
    using assms(1) unfolding unsigned_of_nat of_nat_id by (intro take_bit_nat_eq_self) simp
  have "unat (ucast lo + of_nat (8 * n) :: u64) = unat lo + 8 * n"
    using lt assms(1) by (simp only: unat_word_ariths ub) (simp add: unsigned_ucast_eq take_bit_nat_eq_self)
  then have u: "unat lo' = (unat lo + 8 * n) mod 2 ^ 32"
    unfolding lo'_def b unsigned_ucast_eq by (simp add: take_bit_eq_mod)
  show lo': "lo' = lo + of_nat (8 * n)"
    unfolding word_unat_eq_iff u unat_word_ariths unsigned_of_nat by (simp add: take_bit_eq_mod mod_simps)
  have "unat lo' + (if lo' < lo then 2 ^ 32 else 0) = unat lo + 8 * n"
    using low_word_carry [OF lo'] assms(1) by simp
  moreover have "ucast lo' < push_bit 3 (of_nat n :: u64) \<longleftrightarrow> unat lo' < 8 * n"
    unfolding b word_less_nat_alt ub
    using unat_less32 [of lo'] by (simp add: unsigned_ucast_eq take_bit_nat_eq_self)
  ultimately show "ucast lo' < push_bit 3 (of_nat n :: u64) \<longleftrightarrow> lo' < lo"
    using lt by (auto split: if_splits)
  have "unat (drop_bit 29 (of_nat n :: u64)) = 0"
    using assms(1) by (simp only: unsigned_drop_bit_eq n64) (simp add: drop_bit_eq_div take_bit_eq_mod)
  then have "drop_bit 29 (of_nat n :: u64) = 0" by (simp only: word_unat_eq_iff unsigned_0)
  then show "ucast (drop_bit 29 (of_nat n :: u64)) = (of_nat (n div 2 ^ 29) :: u32)"
    using assms(1) by (simp only: div_less unsigned_0) simp
qed


subsection \<open>The update absorbs blocks\<close>

abbreviation sha1_pending :: "SHA1_CTX \<Rightarrow> u8 list" where
  "sha1_pending ctx \<equiv> take (block_fill (sha1_count0 ctx)) (sha1_buffer ctx)"

definition sha1_ok :: "SHA1_CTX \<Rightarrow> bool" where
  "sha1_ok ctx \<longleftrightarrow> length (sha1_buffer ctx) = 64"

abbreviation sha1_bitcount :: "SHA1_CTX \<Rightarrow> u64" where
  "sha1_bitcount ctx \<equiv> join64 (sha1_count1 ctx) (sha1_count0 ctx)"

abbreviation sha1_chain :: "sha1_words \<Rightarrow> u8 list \<Rightarrow> sha1_words" where
  "sha1_chain s b \<equiv> fst (SHA1_Transform s b)"

abbreviation sha1_update :: "SHA1_CTX \<Rightarrow> u8 list \<Rightarrow> SHA1_CTX" where
  "sha1_update ctx data \<equiv> fst (SHA1_Update ctx data)"

lemma sha1_blocks_absorb:
  "(case sha1_blocks s bs of (s', clobbered, rest) \<Rightarrow>
     absorb sha1_chain s bs = (s', rest) \<and> length clobbered + length rest = length bs)"
proof (induction s bs rule: sha1_blocks.induct)
  case (1 s bs)
  show ?case
  proof (cases "64 \<le> length bs")
    case True
    obtain s' b where t: "SHA1_Transform s (take 64 bs) = (s', b)" by (rule prod.exhaust)
    then have lb: "length b = 64" by (metis length_SHA1_Transform snd_conv)
    obtain s'' cl rest where r: "sha1_blocks s' (drop 64 bs) = (s'', cl, rest)" by (metis prod.exhaust)
    have "sha1_blocks s bs = (s'', b @ cl, rest)"
      using True by (subst sha1_blocks.simps) (simp add: t r)
    then show ?thesis
      using 1 [OF True t [symmetric] refl] True t lb by (auto simp: absorb_step r)
  next
    case False
    then show ?thesis by (subst sha1_blocks.simps) simp
  qed
qed

lemma SHA1_Update_spec:
  assumes "sha1_ok ctx" "length bs < 2 ^ 29"
  shows "sha1_ok (sha1_update ctx bs) \<and>
    (sha1_state (sha1_update ctx bs), sha1_pending (sha1_update ctx bs)) =
      absorb sha1_chain (sha1_state ctx) (sha1_pending ctx @ bs) \<and>
    sha1_bitcount (sha1_update ctx bs) = sha1_bitcount ctx + of_nat (8 * length bs) \<and>
    sha1_count0 (sha1_update ctx bs) = sha1_count0 ctx + of_nat (8 * length bs) \<and>
    length (snd (SHA1_Update ctx bs)) = length bs"
proof -
  define lo where "lo = sha1_count0 ctx + of_nat (8 * length bs)"
  define hi where "hi = (if lo < sha1_count0 ctx then sha1_count1 ctx + 1 else sha1_count1 ctx) + of_nat (length bs div 2 ^ 29)"
  define c1 where "c1 = ctx\<lparr>sha1_count0 := lo, sha1_count1 := hi\<rparr>"
  define j where "j = block_fill (sha1_count0 ctx)"
  have j64: "j < 64" by (simp add: j_def block_fill_less)
  have mask: "(63 :: u32) = 0x3F" by simp
  have upd: "SHA1_Update ctx bs =
     (if j + length bs > 63
         then let (state, buffer) = SHA1_Transform (sha1_state ctx) (overwrite (sha1_buffer ctx) j (take (64 - j) bs));
                  (state, clobbered, rest) = sha1_blocks state (drop (64 - j) bs)
              in (c1\<lparr>sha1_state := state, sha1_buffer := overwrite buffer 0 rest\<rparr>,
                  take (64 - j) bs @ clobbered @ rest)
         else (c1\<lparr>sha1_buffer := overwrite (sha1_buffer ctx) j bs\<rparr>, bs))"
    unfolding SHA1_Update_def SHA1_Update_bits(1) [OF assms(2)] Let_def
    using SHA1_Update_bits(2) [OF assms(2), of "sha1_count0 ctx"] SHA1_Update_bits(3) [OF assms(2)]
    unfolding SHA1_Update_bits(1) [OF assms(2)]
    by (simp add: lo_def hi_def c1_def j_def block_fill_def)
  have c1: "sha1_buffer c1 = sha1_buffer ctx" "sha1_state c1 = sha1_state ctx" "sha1_count0 c1 = lo" "sha1_count1 c1 = hi"
    by (simp_all add: c1_def)
  have in64: "length (sha1_buffer ctx) = 64" using assms(1) by (simp add: sha1_ok_def)
  have bits: "sha1_count0 (sha1_update ctx bs) = lo \<and> sha1_count1 (sha1_update ctx bs) = hi"
    by (simp add: upd c1 split: prod.splits)
  have cnt: "join64 hi lo = sha1_bitcount ctx + of_nat (8 * length bs)"
    by (rule counter_add) (use assms(2) in \<open>simp_all add: lo_def hi_def\<close>)
  have fill: "block_fill lo = (j + length bs) mod 64"
    unfolding lo_def j_def by (rule block_fill_add)
  have main: "sha1_ok (sha1_update ctx bs) \<and>
      (sha1_state (sha1_update ctx bs), take (block_fill lo) (sha1_buffer (sha1_update ctx bs))) =
      absorb sha1_chain (sha1_state ctx) (take j (sha1_buffer ctx) @ bs) \<and>
      length (snd (SHA1_Update ctx bs)) = length bs"
  proof (cases "j + length bs > 63")
    case False
    then show ?thesis using in64 by (simp add: upd c1 fill sha1_ok_def take_overwrite)
  next
    case True
    let ?b = "overwrite (sha1_buffer ctx) j (take (64 - j) bs)"
    have b: "?b = take j (sha1_buffer ctx) @ take (64 - j) bs" "length ?b = 64"
      using True j64 in64 by (simp_all add: overwrite_def)
    obtain s' b' where t: "SHA1_Transform (sha1_state ctx) ?b = (s', b')" by (rule prod.exhaust)
    then have lb': "length b' = 64" by (metis length_SHA1_Transform snd_conv)
    obtain s'' cl rest where bl: "sha1_blocks s' (drop (64 - j) bs) = (s'', cl, rest)" by (metis prod.exhaust)
    have ab: "absorb sha1_chain s' (drop (64 - j) bs) = (s'', rest)" "length cl + length rest = length bs - (64 - j)"
      using sha1_blocks_absorb [of s' "drop (64 - j) bs"] by (simp_all add: bl)
    have lr: "length rest = (j + length bs) mod 64" "length rest < 64"
      using length_snd_absorb [of sha1_chain s' "drop (64 - j) bs"] ab(1) True j64
      by (simp_all add: le_mod_geq add.commute)
    have "absorb sha1_chain (sha1_state ctx) (take j (sha1_buffer ctx) @ bs) =
        absorb sha1_chain (sha1_state ctx) (?b @ drop (64 - j) bs)"
      by (simp add: b(1))
    also have "\<dots> = absorb sha1_chain s' (drop (64 - j) bs)"
      using absorb_block [OF b(2), of sha1_chain "sha1_state ctx"] by (simp add: t)
    finally have a: "absorb sha1_chain (sha1_state ctx) (take j (sha1_buffer ctx) @ bs) = (s'', rest)"
      using ab(1) by simp
    have res: "SHA1_Update ctx bs =
        (c1\<lparr>sha1_state := s'', sha1_buffer := overwrite b' 0 rest\<rparr>, take (64 - j) bs @ cl @ rest)"
      using True by (simp add: upd t bl)
    show ?thesis
      using True lb' lr(2) ab(2) unfolding res fill lr(1) [symmetric]
      by (simp add: a sha1_ok_def overwrite_def)
  qed
  then show ?thesis using bits cnt lo_def by (simp add: j_def)
qed

interpretation sha1: block_hash sha1_ok "SHA1_Init (replicate 64 0)" sha1_update sha1_state sha1_pending
    sha1_bitcount sha1_chain "2 ^ 29"
proof
  fix c :: SHA1_CTX and bs
  show "sha1_ok (SHA1_Init (replicate 64 0))" by (simp add: sha1_ok_def SHA1_Init_def)
  show "sha1_pending (SHA1_Init (replicate 64 0)) = []" by (simp add: SHA1_Init_def block_fill)
  show "sha1_bitcount (SHA1_Init (replicate 64 0)) = 0" by (simp add: SHA1_Init_def join64_def)
  show "length (sha1_pending c) < 64" if "sha1_ok c"
    using that by (simp add: sha1_ok_def block_fill_less)
  show "sha1_ok (sha1_update c bs)"
    "(sha1_state (sha1_update c bs), sha1_pending (sha1_update c bs)) = absorb sha1_chain (sha1_state c) (sha1_pending c @ bs)"
    "sha1_bitcount (sha1_update c bs) = sha1_bitcount c + of_nat (8 * length bs)" if "sha1_ok c" "length bs < 2 ^ 29"
    using SHA1_Update_spec [OF that] by blast+
qed

subsection \<open>The final padding\<close>

lemma sha1_fill_56: "(lo :: u32) AND 504 = 448 \<longleftrightarrow> block_fill lo = 56"
proof -
  have m: "(504 :: u32) = push_bit 3 (mask 6)" "(0x3F :: u32) = mask 6"
    by (simp_all add: mask_eq_exp_minus_1 push_bit_eq_mult)
  have "lo AND push_bit 3 (mask 6) = push_bit 3 (drop_bit 3 lo AND mask 6)"
    by (rule bit_word_eqI) (auto simp: bit_simps)
  moreover have "push_bit 3 w = 448 \<longleftrightarrow> unat w = 56" if "w = drop_bit 3 lo AND mask 6" for w :: u32
  proof -
    have "unat w < 64"
      unfolding that take_bit_eq_mask [symmetric] unsigned_take_bit_eq
      using take_bit_nat_less_exp [of 6] by simp
    then have "unat (push_bit 3 w) = 8 * unat w"
      by (simp only: unsigned_push_bit_eq take_bit_eq_mod) (simp add: push_bit_eq_mult)
    then show ?thesis by (simp add: word_unat_eq_iff)
  qed
  ultimately show ?thesis by (simp add: block_fill_def m)
qed

lemma SHA1_Update_short:
  assumes "sha1_ok ctx" "length bs < 2 ^ 29"
  shows "block_fill (sha1_count0 (sha1_update ctx bs)) = (block_fill (sha1_count0 ctx) + length bs) mod 64"
  using SHA1_Update_spec [OF assms] by (simp only: block_fill_add)

lemma SHA1_Update_count0: "sha1_count0 (sha1_update ctx [b]) = sha1_count0 ctx + 8"
proof -
  have "sha1_count0 (sha1_update ctx [b]) = ucast (ucast (sha1_count0 ctx) + push_bit 3 (of_nat 1 :: u64))"
    by (simp add: SHA1_Update_def Let_def split: prod.splits)
  then show ?thesis using SHA1_Update_bits(1) [of 1 "sha1_count0 ctx"] by simp
qed

text \<open>The loop feeds zero bytes until the counter is 448 modulo 512.\<close>

function sha1_pad_loop :: "SHA1_CTX \<Rightarrow> SHA1_CTX" where
  "sha1_pad_loop ctx =
     (if sha1_count0 ctx AND 504 \<noteq> 448 then sha1_pad_loop (fst (SHA1_Update ctx [0])) else ctx)"
  by pat_completeness auto
termination
proof (relation "measure (\<lambda>ctx. (120 - block_fill (sha1_count0 ctx)) mod 64)")
  fix ctx :: SHA1_CTX
  assume "sha1_count0 ctx AND 504 \<noteq> 448"
  then have "block_fill (sha1_count0 ctx) \<noteq> 56" by (simp add: sha1_fill_56)
  moreover have "block_fill (sha1_count0 (sha1_update ctx [0])) = (block_fill (sha1_count0 ctx) + 1) mod 64"
    using block_fill_add [of "sha1_count0 ctx" 1] by (simp add: SHA1_Update_count0)
  moreover have "(120 - (n + 1) mod 64) mod 64 < (120 - n) mod 64" if "n < 64" "n \<noteq> 56" for n :: nat
  proof (cases "n < 56")
    case True
    then show ?thesis by (simp add: le_mod_geq)
  next
    case False
    then show ?thesis using that by (cases "n = 63") (simp_all add: le_mod_geq)
  qed
  ultimately show "(fst (SHA1_Update ctx [0]), ctx) \<in> measure (\<lambda>ctx. (120 - block_fill (sha1_count0 ctx)) mod 64)"
    using block_fill_less [of "sha1_count0 ctx"] by simp
qed simp

declare sha1_pad_loop.simps [simp del]

text \<open>\<open>SHA1_Final\<close> returns the digest and the wiped context.\<close>

definition SHA1_Final :: "SHA1_CTX \<Rightarrow> u8 list \<times> SHA1_CTX" where
  "SHA1_Final ctx =
     (let finalcount = be_word (sha1_count1 ctx) @ be_word (sha1_count0 ctx);
          ctx = fst (SHA1_Update ctx [0x80]);
          ctx = sha1_pad_loop ctx;
          ctx = fst (SHA1_Update ctx finalcount)
      in (sha1_digest_bytes (sha1_state ctx),
          \<lparr> sha1_state = (0, 0, 0, 0, 0), sha1_count0 = 0, sha1_count1 = 0, sha1_buffer = replicate 64 0 \<rparr>))"

lemma sha1_pad_loop_absorb:
  assumes "sha1_ok ctx"
  shows "\<exists>k. sha1_pad_loop ctx = foldl sha1_update ctx (replicate k [0]) \<and> k < 64 \<and>
    (block_fill (sha1_count0 ctx) + k) mod 64 = 56"
  using assms
proof (induction ctx rule: sha1_pad_loop.induct)
  case (1 ctx)
  let ?n = "block_fill (sha1_count0 ctx)"
  show ?case
  proof (cases "sha1_count0 ctx AND 504 \<noteq> 448")
    case True
    have up: "block_fill (sha1_count0 (sha1_update ctx [0])) = (?n + 1) mod 64"
      using SHA1_Update_short [OF 1(2), of "[0]"] by simp
    obtain k where k: "sha1_pad_loop (sha1_update ctx [0]) = foldl sha1_update (sha1_update ctx [0]) (replicate k [0])"
      "k < 64" "((?n + 1) mod 64 + k) mod 64 = 56"
    proof -
      have "sha1_ok (sha1_update ctx [0])" using SHA1_Update_spec [OF 1(2), of "[0]"] by simp
      from 1(1) [OF True this] show thesis using that unfolding up by blast
    qed
    have "(?n + Suc k) mod 64 = 56" using k(3) by (simp add: mod_simps)
    moreover have "Suc k < 64"
    proof (rule ccontr)
      assume "\<not> Suc k < 64"
      then have "Suc k = 64" using k(2) by simp
      then have "?n = 56" using calculation block_fill_less [of "sha1_count0 ctx"] by simp
      then show False using True by (simp add: sha1_fill_56)
    qed
    ultimately show ?thesis
      using True k(1) by (intro exI [of _ "Suc k"]) (simp add: sha1_pad_loop.simps [of ctx])
  next
    case False
    then show ?thesis by (intro exI [of _ 0]) (simp add: sha1_pad_loop.simps [of ctx] sha1_fill_56)
  qed
qed

subsection \<open>The compression function of FIPS 180\<close>

definition be_words_of_block :: "u8 list \<Rightarrow> u32 list" where
  "be_words_of_block block = map (\<lambda>i. GET_32BIT_LSB_FIRST (block ! (4 * i + 3)) (block ! (4 * i + 2))
     (block ! (4 * i + 1)) (block ! (4 * i))) [0..<16]"

text \<open>The message schedule: every further word is a rotated sum of four earlier ones.\<close>

fun sha1_expand :: "nat \<Rightarrow> u32 list \<Rightarrow> u32 list" where
  "sha1_expand 0 W = W"
| "sha1_expand (Suc k) W =
     (let n = length W
      in sha1_expand k (W @ [rol (W ! (n - 3) XOR W ! (n - 8) XOR W ! (n - 14) XOR W ! (n - 16)) 1]))"

definition sha1_schedule :: "u8 list \<Rightarrow> u32 list" where
  "sha1_schedule block = sha1_expand 64 (be_words_of_block block)"

definition sha1_f :: "nat \<Rightarrow> u32 \<Rightarrow> u32 \<Rightarrow> u32 \<Rightarrow> u32" where
  "sha1_f t b c d =
     (if t < 20 then (b AND c) OR (NOT b AND d)
      else if t < 40 then b XOR c XOR d
      else if t < 60 then (b AND c) OR (b AND d) OR (c AND d)
      else b XOR c XOR d)"

fun fips_step :: "u32 list \<Rightarrow> sha1_words \<Rightarrow> nat \<Rightarrow> sha1_words" where
  "fips_step W (a, b, c, d, e) t = (rol a 5 + sha1_f t b c d + e + sha1_K t + W ! t, a, rol b 30, c, d)"

definition sha1_compress :: "sha1_words \<Rightarrow> u8 list \<Rightarrow> sha1_words" where
  "sha1_compress s block = add_words s (foldl (fips_step (sha1_schedule block)) s [0..<80])"

lemma sha1_R_f: "sha1_R i w x y = sha1_f i w x y"
  by (rule bit_word_eqI) (auto simp: sha1_R_def sha1_f_def bit_simps)

lemma length_sha1_expand [simp]: "length (sha1_expand k W) = length W + k"
  by (induction k arbitrary: W) (simp_all add: Let_def)

lemma sha1_expand_prefix: "t < length W \<Longrightarrow> sha1_expand k W ! t = W ! t"
  by (induction k arbitrary: W) (simp_all add: Let_def nth_append)

lemma sha1_expand_nth:
  "16 \<le> length W \<Longrightarrow> length W \<le> t \<Longrightarrow> t < length W + k \<Longrightarrow>
    sha1_expand k W ! t = rol (sha1_expand k W ! (t - 3) XOR sha1_expand k W ! (t - 8) XOR
      sha1_expand k W ! (t - 14) XOR sha1_expand k W ! (t - 16)) 1"
proof (induction k arbitrary: W)
  case (Suc k)
  let ?n = "length W"
  define W' where "W' = W @ [rol (W ! (?n - 3) XOR W ! (?n - 8) XOR W ! (?n - 14) XOR W ! (?n - 16)) 1]"
  have e: "sha1_expand (Suc k) W = sha1_expand k W'" by (simp add: W'_def Let_def)
  have l: "length W' = Suc ?n" by (simp add: W'_def)
  show ?case
  proof (cases "t = ?n")
    case True
    have "sha1_expand k W' ! j = W ! j" if "j < ?n" for j
      using that l by (simp add: sha1_expand_prefix) (simp add: W'_def nth_append)
    moreover have "sha1_expand k W' ! ?n = rol (W ! (?n - 3) XOR W ! (?n - 8) XOR W ! (?n - 14) XOR W ! (?n - 16)) 1"
      using l by (simp add: sha1_expand_prefix) (simp add: W'_def)
    ultimately show ?thesis unfolding e using True Suc(2) by simp
  next
    case False
    show ?thesis unfolding e by (rule Suc(1)) (use False Suc(2-4) l in simp_all)
  qed
qed simp

lemma length_be_words [simp]: "length (be_words_of_block b) = 16"
  by (simp add: be_words_of_block_def)

lemma schedule_low: "t < 16 \<Longrightarrow> sha1_schedule b ! t = be_words_of_block b ! t"
  by (simp add: sha1_schedule_def sha1_expand_prefix)

lemma schedule_high: "16 \<le> t \<Longrightarrow> t < 80 \<Longrightarrow> sha1_schedule b ! t =
    rol (sha1_schedule b ! (t - 3) XOR sha1_schedule b ! (t - 8) XOR sha1_schedule b ! (t - 14) XOR sha1_schedule b ! (t - 16)) 1"
  unfolding sha1_schedule_def by (rule sha1_expand_nth) simp_all

lemma byte_swap:
  "(rol (GET_32BIT_LSB_FIRST b0 b1 b2 b3) 24 AND 0xFF00FF00) OR (rol (GET_32BIT_LSB_FIRST b0 b1 b2 b3) 8 AND 0x00FF00FF) =
    GET_32BIT_LSB_FIRST b3 b2 b1 b0"
proof -
  have m: "(0xFF00FF00 :: u32) = push_bit 24 (mask 8) OR push_bit 8 (mask 8)"
    "(0x00FF00FF :: u32) = push_bit 16 (mask 8) OR mask 8"
    by (simp_all add: mask_eq_exp_minus_1 push_bit_eq_mult)
  show ?thesis unfolding m
  proof (rule bit_word_eqI)
    fix n :: nat assume n: "n < LENGTH(32)"
    consider "n < 8" | "8 \<le> n" "n < 16" | "16 \<le> n" "n < 24" | "24 \<le> n" "n < 32" using n by fastforce
    then show "bit ((rol (GET_32BIT_LSB_FIRST b0 b1 b2 b3) 24 AND (push_bit 24 (mask 8) OR push_bit 8 (mask 8))) OR
        (rol (GET_32BIT_LSB_FIRST b0 b1 b2 b3) 8 AND (push_bit 16 (mask 8) OR mask 8))) n =
      bit (GET_32BIT_LSB_FIRST b3 b2 b1 b0) n"
      by cases (auto simp: rol_def GET_32BIT_LSB_FIRST_def bit_simps dest: bit_imp_le_length)
  qed
qed

lemma blk0_swap: "t < 16 \<Longrightarrow> l ! t = words_of_block b ! t \<Longrightarrow> blk0 l t = be_words_of_block b ! t"
  by (simp add: blk0_def words_of_block_def be_words_of_block_def byte_swap)

text \<open>After \<open>n\<close> steps the circular buffer holds the last words of the schedule, and before that the
  words of the block not yet reached.\<close>

definition circular :: "u8 list \<Rightarrow> nat \<Rightarrow> u32 list \<Rightarrow> bool" where
  "circular b n l \<longleftrightarrow> length l = 16 \<and>
     (\<forall>k. k < n \<and> n \<le> k + 16 \<longrightarrow> l ! (k mod 16) = sha1_schedule b ! k) \<and>
     (\<forall>k < 16. n \<le> k \<longrightarrow> l ! k = words_of_block b ! k)"

lemma circular_word:
  assumes "circular b n l" "n < 80"
  shows "(if n < 16 then blk0 l n else blk l n) = sha1_schedule b ! n"
proof (cases "n < 16")
  case True
  then show ?thesis using assms by (simp add: circular_def blk0_swap schedule_low)
next
  case False
  have idx: "(n + 13) mod 16 = (n - 3) mod 16" "(n + 8) mod 16 = (n - 8) mod 16"
    "(n + 2) mod 16 = (n - 14) mod 16" "n mod 16 = (n - 16) mod 16"
  proof -
    obtain m where "n = m + 16" using False by (metis add.commute le_Suc_ex not_less)
    then show "(n + 13) mod 16 = (n - 3) mod 16" "(n + 8) mod 16 = (n - 8) mod 16"
      "(n + 2) mod 16 = (n - 14) mod 16" "n mod 16 = (n - 16) mod 16"
      using mod_add_self2 [of "m + 13" 16] mod_add_self2 [of "m + 8" 16] mod_add_self2 [of "m + 2" 16]
      by (simp_all add: add.commute add.left_commute)
  qed
  have "l ! (k mod 16) = sha1_schedule b ! k" if "k < n" "n \<le> k + 16" for k
    using assms(1) that by (simp add: circular_def)
  then show ?thesis using False assms(2)
    unfolding blk_def idx by (simp add: schedule_high)
qed

lemma circular_step:
  assumes "circular b n l" 
  shows "circular b (Suc n) (l[n mod 16 := sha1_schedule b ! n])"
proof -
  have "l[n mod 16 := sha1_schedule b ! n] ! (k mod 16) = sha1_schedule b ! k"
    if "k < Suc n" "Suc n \<le> k + 16" for k
  proof (cases "k = n")
    case False
    then have "k mod 16 \<noteq> n mod 16"
      using that mod_eq_dvd_iff_nat [of k n 16] by (auto dest!: dvd_imp_le simp: eq_commute)
    then show ?thesis using assms that False by (simp add: circular_def)
  qed (use assms in \<open>simp add: circular_def\<close>)
  then show ?thesis using assms by (simp add: circular_def)
qed

lemma sha1_steps_fips:
  "n \<le> 80 \<Longrightarrow> \<exists>l. foldl sha1_step (words_of_block b, s) [0..<n] = (l, foldl (fips_step (sha1_schedule b)) s [0..<n]) \<and>
    circular b n l"
proof (induction n)
  case 0
  then show ?case by (simp add: circular_def)
next
  case (Suc n)
  then obtain l where l: "foldl sha1_step (words_of_block b, s) [0..<n] = (l, foldl (fips_step (sha1_schedule b)) s [0..<n])"
    "circular b n l" by auto
  obtain v w x y z where f: "foldl (fips_step (sha1_schedule b)) s [0..<n] = (v, w, x, y, z)" by (metis prod.exhaust)
  have n: "n < 80" using Suc(2) by simp
  have "sha1_step (l, v, w, x, y, z) n =
      (l[n mod 16 := sha1_schedule b ! n], fips_step (sha1_schedule b) (v, w, x, y, z) n)"
    unfolding sha1_step.simps Let_def circular_word [OF l(2) n] sha1_R_f fips_step.simps
    by (simp only: add.commute add.left_commute add.assoc)
  then show ?case
    using l(1) circular_step [OF l(2)] by (simp add: f del: sha1_step.simps fips_step.simps)
qed

subsection \<open>The digest of FIPS 180\<close>

definition sha1_init_words :: sha1_words where
  "sha1_init_words = (0x67452301, 0xEFCDAB89, 0x98BADCFE, 0x10325476, 0xC3D2E1F0)"

definition sha1_msg_pad :: "nat \<Rightarrow> u8 list" where
  "sha1_msg_pad n = 0x80 # replicate ((119 - n mod 64) mod 64) 0 @
     be_word (of_int (8 * int n div 2 ^ 32)) @ be_word (of_int (8 * int n))"

definition sha1 :: "u8 list \<Rightarrow> u8 list" where
  "sha1 msg = sha1_digest_bytes (fst (absorb sha1_compress sha1_init_words (msg @ sha1_msg_pad (length msg))))"

lemma sha1_chain_compress: "sha1_chain s b = sha1_compress s b"
proof -
  obtain l where "foldl sha1_step (words_of_block b, s) [0..<80] = (l, foldl (fips_step (sha1_schedule b)) s [0..<80])"
    using sha1_steps_fips [of 80 b s] by auto
  then show ?thesis unfolding SHA1_Transform_def sha1_compress_def by simp
qed

lemma sha1_final_absorb:
  assumes "sha1_ok ctx" "(sha1_state ctx, sha1_pending ctx) = absorb sha1_chain sha1_init_words msg"
    "sha1_bitcount ctx = of_nat (8 * length msg)"
  shows "fst (SHA1_Final ctx) = sha1 msg"
proof -
  let ?n = "length msg mod 64"
  have l: "sha1_count0 ctx = of_nat (8 * length msg)" "sha1_count1 ctx = of_nat (8 * length msg div 2 ^ 32)"
    by (rule join64_words [OF assms(3)])+
  define fc where "fc = be_word (sha1_count1 ctx) @ be_word (sha1_count0 ctx)"
  have fc8: "length fc = 8" by (simp add: fc_def be_word_def)
  have pl: "length (sha1_pending ctx) = block_fill (sha1_count0 ctx)"
    using assms(1) block_fill_less [of "sha1_count0 ctx"] unfolding sha1_ok_def by simp
  have "length (sha1_pending ctx) = ?n"
    using length_snd_absorb [of sha1_chain sha1_init_words msg] unfolding assms(2) [symmetric] snd_conv .
  then have fill: "block_fill (sha1_count0 ctx) = ?n" unfolding pl .
  have ok1: "sha1_ok (sha1_update ctx [0x80])" using SHA1_Update_spec [OF assms(1), of "[0x80]"] by simp
  have fill1: "block_fill (sha1_count0 (sha1_update ctx [0x80])) = (?n + 1) mod 64"
    using SHA1_Update_short [OF assms(1), of "[0x80]"] by (simp add: fill)
  obtain k where k: "sha1_pad_loop (sha1_update ctx [0x80]) = foldl sha1_update (sha1_update ctx [0x80]) (replicate k [0])"
    "k < 64" "((?n + 1) mod 64 + k) mod 64 = 56"
    using sha1_pad_loop_absorb [OF ok1] unfolding fill1 by blast
  have kv: "k = (119 - ?n) mod 64"
  proof -
    have "(?n + 1 + k) mod 64 = 56" by (rule trans [OF mod_add_left_eq [symmetric] k(3)])
    moreover have n64: "?n < 64" by simp
    ultimately show ?thesis using k(2)
      by (cases "?n + 1 + k < 64"; cases "?n + 1 + k < 128") (simp_all add: le_mod_geq)
  qed
  let ?ps = "[0x80] # replicate k [0] @ [fc]"
  have fin: "fst (SHA1_Final ctx) = sha1_digest_bytes (sha1_state (sha1.update_all ctx ?ps))"
    unfolding SHA1_Final_def Let_def k(1) by (simp add: sha1.update_all_def fc_def)
  have "concat ?ps = 0x80 # replicate k 0 @ fc"
    by (induction k) simp_all
  then have "(sha1_state (sha1.update_all ctx ?ps), sha1_pending (sha1.update_all ctx ?ps)) =
      absorb sha1_chain (sha1_state ctx) (sha1_pending ctx @ 0x80 # replicate k 0 @ fc)"
    using sha1.update_all_absorb [OF assms(1), of ?ps] fc8 by simp
  then have st: "sha1_state (sha1.update_all ctx ?ps) =
      fst (absorb sha1_chain (sha1_state ctx) (sha1_pending ctx @ 0x80 # replicate k 0 @ fc))"
    by (metis fst_conv)
  have w: "of_int (8 * int n) = (of_nat (8 * n) :: u32)" "of_int (8 * int n div 2 ^ 32) = (of_nat (8 * n div 2 ^ 32) :: u32)" for n
  proof -
    have "8 * int n = int (8 * n)" "8 * int n div 2 ^ 32 = int (8 * n div 2 ^ 32)"
      by (simp_all add: zdiv_int)
    then show "of_int (8 * int n) = (of_nat (8 * n) :: u32)"
      "of_int (8 * int n div 2 ^ 32) = (of_nat (8 * n div 2 ^ 32) :: u32)"
      by (simp_all only: of_int_of_nat_eq)
  qed
  have cf: "sha1_compress = sha1_chain" by (intro ext) (simp add: sha1_chain_compress)
  have "0x80 # replicate k 0 @ fc = sha1_msg_pad (length msg)"
    unfolding sha1_msg_pad_def w l [symmetric] kv fc_def by simp
  then show ?thesis
    unfolding fin st sha1_def cf
    by (subst absorb_append) (simp only: assms(2) [symmetric] fst_conv snd_conv)
qed

subsection \<open>Properties\<close>

text \<open>The compression function that expands the message schedule inside the block, in 16 words
  used as a ring, computes the compression function of FIPS 180 with its schedule of 80 words.\<close>

theorem sha1_transform_fips: "fst (SHA1_Transform s block) = sha1_compress s block"
  by (rule sha1_chain_compress)

text \<open>Claim C23. Hashing a message piece by piece gives the SHA-1 digest of FIPS 180, whatever was in the
  buffer of the context before, as long as every piece is shorter than 512 MiB.\<close>

theorem sha1_incremental:
  assumes "\<forall>b \<in> set bs. length b < 2 ^ 29" "length buffer = 64"
  shows "fst (SHA1_Final (foldl (\<lambda>ctx b. fst (SHA1_Update ctx b)) (SHA1_Init buffer) bs)) = sha1 (concat bs)"
proof -
  let ?c = "SHA1_Init buffer"
  have c: "sha1_ok ?c" "sha1_pending ?c = []" "sha1_bitcount ?c = 0" "sha1_state ?c = sha1_init_words"
    using assms(2) by (simp_all add: sha1_ok_def SHA1_Init_def block_fill join64_def sha1_init_words_def)
  show ?thesis
    using sha1_final_absorb [of "sha1.update_all ?c bs" "concat bs"] sha1.update_all_absorb [OF c(1) assms(1)]
      sha1.update_all_bitcount [OF c(1) assms(1)] sha1.update_all_ok [OF c(1) assms(1)]
    unfolding c sha1.update_all_def by simp
qed

theorem sha1_incremental_witness:
  "fst (SHA1_Final (foldl (\<lambda>ctx b. fst (SHA1_Update ctx b)) (SHA1_Init (replicate 64 7))
      [bytes_of_string ''ab'', bytes_of_string ''c''])) = sha1 (bytes_of_string ''abc'')"
  by (subst sha1_incremental) (simp_all add: bytes_of_string_def)

end
