(* ===== verification/Hash_Table.thy ===== *)
theory Hash_Table
  imports Ctx
begin

section \<open>The string hash table (hash.c)\<close>

text \<open>
  Models \<open>src/hash.c\<close>.  The record keeps the fields of \<open>struct _hash_t\<close>; the array of
  linked chains is a list of chains, each the list of its \<open>(key, value)\<close> entries in link order.
  A table created with a \<open>free\<close> function (\<open>h_free\<close>) hands removed values to it: the
  operations return those values, in order.  Reading \<open>table->entries[index]\<close> outside the array is
  undefined.  The theory defines the abstraction \<open>hash_map\<close>, the invariant \<open>hash_ok\<close>,
  shows each operation against the abstraction, and interprets the locale \<open>string_map\<close>, the
  interface on which stanzas, the SASL challenge and the handler lists rest.
\<close>

type_synonym 'v chain = "(string \<times> 'v) list"

record 'v hash_t =
  h_ref :: nat
  h_free :: bool
  h_length :: int
  h_num_keys :: int
  h_entries :: "'v chain list"

record 'v hash_iterator_t =
  it_ref :: int
  it_entry :: "'v chain"  \<comment> \<open>the chain from the current entry on; empty is \<open>NULL\<close>\<close>
  it_index :: int

subsection \<open>Operations\<close>

definition hash_new :: "mem \<Rightarrow> nat \<Rightarrow> bool \<Rightarrow> 'v hash_t option \<times> mem" where
  "hash_new m n free =
     (case xmpp_alloc m of
        (False, m1) \<Rightarrow> (None, m1)
      | (True, m1) \<Rightarrow>
          (case xmpp_alloc m1 of
             (False, m2) \<Rightarrow> (None, m2)
           | (True, m2) \<Rightarrow>
               (Some \<lparr>h_ref = 1, h_free = free, h_length = int n, h_num_keys = 0,
                      h_entries = replicate n []\<rparr>, m2)))"

definition hash_clone :: "'v hash_t \<Rightarrow> 'v hash_t" where
  "hash_clone t = t\<lparr>h_ref := h_ref t + 1\<rparr>"

text \<open>
  \<open>hash_release\<close>: the table that is left (none once it is freed) and the values handed to its
  \<open>free\<close> function.
\<close>

definition hash_release :: "'v hash_t \<Rightarrow> 'v hash_t option \<times> 'v list" where
  "hash_release t =
     (if h_ref t > 1 then (Some (t\<lparr>h_ref := h_ref t - 1\<rparr>), [])
      else (None, if h_free t then concat (map (map snd) (h_entries t)) else []))"

text \<open>
  The loop of \<open>_hash_key\<close>.  The shifted character is a (signed) \<open>int\<close> of 32 bits; shifting a
  negative one wraps, as the compilers in use define it.
\<close>

fun hash_loop :: "u32 \<Rightarrow> nat \<Rightarrow> string \<Rightarrow> u32" where
  "hash_loop h shift [] = h"
| "hash_loop h shift (c # cs) =
     (let h' = h XOR push_bit shift (word_of_int (schar c)); shift' = shift + 8
      in hash_loop h' (if shift' > 24 then 0 else shift') cs)"

definition hash_key :: "'v hash_t \<Rightarrow> string \<Rightarrow> int option" where
  "hash_key t key =
     (if h_length t = 0 then None else Some (c_rem (sint (hash_loop 0 0 key)) (h_length t)))"

text \<open>The access \<open>table->entries[index]\<close>: the bucket number, when it lies inside the array.\<close>

definition bucket_index :: "'v hash_t \<Rightarrow> string \<Rightarrow> nat option" where
  "bucket_index t key = do {
     index \<leftarrow> hash_key t key;
     if 0 \<le> index \<and> index < int (length (h_entries t)) then Some (nat index) else None }"

fun chain_get :: "'v chain \<Rightarrow> string \<Rightarrow> 'v option" where
  "chain_get [] key = None"
| "chain_get ((k, v) # es) key = (if key = k then Some v else chain_get es key)"

text \<open>Unlinks the first entry with the key; returns its value and the chain that is left.\<close>

fun chain_drop :: "'v chain \<Rightarrow> string \<Rightarrow> ('v \<times> 'v chain) option" where
  "chain_drop [] key = None"
| "chain_drop ((k, v) # es) key =
     (if key = k then Some (v, es)
      else map_option (\<lambda>(x, es'). (x, (k, v) # es')) (chain_drop es key))"

definition hash_get :: "'v hash_t \<Rightarrow> string \<Rightarrow> 'v option option" where
  "hash_get t key = do {
     index \<leftarrow> bucket_index t key;
     Some (chain_get (h_entries t ! index) key) }"

definition hash_drop :: "'v hash_t \<Rightarrow> string \<Rightarrow> (int \<times> 'v hash_t \<times> 'v list) option" where
  "hash_drop t key = do {
     index \<leftarrow> bucket_index t key;
     Some (case chain_drop (h_entries t ! index) key of
             None \<Rightarrow> (- 1, t, [])
           | Some (v, es) \<Rightarrow>
               (0, t\<lparr>h_entries := (h_entries t)[index := es], h_num_keys := h_num_keys t - 1\<rparr>,
                if h_free t then [v] else [])) }"

definition hash_add ::
    "mem \<Rightarrow> 'v hash_t \<Rightarrow> string \<Rightarrow> 'v \<Rightarrow> (int \<times> 'v hash_t \<times> 'v list \<times> mem) option" where
  "hash_add m t key data = do {
     index \<leftarrow> bucket_index t key;
     (_, t1, freed) \<leftarrow> hash_drop t key;
     case xmpp_alloc m of
       (False, m1) \<Rightarrow> Some (- 1, t1, freed, m1)
     | (True, m1) \<Rightarrow>
         (case xmpp_strdup m1 key of
            (None, m2) \<Rightarrow> Some (- 1, t1, freed, m2)
          | (Some key', m2) \<Rightarrow>
              Some (0, t1\<lparr>h_entries := (h_entries t1)[index := (key', data) # h_entries t1 ! index],
                         h_num_keys := h_num_keys t1 + 1\<rparr>, freed, m2)) }"

definition hash_num_keys :: "'v hash_t \<Rightarrow> int" where
  "hash_num_keys t = h_num_keys t"

subsection \<open>The iterator\<close>

text \<open>\<open>hash_iter_new\<close>: the iterator and the table, which gains a reference.\<close>

definition hash_iter_new :: "mem \<Rightarrow> 'v hash_t \<Rightarrow> 'v hash_iterator_t option \<times> 'v hash_t \<times> mem" where
  "hash_iter_new m t =
     (case xmpp_alloc m of
        (False, m1) \<Rightarrow> (None, t, m1)
      | (True, m1) \<Rightarrow> (Some \<lparr>it_ref = 1, it_entry = [], it_index = - 1\<rparr>, hash_clone t, m1))"

definition hash_iter_release ::
    "'v hash_t \<Rightarrow> 'v hash_iterator_t \<Rightarrow> 'v hash_iterator_t option \<times> 'v hash_t option \<times> 'v list" where
  "hash_iter_release t it =
     (let it' = it\<lparr>it_ref := it_ref it - 1\<rparr>
      in if it_ref it' \<le> 0 then (None, hash_release t) else (Some it', Some t, []))"

text \<open>The search for the next chain that is not empty, from bucket \<open>i\<close> on.\<close>

function find_bucket :: "'v chain list \<Rightarrow> nat \<Rightarrow> nat \<times> 'v chain" where
  "find_bucket es i =
     (if i < length es then (if es ! i \<noteq> [] then (i, es ! i) else find_bucket es (Suc i))
      else (i, []))"
  by pat_completeness auto
termination
  by (relation "measure (\<lambda>(es, i). length es - i)") auto

declare find_bucket.simps [simp del]

definition hash_iter_next ::
    "'v hash_t \<Rightarrow> 'v hash_iterator_t \<Rightarrow> string option \<times> 'v hash_iterator_t" where
  "hash_iter_next t it =
     (let i = nat (it_index it + 1);
          entry = tl (it_entry it)
      in if entry = [] then
           (case find_bucket (h_entries t) i of
              (j, []) \<Rightarrow> (None, it)
            | (j, (k, v) # es) \<Rightarrow>
                (Some k, it\<lparr>it_index := int j, it_entry := (k, v) # es\<rparr>))
         else if i \<ge> length (h_entries t) then (None, it)
         else (Some (fst (hd entry)), it\<lparr>it_entry := entry\<rparr>))"

subsection \<open>Invariant and abstraction\<close>

definition hash_ok :: "'v hash_t \<Rightarrow> bool" where
  "hash_ok t \<longleftrightarrow>
     h_length t = int (length (h_entries t)) \<and> h_entries t \<noteq> [] \<and>
     (\<forall>i < length (h_entries t). distinct (map fst (h_entries t ! i))) \<and>
     (\<forall>i < length (h_entries t). \<forall>k \<in> fst ` set (h_entries t ! i). bucket_index t k = Some i) \<and>
     h_num_keys t = int (length (concat (h_entries t)))"

definition hash_map :: "'v hash_t \<Rightarrow> string \<rightharpoonup> 'v" where
  "hash_map t k = (case bucket_index t k of None \<Rightarrow> None | Some i \<Rightarrow> map_of (h_entries t ! i) k)"

text \<open>A key whose bucket lies inside the array.\<close>

definition key_ok :: "'v hash_t \<Rightarrow> string \<Rightarrow> bool" where
  "key_ok t k \<longleftrightarrow> bucket_index t k \<noteq> None"

lemma bucket_index_bound: "bucket_index t k = Some i \<Longrightarrow> i < length (h_entries t)"
  by (auto simp: bucket_index_def c_simps split: if_splits)

text \<open>The bucket of a key depends on the two lengths only, so updates of the chains keep it.\<close>

lemma bucket_index_cong:
  "h_length t = h_length t' \<Longrightarrow> length (h_entries t) = length (h_entries t') \<Longrightarrow>
    bucket_index t k = bucket_index t' k"
  by (simp add: bucket_index_def hash_key_def)

lemma bucket_index_update [simp]:
  "bucket_index (t\<lparr>h_entries := (h_entries t)[i := es]\<rparr>) k = bucket_index t k"
  by (rule bucket_index_cong) simp_all

lemma bucket_index_num_keys [simp]: "bucket_index (t\<lparr>h_num_keys := n\<rparr>) k = bucket_index t k"
  by (rule bucket_index_cong) simp_all

lemma chain_get_map_of: "chain_get es k = map_of es k"
  by (induction es k rule: chain_get.induct) auto

lemma chain_drop_None: "chain_drop es k = None \<longleftrightarrow> k \<notin> fst ` set es"
  by (induction es k rule: chain_drop.induct) auto

lemma chain_drop_Some:
  "chain_drop es k = Some (v, es') \<Longrightarrow> distinct (map fst es) \<Longrightarrow>
    map_of es k = Some v \<and> map_of es' = (map_of es)(k := None) \<and> distinct (map fst es') \<and>
    fst ` set es' = fst ` set es - {k} \<and> length es = Suc (length es')"
proof (induction es k arbitrary: v es' rule: chain_drop.induct)
  case (1 key)
  then show ?case by simp
next
  case (2 k v0 es key)
  show ?case
  proof (cases "key = k")
    case True
    with 2 show ?thesis
      by (auto simp: fun_eq_iff map_of_eq_None_iff image_iff)
  next
    case False
    with "2.prems" obtain x es1 where d: "chain_drop es key = Some (x, es1)"
      and e: "v = x" "es' = (k, v0) # es1" by auto
    have "distinct (map fst es)" using "2.prems" by simp
    note IH = "2.IH" [OF False d this]
    then have "map_of ((k, v0) # es1) = (map_of ((k, v0) # es))(key := None)"
      using False by (intro ext) simp
    moreover have "k \<notin> fst ` set es1" using IH "2.prems" by auto
    ultimately show ?thesis
      using IH False e "2.prems" by auto
  qed
qed

lemma hash_ok_bucket:
  "hash_ok t \<Longrightarrow> i < length (h_entries t) \<Longrightarrow> k \<in> fst ` set (h_entries t ! i) \<Longrightarrow>
    bucket_index t k = Some i"
  unfolding hash_ok_def by blast

lemma hash_okI_update:
  assumes ok: "hash_ok t" and i: "i < length (h_entries t)"
    and d: "distinct (map fst es)"
    and b: "\<forall>k \<in> fst ` set es. bucket_index t k = Some i"
    and n: "n = h_num_keys t + int (length es) - int (length (h_entries t ! i))"
  shows "hash_ok (t\<lparr>h_entries := (h_entries t)[i := es], h_num_keys := n\<rparr>)"
proof -
  have "int (length (concat ((h_entries t)[i := es]))) + int (length (h_entries t ! i)) =
      int (length (concat (h_entries t))) + int (length es)"
    using length_concat_list_update [OF i, of es] by linarith
  moreover have "\<forall>j < length (h_entries t). distinct (map fst ((h_entries t)[i := es] ! j))"
    using ok d i by (simp add: hash_ok_def nth_list_update)
  moreover have "\<forall>j < length (h_entries t). \<forall>k \<in> fst ` set ((h_entries t)[i := es] ! j).
      bucket_index t k = Some j"
    using ok b i by (simp add: hash_ok_def nth_list_update)
  ultimately show ?thesis
    using ok n by (simp add: hash_ok_def)
qed

lemma hash_map_update:
  assumes "i < length (h_entries t)"
  shows "hash_map (t\<lparr>h_entries := (h_entries t)[i := es], h_num_keys := n\<rparr>) =
    (\<lambda>k. if bucket_index t k = Some i then map_of es k else hash_map t k)"
  using assms by (auto simp: hash_map_def fun_eq_iff nth_list_update dest: bucket_index_bound split: option.splits)

lemma key_ok_update [simp]:
  "key_ok (t\<lparr>h_entries := (h_entries t)[i := es], h_num_keys := n\<rparr>) = key_ok t"
  by (simp add: key_ok_def fun_eq_iff)

subsection \<open>The operations against the abstraction\<close>

lemma hash_new_ok:
  assumes "hash_new m n f = (Some t, m')" and "0 < n"
  shows "hash_ok t \<and> hash_map t = Map.empty \<and> h_ref t = 1 \<and> h_free t = f \<and> h_length t = int n"
proof -
  have t: "t = \<lparr>h_ref = 1, h_free = f, h_length = int n, h_num_keys = 0, h_entries = replicate n []\<rparr>"
    using assms(1) by (auto simp: hash_new_def split: prod.splits bool.splits)
  have "hash_map t = Map.empty"
    by (auto simp: hash_map_def t fun_eq_iff split: option.splits dest: bucket_index_bound)
  then show ?thesis
    using assms(2) by (auto simp: t hash_ok_def)
qed

lemma hash_new_Nil [simp]:
  "hash_new [] n f = (Some \<lparr>h_ref = 1, h_free = f, h_length = int n, h_num_keys = 0,
     h_entries = replicate n []\<rparr>, [])"
  by (simp add: hash_new_def)

abbreviation fresh_table :: "nat \<Rightarrow> bool \<Rightarrow> 'v hash_t" where
  "fresh_table n f \<equiv> \<lparr>h_ref = 1, h_free = f, h_length = int n, h_num_keys = 0,
     h_entries = replicate n []\<rparr>"

lemma fresh_table_ok: "0 < n \<Longrightarrow> hash_ok (fresh_table n f)"
  using hash_new_ok [OF hash_new_Nil] by blast

lemma fresh_table_map: "0 < n \<Longrightarrow> hash_map (fresh_table n f) = Map.empty"
  using hash_new_ok [OF hash_new_Nil] by blast

lemma hash_get_map: "key_ok t k \<Longrightarrow> hash_get t k = Some (hash_map t k)"
  by (auto simp: key_ok_def hash_get_def hash_map_def chain_get_map_of)

lemma hash_get_undefined: "\<not> key_ok t k \<Longrightarrow> hash_get t k = None"
  by (simp add: key_ok_def hash_get_def)

lemma hash_drop_spec:
  assumes ok: "hash_ok t" and k: "key_ok t k"
  shows "\<exists>r t' freed. hash_drop t k = Some (r, t', freed) \<and> hash_ok t' \<and>
    hash_map t' = (hash_map t)(k := None) \<and> key_ok t' = key_ok t \<and> h_free t' = h_free t \<and>
    h_ref t' = h_ref t \<and> bucket_index t' = bucket_index t \<and>
    length (h_entries t') = length (h_entries t) \<and>
    r = (if hash_map t k = None then - 1 else 0) \<and>
    freed = (if h_free t then (case hash_map t k of None \<Rightarrow> [] | Some v \<Rightarrow> [v]) else [])"
proof -
  from k obtain i where i: "bucket_index t k = Some i" by (auto simp: key_ok_def)
  note il = bucket_index_bound [OF i]
  have d: "distinct (map fst (h_entries t ! i))" using ok il by (auto simp: hash_ok_def)
  have m: "hash_map t k = map_of (h_entries t ! i) k" by (simp add: hash_map_def i)
  show ?thesis
  proof (cases "chain_drop (h_entries t ! i) k")
    case None
    then have n: "hash_map t k = None"
      by (simp add: m chain_drop_None map_of_eq_None_iff)
    then show ?thesis
      using ok None by (auto simp: hash_drop_def i fun_upd_idem)
  next
    case (Some p)
    obtain v es where p: "p = (v, es)" by (cases p)
    note c = chain_drop_Some [OF Some [unfolded p] d]
    let ?t = "t\<lparr>h_entries := (h_entries t)[i := es], h_num_keys := h_num_keys t - 1\<rparr>"
    have ok': "hash_ok ?t"
      using ok il c by (intro hash_okI_update) (auto simp: hash_ok_def)
    have "hash_map ?t = (hash_map t)(k := None)"
      using c by (auto simp: hash_map_update [OF il] fun_eq_iff i hash_map_def split: option.splits)
    with ok' c m show ?thesis
      by (auto simp: hash_drop_def i Some p fun_eq_iff)
  qed
qed

lemma hash_add_spec:
  assumes ok: "hash_ok t" and k: "key_ok t k"
  shows "\<exists>r t' freed m'. hash_add m t k v = Some (r, t', freed, m') \<and> hash_ok t' \<and>
    key_ok t' = key_ok t \<and> h_free t' = h_free t \<and> h_ref t' = h_ref t \<and>
    (r = 0 \<and> hash_map t' = (hash_map t)(k \<mapsto> v) \<or> r = - 1 \<and> hash_map t' = (hash_map t)(k := None)) \<and>
    (m = [] \<longrightarrow> r = 0 \<and> m' = []) \<and>
    freed = (if h_free t then (case hash_map t k of None \<Rightarrow> [] | Some v \<Rightarrow> [v]) else [])"
proof -
  from k obtain i where i: "bucket_index t k = Some i" by (auto simp: key_ok_def)
  from hash_drop_spec [OF ok k] obtain r1 t1 fr where
    d: "hash_drop t k = Some (r1, t1, fr)" "hash_ok t1" "hash_map t1 = (hash_map t)(k := None)"
      "key_ok t1 = key_ok t" "h_free t1 = h_free t" "h_ref t1 = h_ref t"
      "bucket_index t1 = bucket_index t" "length (h_entries t1) = length (h_entries t)"
      "fr = (if h_free t then (case hash_map t k of None \<Rightarrow> [] | Some v \<Rightarrow> [v]) else [])"
    by blast
  have i1: "bucket_index t1 k = Some i" and il: "i < length (h_entries t1)"
    using i d(7) bucket_index_bound [of t1 k i] by simp_all
  let ?es = "(k, v) # h_entries t1 ! i"
  let ?t = "t1\<lparr>h_entries := (h_entries t1)[i := ?es], h_num_keys := h_num_keys t1 + 1\<rparr>"
  have "map_of (h_entries t1 ! i) k = None"
    using fun_cong [OF d(3), of k] by (simp add: hash_map_def i1)
  then have ok': "hash_ok ?t"
    using d(2) il i1 by (intro hash_okI_update) (auto simp: hash_ok_def map_of_eq_None_iff)
  have "map_of (h_entries t1 ! i) x = hash_map t1 x" if "bucket_index t x = Some i" for x
    using that d(7) by (simp add: hash_map_def)
  then have m': "hash_map ?t = (hash_map t)(k \<mapsto> v)"
    using i by (auto simp: hash_map_update [OF il] fun_eq_iff d(3,7))
  show ?thesis
    using d ok' m'
    by (cases m rule: xmpp_alloc.cases)
      (auto simp: hash_add_def i xmpp_strdup_def fun_eq_iff split: prod.splits bool.splits)
qed

subsection \<open>Where the table is defined\<close>

lemma hash_loop_sign:
  "ascii cs \<Longrightarrow> shift \<in> {0, 8, 16, 24} \<Longrightarrow> \<not> bit h 31 \<Longrightarrow> \<not> bit (hash_loop h shift cs) 31"
proof (induction h shift cs rule: hash_loop.induct)
  case (1 h shift)
  then show ?case by simp
next
  case (2 h shift c cs)
  have "\<not> bit (schar c) n" if "7 \<le> n" for n
  proof -
    have "schar c = take_bit 7 (schar c)"
      using 2 schar_bounds [of c] schar_ascii [of c] by (simp add: take_bit_int_eq_self)
    then show ?thesis using that by (metis bit_take_bit_iff not_less)
  qed
  then have "\<not> bit (push_bit shift (word_of_int (schar c) :: u32)) 31"
    using "2.prems"(2) by (auto simp: bit_push_bit_iff bit_word_of_int_iff)
  with 2 have "\<not> bit (h XOR push_bit shift (word_of_int (schar c) :: u32)) 31"
    by (simp add: bit_xor_iff)
  with "2.IH" [OF refl refl] "2.prems" show ?case by (auto simp: Let_def)
qed

lemma hash_key_ascii: "hash_ok t \<Longrightarrow> ascii k \<Longrightarrow> key_ok t k"
proof -
  assume ok: "hash_ok t" and a: "ascii k"
  have "\<not> bit (hash_loop 0 0 k) 31" using a by (intro hash_loop_sign) simp_all
  then have "0 \<le> sint (hash_loop 0 0 k)" by (simp add: bit_last_iff [symmetric] not_less [symmetric])
  moreover have l: "0 < h_length t" using ok by (simp add: hash_ok_def)
  ultimately show ?thesis
    using c_rem_bounds [OF l] ok
    by (auto simp: key_ok_def bucket_index_def hash_key_def hash_ok_def c_rem_nonneg)
qed

subsection \<open>Iteration\<close>

definition iter_measure :: "'v hash_t \<Rightarrow> 'v hash_iterator_t \<Rightarrow> nat" where
  "iter_measure t it =
     length (tl (it_entry it)) + length (concat (drop (nat (it_index it + 1)) (h_entries t)))"

lemma find_bucket_found:
  "find_bucket es i = (j, e) \<Longrightarrow> e \<noteq> [] \<Longrightarrow> i \<le> j \<and> j < length es \<and> es ! j = e"
proof (induction es i rule: find_bucket.induct)
  case (1 es i)
  then show ?case
    by (auto simp: find_bucket.simps [of es i] split: if_splits)
qed

lemma hash_iter_next_measure:
  assumes "hash_iter_next t it = (Some k, it')"
  shows "iter_measure t it' < iter_measure t it"
proof (cases "tl (it_entry it) = []")
  case True
  let ?i = "nat (it_index it + 1)"
  obtain j k' v es where f: "find_bucket (h_entries t) ?i = (j, (k', v) # es)"
    and it': "it' = it\<lparr>it_index := int j, it_entry := (k', v) # es\<rparr>"
    using assms True
    by (auto simp: hash_iter_next_def Let_def split: prod.splits list.splits)
  from find_bucket_found [OF f] have b: "?i \<le> j" "j < length (h_entries t)"
      "h_entries t ! j = (k', v) # es" by simp_all
  have "drop ?i (h_entries t) = take (j - ?i) (drop ?i (h_entries t)) @ drop j (h_entries t)"
    using b(1) by (metis append_take_drop_id drop_drop le_add_diff_inverse2)
  moreover have "drop j (h_entries t) = h_entries t ! j # drop (Suc j) (h_entries t)"
    using b(2) by (simp add: Cons_nth_drop_Suc)
  ultimately have "length (concat (drop ?i (h_entries t))) \<ge>
      length (h_entries t ! j) + length (concat (drop (Suc j) (h_entries t)))"
    by (metis concat.simps(2) concat_append le_add2 length_append)
  moreover have "iter_measure t it' = length es + length (concat (drop (Suc j) (h_entries t)))"
    by (simp add: iter_measure_def it' nat_add_distrib)
  ultimately show ?thesis
    using b(3) by (simp add: iter_measure_def)
next
  case False
  then obtain e es where "tl (it_entry it) = e # es" by (cases "tl (it_entry it)") auto
  then show ?thesis
    using assms by (auto simp: hash_iter_next_def Let_def iter_measure_def split: if_splits)
qed

text \<open>
  The loop \<open>while ((key = hash_iter_next(iter)))\<close> of the iterator's clients: the keys it sees, in
  order.
\<close>

function hash_iter_keys :: "'v hash_t \<Rightarrow> 'v hash_iterator_t \<Rightarrow> string list" where
  "hash_iter_keys t it =
     (case hash_iter_next t it of
        (None, _) \<Rightarrow> []
      | (Some k, it') \<Rightarrow> k # hash_iter_keys t it')"
  by pat_completeness auto
termination
  by (relation "measure (\<lambda>(t, it). iter_measure t it)") (auto dest: sym intro: hash_iter_next_measure)

declare hash_iter_keys.simps [simp del]

definition hash_keys :: "'v hash_t \<Rightarrow> string list" where
  "hash_keys t = hash_iter_keys t \<lparr>it_ref = 1, it_entry = [], it_index = - 1\<rparr>"

text \<open>What the iterator has still to deliver from bucket \<open>i\<close> on.\<close>

abbreviation buckets_from :: "'v chain list \<Rightarrow> nat \<Rightarrow> string list" where
  "buckets_from es i \<equiv> concat (map (map fst) (drop i (butlast es))) @ take 1 (map fst (last es))"

lemma find_bucket_rest:
  "i < length es \<Longrightarrow>
    (case find_bucket es i of
       (j, []) \<Rightarrow> buckets_from es i = []
     | (j, x # xs) \<Rightarrow> buckets_from es i =
         (if Suc j < length es then map fst (x # xs) @ buckets_from es (Suc j) else [fst x]))"
proof (induction es i rule: find_bucket.induct)
  case (1 es i)
  show ?case
  proof (cases "Suc i < length es")
    case True
    then have d: "drop i (butlast es) = es ! i # drop (Suc i) (butlast es)"
      by (metis Cons_nth_drop_Suc Suc_lessD length_butlast less_diff_conv nth_butlast plus_1_eq_Suc
          add.commute)
    show ?thesis
    proof (cases "es ! i")
      case Nil
      with 1 True show ?thesis
        by (simp add: find_bucket.simps [of es i] d)
    next
      case (Cons x xs)
      with True show ?thesis by (simp add: find_bucket.simps [of es i] d)
    qed
  next
    case False
    with "1.prems" have i: "i = length es - 1" by simp
    then have "drop i (butlast es) = []" "es ! i = last es"
      using "1.prems" last_conv_nth [of es] by (cases es; simp)+
    then show ?thesis
      using "1.prems" False
      by (cases "last es") (simp_all add: find_bucket.simps [of es i] find_bucket.simps [of es "Suc i"])
  qed
qed

lemma hash_iter_keys_from:
  assumes "h_entries t \<noteq> []"
  shows "hash_iter_keys t it =
    (if nat (it_index it + 1) \<ge> length (h_entries t) then []
     else map fst (tl (it_entry it)) @ buckets_from (h_entries t) (nat (it_index it + 1)))"
proof (induction t it rule: hash_iter_keys.induct)
  case (1 t it)
  let ?es = "h_entries t" and ?i = "nat (it_index it + 1)"
  show ?case
  proof (cases "?i \<ge> length ?es")
    case True
    then show ?thesis
      by (simp add: hash_iter_keys.simps [of t it] hash_iter_next_def Let_def find_bucket.simps)
  next
    case False
    show ?thesis
    proof (cases "tl (it_entry it)")
      case (Cons e es)
      then have n: "hash_iter_next t it = (Some (fst e), it\<lparr>it_entry := e # es\<rparr>)"
        using False by (simp add: hash_iter_next_def)
      show ?thesis
        using "1.IH" [OF n [symmetric] refl] False Cons
        by (simp add: hash_iter_keys.simps [of t it] n)
    next
      case Nil
      obtain j e where f: "find_bucket ?es ?i = (j, e)" by fastforce
      show ?thesis
      proof (cases e)
        case Nil2: Nil
        then show ?thesis
          using False Nil f find_bucket_rest [of ?i ?es]
          by (simp add: hash_iter_keys.simps [of t it] hash_iter_next_def)
      next
        case (Cons x xs)
        let ?it = "it\<lparr>it_index := int j, it_entry := x # xs\<rparr>"
        have n: "hash_iter_next t it = (Some (fst x), ?it)"
          using Nil f Cons by (cases x) (simp add: hash_iter_next_def)
        show ?thesis
          using "1.IH" [OF n [symmetric] refl] False Cons Nil f find_bucket_rest [of ?i ?es]
          by (auto simp: hash_iter_keys.simps [of t it] n nat_add_distrib)
      qed
    qed
  qed
qed

lemma hash_keys_eq:
  "h_entries t \<noteq> [] \<Longrightarrow> hash_keys t =
    concat (map (map fst) (butlast (h_entries t))) @ take 1 (map fst (last (h_entries t)))"
  by (simp add: hash_keys_def hash_iter_keys_from)

subsection \<open>The keys of a table\<close>

lemma dom_hash_map: "hash_ok t \<Longrightarrow> dom (hash_map t) = fst ` set (concat (h_entries t))"
proof (intro equalityI subsetI)
  fix k assume ok: "hash_ok t" and "k \<in> dom (hash_map t)"
  then obtain i v where "bucket_index t k = Some i" "map_of (h_entries t ! i) k = Some v"
    by (auto simp: hash_map_def split: option.splits)
  then show "k \<in> fst ` set (concat (h_entries t))"
    using bucket_index_bound [of t k i] by (force dest: map_of_SomeD nth_mem)
next
  fix k assume ok: "hash_ok t" and "k \<in> fst ` set (concat (h_entries t))"
  then obtain es where "es \<in> set (h_entries t)" and k: "k \<in> fst ` set es" by auto
  then obtain i where i: "i < length (h_entries t)" "h_entries t ! i = es"
    by (metis in_set_conv_nth)
  with k have "bucket_index t k = Some i" using hash_ok_bucket [OF ok] by blast
  moreover have "map_of es k \<noteq> None" using k by (simp add: map_of_eq_None_iff)
  ultimately show "k \<in> dom (hash_map t)" by (simp add: hash_map_def i dom_def)
qed

lemma distinct_concat_map_nth:
  "(\<And>i. i < length xss \<Longrightarrow> distinct (xss ! i)) \<Longrightarrow>
   (\<And>i j x. i < length xss \<Longrightarrow> j < length xss \<Longrightarrow> x \<in> set (xss ! i) \<Longrightarrow> x \<in> set (xss ! j) \<Longrightarrow> i = j) \<Longrightarrow>
   distinct (concat xss)"
proof (induction xss)
  case Nil
  then show ?case by simp
next
  case (Cons xs xss)
  have "distinct (concat xss)"
  proof (rule Cons.IH)
    show "distinct (xss ! i)" if "i < length xss" for i
      using Cons.prems(1) [of "Suc i"] that by simp
    show "i = j" if "i < length xss" "j < length xss" "x \<in> set (xss ! i)" "x \<in> set (xss ! j)" for i j x
      using Cons.prems(2) [of "Suc i" "Suc j" x] that by simp
  qed
  moreover have "set xs \<inter> set (concat xss) = {}"
  proof (rule ccontr)
    assume "set xs \<inter> set (concat xss) \<noteq> {}"
    then obtain x j where "x \<in> set xs" "j < length xss" "x \<in> set (xss ! j)"
      by (auto simp: in_set_conv_nth) (metis nth_mem)
    then show False using Cons.prems(2) [of 0 "Suc j" x] by simp
  qed
  ultimately show ?case using Cons.prems(1) [of 0] by simp
qed

lemma distinct_keys:
  assumes ok: "hash_ok t"
  shows "distinct (map fst (concat (h_entries t)))"
  unfolding map_concat
proof (rule distinct_concat_map_nth)
  show "distinct (map (map fst) (h_entries t) ! i)" if "i < length (map (map fst) (h_entries t))" for i
    using ok that by (simp add: hash_ok_def)
  show "i = j"
    if "i < length (map (map fst) (h_entries t))" "j < length (map (map fst) (h_entries t))"
      "k \<in> set (map (map fst) (h_entries t) ! i)" "k \<in> set (map (map fst) (h_entries t) ! j)" for i j k
  proof -
    have "bucket_index t k = Some i" "bucket_index t k = Some j"
      using that by (auto intro!: hash_ok_bucket [OF ok])
    then show ?thesis by simp
  qed
qed

text \<open>A key list that misses nothing: the last chain has at most one entry.\<close>

lemma hash_keys_split:
  assumes "hash_ok t"
  shows "map fst (concat (h_entries t)) = hash_keys t @ drop 1 (map fst (last (h_entries t)))"
proof -
  have ne: "h_entries t \<noteq> []" using assms by (simp add: hash_ok_def)
  have "map fst (concat (h_entries t)) =
      concat (map (map fst) (butlast (h_entries t))) @ map fst (last (h_entries t))"
    by (metis append_butlast_last_id concat_append concat.simps append_Nil2 map_append map_concat ne)
  then show ?thesis
    by (simp add: hash_keys_eq [OF ne])
qed

lemma hash_keys_complete:
  assumes "hash_ok t" and "length (last (h_entries t)) \<le> 1"
  shows "hash_keys t = map fst (concat (h_entries t))"
  using hash_keys_split [OF assms(1)] assms(2) by simp

subsection \<open>The interface of string maps\<close>

text \<open>
  What the clients (stanza attributes, the SASL challenge, the id handlers) rely on.  The
  operations may fail to allocate; then \<open>put\<close> returns an error and the key is unbound.
\<close>

locale string_map =
  fixes invar :: "'t \<Rightarrow> bool" and keys_ok :: "'t \<Rightarrow> string \<Rightarrow> bool"
    and amap :: "'t \<Rightarrow> string \<rightharpoonup> 'v"
    and get :: "'t \<Rightarrow> string \<Rightarrow> 'v option option"
    and put :: "mem \<Rightarrow> 't \<Rightarrow> string \<Rightarrow> 'v \<Rightarrow> (int \<times> 't \<times> 'v list \<times> mem) option"
    and del :: "'t \<Rightarrow> string \<Rightarrow> (int \<times> 't \<times> 'v list) option"
  assumes get_amap: "keys_ok t k \<Longrightarrow> get t k = Some (amap t k)"
    and put_law: "invar t \<Longrightarrow> keys_ok t k \<Longrightarrow>
      \<exists>r t' freed m'. put m t k v = Some (r, t', freed, m') \<and> invar t' \<and> keys_ok t' = keys_ok t \<and>
        amap t' = (if r = 0 then (amap t)(k \<mapsto> v) else (amap t)(k := None)) \<and>
        (m = [] \<longrightarrow> r = 0 \<and> m' = [])"
    and del_law: "invar t \<Longrightarrow> keys_ok t k \<Longrightarrow>
      \<exists>r t' freed. del t k = Some (r, t', freed) \<and> invar t' \<and> keys_ok t' = keys_ok t \<and>
        amap t' = (amap t)(k := None)"
    and ascii_ok: "invar t \<Longrightarrow> ascii k \<Longrightarrow> keys_ok t k"

text \<open>Storing a list of pairs in order, with an allocator that does not fail.\<close>

fun put_all :: "(mem \<Rightarrow> 't \<Rightarrow> string \<Rightarrow> 'v \<Rightarrow> (int \<times> 't \<times> 'v list \<times> mem) option) \<Rightarrow>
    't \<Rightarrow> (string \<times> 'v) list \<Rightarrow> 't option" where
  "put_all put t [] = Some t"
| "put_all put t ((k, v) # kvs) =
     Option.bind (put [] t k v) (\<lambda>(r, t', freed, m'). put_all put t' kvs)"

context string_map
begin

lemma get_put:
  assumes "invar t" "keys_ok t k" "keys_ok t k'" "put [] t k v = Some (r, t', freed, m')"
  shows "get t' k' = (if k' = k then Some (Some v) else get t k')"
  using put_law [OF assms(1,2), of "[]" v] assms get_amap [of t' k'] get_amap [of t k'] by auto

lemma get_del:
  assumes "invar t" "keys_ok t k" "keys_ok t k'" "del t k = Some (r, t', freed)"
  shows "get t' k' = (if k' = k then Some None else get t k')"
  using del_law [OF assms(1,2)] assms get_amap [of t' k'] get_amap [of t k'] by auto

lemma put_all_amap:
  assumes "invar t" "\<forall>k \<in> fst ` set kvs. keys_ok t k"
  shows "\<exists>t'. put_all put t kvs = Some t' \<and> invar t' \<and> keys_ok t' = keys_ok t \<and>
    amap t' = amap t ++ map_of (rev kvs)"
  using assms
proof (induction kvs arbitrary: t)
  case Nil
  then show ?case by simp
next
  case (Cons kv kvs)
  obtain k v where kv: "kv = (k, v)" by (cases kv)
  from put_law [of t k "[]" v] Cons.prems obtain t1 freed where
    t1: "put [] t k v = Some (0, t1, freed, [])" "invar t1" "keys_ok t1 = keys_ok t"
      "amap t1 = (amap t)(k \<mapsto> v)"
    by (auto simp: kv)
  have "\<forall>k \<in> fst ` set kvs. keys_ok t1 k" using Cons.prems t1(3) by simp
  from Cons.IH [OF t1(2) this] obtain t' where
    "put_all put t1 kvs = Some t'" "invar t'" "keys_ok t' = keys_ok t1"
      "amap t' = amap t1 ++ map_of (rev kvs)" by blast
  moreover have "amap t1 ++ map_of (rev kvs) = amap t ++ map_of (rev (kv # kvs))"
    by (simp only: t1(4) kv rev.simps map_of_append)
      (auto simp: fun_eq_iff map_add_def split: option.splits)
  ultimately show ?case by (simp add: kv t1(1,3))
qed

end

interpretation table: string_map hash_ok key_ok hash_map hash_get hash_add hash_drop
proof unfold_locales
  show "hash_get t k = Some (hash_map t k)" if "key_ok t k" for t :: "'v hash_t" and k
    using that by (rule hash_get_map)
  show "\<exists>r t' freed m'. hash_add m t k v = Some (r, t', freed, m') \<and> hash_ok t' \<and> key_ok t' = key_ok t \<and>
      hash_map t' = (if r = 0 then (hash_map t)(k \<mapsto> v) else (hash_map t)(k := None)) \<and>
      (m = [] \<longrightarrow> r = 0 \<and> m' = [])"
    if "hash_ok t" "key_ok t k" for m and t :: "'v hash_t" and k v
  proof -
    from hash_add_spec [OF that, of m v] obtain r t' freed m' where
      "hash_add m t k v = Some (r, t', freed, m')" "hash_ok t'" "key_ok t' = key_ok t"
        "hash_map t' = (if r = 0 then (hash_map t)(k \<mapsto> v) else (hash_map t)(k := None))"
        "m = [] \<longrightarrow> r = 0 \<and> m' = []"
      by (smt (verit) one_neq_zero neg_equal_0_iff_equal)
    then show ?thesis by blast
  qed
  show "\<exists>r t' freed. hash_drop t k = Some (r, t', freed) \<and> hash_ok t' \<and> key_ok t' = key_ok t \<and>
      hash_map t' = (hash_map t)(k := None)"
    if "hash_ok t" "key_ok t k" for t :: "'v hash_t" and k
    using hash_drop_spec [OF that] by auto
  show "key_ok t k" if "hash_ok t" "ascii k" for t :: "'v hash_t" and k
    using that by (rule hash_key_ascii)
qed

subsection \<open>Properties\<close>

text \<open>Claim C17. \<open>hash_add\<close> implements map update: on a well-formed table and a key whose
  bucket lies inside the array it is defined for every answer of the allocator, keeps the table
  well-formed, hands exactly the replaced value to the free function, and afterwards the key has the
  new value (result 0) or no value at all (result -1: the old entry is dropped before the
  allocation fails), every other key being untouched.\<close>

theorem hash_add_refines:
  assumes "hash_ok t" and "key_ok t k"
  shows "\<exists>r t' freed m'. hash_add m t k v = Some (r, t', freed, m') \<and> hash_ok t' \<and>
    (r = 0 \<or> r = - 1) \<and> (m = [] \<longrightarrow> r = 0) \<and>
    freed = (if h_free t then (case hash_map t k of None \<Rightarrow> [] | Some old \<Rightarrow> [old]) else []) \<and>
    (\<forall>k'. key_ok t k' \<longrightarrow>
      hash_get t' k' = (if k' = k then Some (if r = 0 then Some v else None) else hash_get t k'))"
proof -
  from hash_add_spec [OF assms, of m v] obtain r t' freed m' where
    a: "hash_add m t k v = Some (r, t', freed, m')" "hash_ok t'" "key_ok t' = key_ok t"
      "r = 0 \<and> hash_map t' = (hash_map t)(k \<mapsto> v) \<or> r = - 1 \<and> hash_map t' = (hash_map t)(k := None)"
      "m = [] \<longrightarrow> r = 0"
      "freed = (if h_free t then (case hash_map t k of None \<Rightarrow> [] | Some old \<Rightarrow> [old]) else [])"
    by blast
  have "hash_get t' k' = (if k' = k then Some (if r = 0 then Some v else None) else hash_get t k')"
    if "key_ok t k'" for k'
    using that a(3,4) hash_get_map [of t' k'] hash_get_map [of t k'] by auto
  with a show ?thesis by blast
qed

theorem hash_add_refines_witness:
  "\<exists>t :: nat hash_t. fst (hash_new [] 8 True) = Some t \<and> hash_ok t \<and> key_ok t ''id'' \<and>
    (\<exists>r t' freed m'. hash_add [True, False] t ''id'' 5 = Some (r, t', freed, m') \<and> hash_ok t' \<and>
      (r = 0 \<or> r = - 1))"
proof -
  let ?t = "fresh_table 8 True :: nat hash_t"
  have n: "hash_new [] 8 True = (Some ?t, [])" by simp
  have ok: "hash_ok ?t" by (rule fresh_table_ok) simp
  have k: "key_ok ?t ''id''" by (rule hash_key_ascii [OF ok]) simp
  show ?thesis
    using n ok k hash_add_refines [OF ok k, of "[True, False]" 5] by fastforce
qed

text \<open>\<open>hash_drop\<close> implements map deletion, returns 0 exactly when the key was
  bound, releases the removed value exactly once, and the key count follows.\<close>

theorem hash_drop_refines:
  assumes "hash_ok t" and "key_ok t k"
  shows "\<exists>r t' freed. hash_drop t k = Some (r, t', freed) \<and> hash_ok t' \<and>
    hash_map t' = (hash_map t)(k := None) \<and>
    (r = 0 \<longleftrightarrow> k \<in> dom (hash_map t)) \<and>
    freed = (if h_free t then (case hash_map t k of None \<Rightarrow> [] | Some old \<Rightarrow> [old]) else []) \<and>
    hash_num_keys t' = hash_num_keys t - (if r = 0 then 1 else 0)"
proof -
  from hash_drop_spec [OF assms] obtain r t' freed where
    d: "hash_drop t k = Some (r, t', freed)" "hash_ok t'" "hash_map t' = (hash_map t)(k := None)"
      "r = (if hash_map t k = None then - 1 else 0)"
      "freed = (if h_free t then (case hash_map t k of None \<Rightarrow> [] | Some v \<Rightarrow> [v]) else [])"
    by blast
  have "h_num_keys t' = h_num_keys t - (if r = 0 then 1 else 0)"
    using d(1) by (auto simp: hash_drop_def c_simps split: option.splits)
  with d show ?thesis by (auto simp: hash_num_keys_def)
qed

theorem hash_drop_refines_witness:
  "\<exists>t :: nat hash_t. hash_ok t \<and> key_ok t ''id'' \<and>
    (\<exists>r t' freed. hash_drop t ''id'' = Some (r, t', freed) \<and> hash_ok t')"
proof -
  let ?t = "fresh_table 8 True :: nat hash_t"
  have ok: "hash_ok ?t" by (rule fresh_table_ok) simp
  have k: "key_ok ?t ''id''" by (rule hash_key_ascii [OF ok]) simp
  show ?thesis using ok k hash_drop_refines [OF ok k] by blast
qed

text \<open>Claim C18. The operations read outside the entry array exactly when the 32-bit hash of the
  key is negative and not a multiple of the table length: the remainder of C is then negative.
  Keys of ASCII characters are safe; a key such as the single byte 0xE9 is not.\<close>

theorem hash_get_undefined_iff:
  assumes "hash_ok t"
  shows "(hash_get t k = None \<longleftrightarrow>
      sint (hash_loop 0 0 k) < 0 \<and> \<not> h_length t dvd sint (hash_loop 0 0 k)) \<and>
    (ascii k \<longrightarrow> hash_get t k \<noteq> None) \<and>
    (h_length t = 32 \<longrightarrow> hash_get t [CHR 0xE9] = None)"
proof -
  have l: "0 < h_length t" "h_length t = int (length (h_entries t))"
    using assms by (auto simp: hash_ok_def)
  have neg: "c_rem a (h_length t) < 0 \<longleftrightarrow> a < 0 \<and> \<not> h_length t dvd a" for a
  proof -
    have "0 \<le> \<bar>a\<bar> mod h_length t" using l by simp
    moreover have "\<bar>a\<bar> mod h_length t = 0 \<longleftrightarrow> h_length t dvd a"
      by (metis dvd_abs_iff dvd_eq_mod_eq_0)
    ultimately have "0 < \<bar>a\<bar> mod h_length t \<longleftrightarrow> \<not> h_length t dvd a"
      by linarith
    then show ?thesis
      using l by (cases a "0::int" rule: linorder_cases) (auto simp: c_rem_def not_less)
  qed
  have "key_ok t k \<longleftrightarrow> \<not> c_rem (sint (hash_loop 0 0 k)) (h_length t) < 0" for k
    using c_rem_bounds [OF l(1), of "sint (hash_loop 0 0 k)"] l
    by (auto simp: key_ok_def bucket_index_def hash_key_def)
  then have iff: "hash_get t k = None \<longleftrightarrow>
      sint (hash_loop 0 0 k) < 0 \<and> \<not> h_length t dvd sint (hash_loop 0 0 k)" for k
    using neg by (cases "key_ok t k") (auto simp: hash_get_map hash_get_undefined)
  have "sint (hash_loop 0 0 [CHR 0xE9]) = - 23"
    by (simp add: schar_def)
  then have "h_length t = 32 \<longrightarrow> hash_get t [CHR 0xE9] = None"
    by (simp add: iff)
  moreover have "ascii k \<longrightarrow> hash_get t k \<noteq> None"
    using hash_key_ascii [OF assms] hash_get_map by fastforce
  ultimately show ?thesis using iff by blast
qed

theorem hash_get_undefined_iff_witness:
  "\<exists>t :: nat hash_t. hash_ok t \<and> h_length t = 32 \<and> hash_get t [CHR 0xE9] = None"
proof -
  let ?t = "fresh_table 32 False :: nat hash_t"
  have ok: "hash_ok ?t" by (rule fresh_table_ok) simp
  show ?thesis using ok hash_get_undefined_iff [OF ok, of "[]"] by auto
qed

text \<open>Claim C19. What the iterator delivers: distinct bound keys only, but all of them exactly when
  the last chain has at most one entry.  In the last bucket \<open>i = iter->index + 1\<close> equals the
  table length, so \<open>hash_iter_next\<close> stops after the first entry of that chain.\<close>

theorem hash_iter_complete_iff:
  assumes "hash_ok t"
  shows "distinct (hash_keys t) \<and> set (hash_keys t) \<subseteq> dom (hash_map t) \<and>
    (set (hash_keys t) = dom (hash_map t) \<longleftrightarrow> length (last (h_entries t)) \<le> 1)"
proof -
  let ?rest = "drop 1 (map fst (last (h_entries t)))"
  have "distinct (hash_keys t @ ?rest)"
    using distinct_keys [OF assms] by (simp only: hash_keys_split [OF assms])
  then have d: "distinct (hash_keys t)" "set (hash_keys t) \<inter> set ?rest = {}" by simp_all
  have "dom (hash_map t) = set (map fst (concat (h_entries t)))"
    using dom_hash_map [OF assms] by (simp only: set_map)
  then have s: "dom (hash_map t) = set (hash_keys t) \<union> set ?rest"
    by (simp only: hash_keys_split [OF assms] set_append)
  have "set ?rest = {} \<longleftrightarrow> length (last (h_entries t)) \<le> 1"
    by (simp only: set_empty) simp
  moreover have "set (hash_keys t) = dom (hash_map t) \<longleftrightarrow> set ?rest = {}"
    using d(2) unfolding s by (metis Un_empty_right Un_Int_eq(2) inf_commute)
  ultimately show ?thesis using d(1) s by simp
qed

text \<open>Two attributes of one stanza that meet in the last of its eight buckets.\<close>

definition two_in_last :: "string hash_t" where
  "two_in_last = (fresh_table 8 True)\<lparr>h_entries := (replicate 8 [])
     [7 := [(''width'', ''1''), (''version'', ''2'')]], h_num_keys := 2\<rparr>"

lemma two_in_last_ok: "hash_ok two_in_last"
proof -
  let ?t = "fresh_table 8 True :: string hash_t"
  have b: "bucket_index ?t ''width'' = Some 7" "bucket_index ?t ''version'' = Some 7"
    by (simp_all add: bucket_index_def hash_key_def schar_def c_rem_def Let_def)
  show ?thesis
    unfolding two_in_last_def
    using hash_okI_update [OF fresh_table_ok, of 8 7 True "[(''width'', ''1''), (''version'', ''2'')]" 2] b
    by simp
qed

theorem hash_iter_complete_iff_witness:
  "hash_ok two_in_last \<and> hash_keys two_in_last = [''width''] \<and>
    set (hash_keys two_in_last) \<noteq> dom (hash_map two_in_last)"
proof -
  have "(replicate 8 [])[7 := x] = replicate 7 [] @ [x]" for x :: "string chain"
    by (simp add: numeral_eq_Suc)
  then have e: "h_entries two_in_last = replicate 7 [] @ [[(''width'', ''1''), (''version'', ''2'')]]"
    by (simp add: two_in_last_def)
  then have "hash_keys two_in_last = [''width'']"
    by (simp add: hash_keys_eq)
  moreover have "\<not> length (last (h_entries two_in_last)) \<le> 1"
    by (simp add: e)
  ultimately show ?thesis
    using two_in_last_ok hash_iter_complete_iff [OF two_in_last_ok] by blast
qed

text \<open>Reference counting: cloning and releasing cancel out without freeing anything, and
  the release of the last reference frees the table, handing every stored value to the free function
  exactly once.\<close>

theorem hash_release_frees:
  assumes "hash_ok t" and "0 < h_ref t"
  shows "hash_release (hash_clone t) = (Some t, []) \<and>
    (h_ref t = 1 \<and> h_free t \<longrightarrow>
      fst (hash_release t) = None \<and>
      int (length (snd (hash_release t))) = hash_num_keys t \<and>
      set (snd (hash_release t)) = ran (hash_map t))"
proof -
  have "ran (hash_map t) = snd ` set (concat (h_entries t))"
  proof (intro equalityI subsetI)
    fix v assume "v \<in> ran (hash_map t)"
    then obtain k i where "bucket_index t k = Some i" "map_of (h_entries t ! i) k = Some v"
      by (auto simp: ran_def hash_map_def split: option.splits)
    then show "v \<in> snd ` set (concat (h_entries t))"
      using bucket_index_bound [of t k i] by (force dest: map_of_SomeD nth_mem)
  next
    fix v assume "v \<in> snd ` set (concat (h_entries t))"
    then obtain es k where "es \<in> set (h_entries t)" and e: "(k, v) \<in> set es" by auto
    then obtain i where i: "i < length (h_entries t)" "h_entries t ! i = es"
      by (metis in_set_conv_nth)
    then have "distinct (map fst es)" "bucket_index t k = Some i"
      using assms(1) e hash_ok_bucket [OF assms(1), of i k] by (force simp: hash_ok_def)+
    then have "hash_map t k = Some v"
      using e i by (simp add: hash_map_def)
    then show "v \<in> ran (hash_map t)" by (auto simp: ran_def)
  qed
  then show ?thesis
    using assms
    by (auto simp: hash_release_def hash_clone_def hash_num_keys_def hash_ok_def length_concat
        comp_def image_iff)
qed

theorem hash_release_frees_witness:
  "hash_ok two_in_last \<and> 0 < h_ref two_in_last \<and>
    hash_release (hash_clone two_in_last) = (Some two_in_last, [])"
  using two_in_last_ok hash_release_frees [OF two_in_last_ok]
  by (auto simp: two_in_last_def)

end
