(* ===== verification/Snprintf.thy ===== *)
theory Snprintf
  imports Prelude
begin

section \<open>Formatted output (snprintf.c)\<close>

text \<open>
  Models \<open>src/snprintf.c\<close>, the library's own \<open>snprintf\<close>.  Which characters are produced does not
  depend on the buffer, so the model has two layers: \<open>dopr_loop\<close> is the state machine of \<open>dopr\<close>
  and yields the characters in the order in which they are handed to \<open>dopr_outch\<close> (\<open>fmtstr\<close> and
  \<open>fmtint\<close> give the characters of one conversion), and \<open>dopr\<close> writes them into the buffer and adds
  the terminator.  The conversion of numbers with a point is the theory \<open>Fmtfp\<close>; the store of \<open>%n\<close> is not
  modelled.  Widths and precisions are unbounded integers.
\<close>

subsection \<open>Characters and flags\<close>

record dp_flags =
  DP_F_MINUS :: bool
  DP_F_PLUS :: bool
  DP_F_SPACE :: bool
  DP_F_NUM :: bool
  DP_F_ZERO :: bool
  DP_F_UP :: bool
  DP_F_UNSIGNED :: bool

definition no_flags :: dp_flags where
  "no_flags = \<lparr> DP_F_MINUS = False, DP_F_PLUS = False, DP_F_SPACE = False, DP_F_NUM = False,
     DP_F_ZERO = False, DP_F_UP = False, DP_F_UNSIGNED = False \<rparr>"

text \<open>
  What \<open>va_arg\<close> delivers; asking for another type than the one passed is undefined.  As the arithmetic of the machine is a
  parameter, a number with a point stands for what \<open>fmtfp\<close> makes of it, given the width, the precision and the flags: it
  is \<open>VDouble (fmtfp fl v)\<close>.
\<close>

datatype va_arg = VInt int | VLong int | VUInt nat | VULong nat | VStr "string option" | VPtr int
  | VDouble "int \<Rightarrow> int \<Rightarrow> dp_flags \<Rightarrow> string option"

datatype dp_cflags = DP_C_NONE | DP_C_SHORT | DP_C_LONG | DP_C_LDOUBLE

datatype dp_state = DP_S_DEFAULT | DP_S_FLAGS | DP_S_MIN | DP_S_DOT | DP_S_MAX | DP_S_MOD | DP_S_CONV

definition is_digit :: "char \<Rightarrow> bool" where
  "is_digit c \<longleftrightarrow> c \<in> set ''0123456789''"

definition char_to_int :: "char \<Rightarrow> int" where
  "char_to_int c = schar c - 48"

subsection \<open>One conversion\<close>

definition fmtstr :: "string option \<Rightarrow> dp_flags \<Rightarrow> int \<Rightarrow> int \<Rightarrow> string" where
  "fmtstr value flags mn mx =
     (let value = (case value of None \<Rightarrow> ''<NULL>'' | Some v \<Rightarrow> v);
          strln = int (length value);
          strln = (if 0 \<le> mx \<and> mx < strln then mx else strln);
          padlen = mn - strln;
          padlen = (if padlen < 0 then 0 else padlen);
          padlen = (if DP_F_MINUS flags then - padlen else padlen)
      in replicate (nat padlen) CHR '' '' @
         (if mx < 0 then value else take (nat mx) value) @
         replicate (nat (- padlen)) CHR '' '')"

text \<open>The digits, least significant first; \<open>k\<close> is the room left in the array of 20 characters.\<close>

fun fmt_digits :: "nat \<Rightarrow> bool \<Rightarrow> nat \<Rightarrow> nat \<Rightarrow> string" where
  "fmt_digits 0 caps base u = []"
| "fmt_digits (Suc k) caps base u =
     (if caps then ''0123456789ABCDEF'' else ''0123456789abcdef'') ! (u mod base) #
     (if u div base \<noteq> 0 then fmt_digits k caps base (u div base) else [])"

definition fmtint :: "int \<Rightarrow> nat \<Rightarrow> int \<Rightarrow> int \<Rightarrow> dp_flags \<Rightarrow> string" where
  "fmtint value base mn mx flags =
     (let mx = (if mx < 0 then 0 else mx);
          neg = (\<not> DP_F_UNSIGNED flags \<and> value < 0);
          uvalue = nat ((if neg then - value else value) mod 2 ^ 64);
          signvalue = (if DP_F_UNSIGNED flags then []
             else if value < 0 then ''-'' else if DP_F_PLUS flags then ''+''
             else if DP_F_SPACE flags then '' '' else []);
          convert = fmt_digits 20 (DP_F_UP flags) base uvalue;
          convert = (if length convert = 20 then butlast convert else convert);
          place = int (length convert);
          zpadlen = mx - place;
          spadlen = mn - max mx place - int (length signvalue);
          zpadlen = (if zpadlen < 0 then 0 else zpadlen);
          spadlen = (if spadlen < 0 then 0 else spadlen);
          (zpadlen, spadlen) = (if DP_F_ZERO flags then (max zpadlen spadlen, 0) else (zpadlen, spadlen));
          spadlen = (if DP_F_MINUS flags then - spadlen else spadlen)
      in replicate (nat spadlen) CHR '' '' @ signvalue @ replicate (nat zpadlen) CHR ''0'' @
         rev convert @ replicate (nat (- spadlen)) CHR '' '')"

text \<open>The integer argument of a conversion, converted to \<open>long\<close>.\<close>

fun arg_signed :: "dp_cflags \<Rightarrow> va_arg \<Rightarrow> int option" where
  "arg_signed DP_C_LONG (VLong v) = Some v"
| "arg_signed DP_C_LONG _ = None"
| "arg_signed _ (VInt v) = Some v"
| "arg_signed _ _ = None"

fun arg_unsigned :: "dp_cflags \<Rightarrow> va_arg \<Rightarrow> int option" where
  "arg_unsigned DP_C_SHORT (VInt v) = Some v"
| "arg_unsigned DP_C_LONG (VULong v) = Some (int v)"
| "arg_unsigned DP_C_NONE (VUInt v) = Some (int v)"
| "arg_unsigned DP_C_LDOUBLE (VUInt v) = Some (int v)"
| "arg_unsigned _ _ = None"

text \<open>The conversions of \<open>DP_S_CONV\<close>: the characters put out and the arguments left.\<close>

definition dopr_conv ::
    "char \<Rightarrow> dp_flags \<Rightarrow> dp_cflags \<Rightarrow> int \<Rightarrow> int \<Rightarrow> va_arg list \<Rightarrow> (string \<times> va_arg list) option" where
  "dopr_conv ch flags cflags mn mx args =
     (if ch \<in> set ''di'' then
        (case args of a # args \<Rightarrow> map_option (\<lambda>v. (fmtint v 10 mn mx flags, args)) (arg_signed cflags a)
         | [] \<Rightarrow> None)
      else if ch \<in> set ''ouXx'' then
        (case args of a # args \<Rightarrow>
           map_option (\<lambda>v. (fmtint v (if ch = CHR ''o'' then 8 else if ch = CHR ''u'' then 10 else 16) mn mx
             (flags\<lparr>DP_F_UNSIGNED := True, DP_F_UP := (DP_F_UP flags \<or> ch = CHR ''X'')\<rparr>), args))
             (arg_unsigned cflags a)
         | [] \<Rightarrow> None)
      else if ch = CHR ''f'' then
        (case args of VDouble fp # args \<Rightarrow> map_option (\<lambda>s. (s, args)) (fp mn mx flags) | _ \<Rightarrow> None)
      else if ch \<in> set ''EeGg'' then (case args of VDouble fp # args \<Rightarrow> Some ([], args) | _ \<Rightarrow> None)
      else if ch = CHR ''c'' then (case args of VInt v # args \<Rightarrow> Some ([char_of (nat (v mod 256))], args) | _ \<Rightarrow> None)
      else if ch = CHR ''s'' then (case args of VStr v # args \<Rightarrow> Some (fmtstr v flags mn mx, args) | _ \<Rightarrow> None)
      else if ch = CHR ''p'' then (case args of VPtr v # args \<Rightarrow> Some (fmtint v 16 mn mx flags, args) | _ \<Rightarrow> None)
      else if ch = CHR ''n'' then (case args of VPtr v # args \<Rightarrow> Some ([], args) | _ \<Rightarrow> None)
      else if ch = CHR ''%'' then Some (''%'', args)
      else Some ([], args))"

subsection \<open>The state machine over the format\<close>

text \<open>
  The format string begins at \<open>ch\<close>; the empty string means that \<open>ch\<close> is the terminator, which ends
  the loop in every state.  After \<open>%w\<close> two characters are taken, so \<open>%w\<close> at the end of a format
  reads past its terminator.
\<close>

fun state_rank :: "dp_state \<Rightarrow> nat" where
  "state_rank DP_S_DEFAULT = 0"
| "state_rank DP_S_CONV = 1"
| "state_rank DP_S_MOD = 2"
| "state_rank DP_S_MAX = 3"
| "state_rank DP_S_DOT = 4"
| "state_rank DP_S_MIN = 5"
| "state_rank DP_S_FLAGS = 6"

function dopr_loop ::
    "dp_state \<Rightarrow> string \<Rightarrow> dp_flags \<Rightarrow> dp_cflags \<Rightarrow> int \<Rightarrow> int \<Rightarrow> va_arg list \<Rightarrow> string option" where
  "dopr_loop st [] flags cflags mn mx args = Some []"
| "dopr_loop DP_S_DEFAULT (ch # fmt) flags cflags mn mx args =
     (if ch = CHR ''%'' then dopr_loop DP_S_FLAGS fmt flags cflags mn mx args
      else map_option (Cons ch) (dopr_loop DP_S_DEFAULT fmt flags cflags mn mx args))"
| "dopr_loop DP_S_FLAGS (ch # fmt) flags cflags mn mx args =
     (if ch = CHR ''-'' then dopr_loop DP_S_FLAGS fmt (flags\<lparr>DP_F_MINUS := True\<rparr>) cflags mn mx args
      else if ch = CHR ''+'' then dopr_loop DP_S_FLAGS fmt (flags\<lparr>DP_F_PLUS := True\<rparr>) cflags mn mx args
      else if ch = CHR '' '' then dopr_loop DP_S_FLAGS fmt (flags\<lparr>DP_F_SPACE := True\<rparr>) cflags mn mx args
      else if ch = CHR ''#'' then dopr_loop DP_S_FLAGS fmt (flags\<lparr>DP_F_NUM := True\<rparr>) cflags mn mx args
      else if ch = CHR ''0'' then dopr_loop DP_S_FLAGS fmt (flags\<lparr>DP_F_ZERO := True\<rparr>) cflags mn mx args
      else dopr_loop DP_S_MIN (ch # fmt) flags cflags mn mx args)"
| "dopr_loop DP_S_MIN (ch # fmt) flags cflags mn mx args =
     (if is_digit ch then dopr_loop DP_S_MIN fmt flags cflags (10 * mn + char_to_int ch) mx args
      else if ch = CHR ''*'' then
        (case args of VInt v # args \<Rightarrow> dopr_loop DP_S_DOT fmt flags cflags v mx args | _ \<Rightarrow> None)
      else dopr_loop DP_S_DOT (ch # fmt) flags cflags mn mx args)"
| "dopr_loop DP_S_DOT (ch # fmt) flags cflags mn mx args =
     (if ch = CHR ''.'' then dopr_loop DP_S_MAX fmt flags cflags mn mx args
      else dopr_loop DP_S_MOD (ch # fmt) flags cflags mn mx args)"
| "dopr_loop DP_S_MAX (ch # fmt) flags cflags mn mx args =
     (if is_digit ch then
        dopr_loop DP_S_MAX fmt flags cflags mn (10 * (if mx < 0 then 0 else mx) + char_to_int ch) args
      else if ch = CHR ''*'' then
        (case args of VInt v # args \<Rightarrow> dopr_loop DP_S_MOD fmt flags cflags mn v args | _ \<Rightarrow> None)
      else dopr_loop DP_S_MOD (ch # fmt) flags cflags mn mx args)"
| "dopr_loop DP_S_MOD (ch # fmt) flags cflags mn mx args =
     (if ch = CHR ''h'' then dopr_loop DP_S_CONV fmt flags DP_C_SHORT mn mx args
      else if ch = CHR ''l'' then dopr_loop DP_S_CONV fmt flags DP_C_LONG mn mx args
      else if ch = CHR ''L'' then dopr_loop DP_S_CONV fmt flags DP_C_LDOUBLE mn mx args
      else dopr_loop DP_S_CONV (ch # fmt) flags cflags mn mx args)"
| "dopr_loop DP_S_CONV (ch # fmt) flags cflags mn mx args =
     (case dopr_conv ch flags cflags mn mx args of
        None \<Rightarrow> None
      | Some (out, args) \<Rightarrow>
          (case (if ch = CHR ''w'' then (case fmt of [] \<Rightarrow> None | _ # f \<Rightarrow> Some f) else Some fmt) of
             None \<Rightarrow> None
           | Some f \<Rightarrow> map_option (append out) (dopr_loop DP_S_DEFAULT f no_flags DP_C_NONE 0 (- 1) args)))"
  by pat_completeness auto
termination
  by (relation "measures [\<lambda>(st, fmt, _). length fmt, \<lambda>(st, fmt, _). state_rank st]")
    (auto split: if_splits list.splits)

text \<open>The characters of a call.\<close>

definition dopr_text :: "string \<Rightarrow> va_arg list \<Rightarrow> string option" where
  "dopr_text fmt args = dopr_loop DP_S_DEFAULT fmt no_flags DP_C_NONE 0 (- 1) args"

subsection \<open>Writing into the buffer\<close>

abbreviation NUL :: char where "NUL \<equiv> CHR 0x00"

definition dopr_outch :: "string option \<Rightarrow> nat \<Rightarrow> nat \<Rightarrow> char \<Rightarrow> (string option \<times> nat) option" where
  "dopr_outch buffer currlen maxlen c =
     (if currlen + 1 < maxlen then do {
        b \<leftarrow> buffer;
        b \<leftarrow> wr b currlen c;
        Some (Some b, currlen + 1) }
      else Some (buffer, currlen))"

fun dopr_outs :: "string option \<Rightarrow> nat \<Rightarrow> nat \<Rightarrow> string \<Rightarrow> (string option \<times> nat) option" where
  "dopr_outs buffer currlen maxlen [] = Some (buffer, currlen)"
| "dopr_outs buffer currlen maxlen (c # cs) = do {
     (buffer, currlen) \<leftarrow> dopr_outch buffer currlen maxlen c;
     dopr_outs buffer currlen maxlen cs }"

text \<open>\<open>maxlen - 1\<close> is computed in \<open>size_t\<close>.\<close>

definition size_pred :: "nat \<Rightarrow> nat" where
  "size_pred n = (if n = 0 then 2 ^ 64 - 1 else n - 1)"

definition dopr :: "string option \<Rightarrow> nat \<Rightarrow> string \<Rightarrow> va_arg list \<Rightarrow> (int \<times> string option) option" where
  "dopr buffer maxlen fmt args = do {
     text \<leftarrow> dopr_text fmt args;
     (buffer, currlen) \<leftarrow> dopr_outs buffer 0 maxlen text;
     buffer \<leftarrow> (case buffer of None \<Rightarrow> Some None
       | Some b \<Rightarrow> map_option Some (wr b (if currlen < size_pred maxlen then currlen else size_pred maxlen) NUL));
     Some (int (length text), buffer) }"

definition xmpp_vsnprintf :: "string option \<Rightarrow> nat \<Rightarrow> string \<Rightarrow> va_arg list \<Rightarrow> (int \<times> string option) option" where
  "xmpp_vsnprintf str count fmt args = do {
     str \<leftarrow> (case str of None \<Rightarrow> Some None | Some b \<Rightarrow> map_option Some (wr b 0 NUL));
     dopr str count fmt args }"

definition xmpp_snprintf :: "string option \<Rightarrow> nat \<Rightarrow> string \<Rightarrow> va_arg list \<Rightarrow> (int \<times> string option) option" where
  "xmpp_snprintf str count fmt args = xmpp_vsnprintf str count fmt args"

subsection \<open>The formats of the library\<close>

lemma dopr_formats:
  "dopr_text ''%s'' [VStr (Some s)] = Some s"
  "dopr_text ''<%s'' [VStr (Some s)] = Some (''<'' @ s)"
  "dopr_text '' %s=\"%s\"'' [VStr (Some k), VStr (Some v)] = Some ('' '' @ k @ ''=\"'' @ v @ ''\"'')"
  "dopr_text ''/>'' [] = Some ''/>''" "dopr_text ''>'' [] = Some ''>''"
  "dopr_text ''</%s>'' [VStr (Some s)] = Some (''</'' @ s @ ''>'')"
  by (simp_all add: dopr_text_def dopr_conv_def fmtstr_def no_flags_def is_digit_def Let_def)

subsection \<open>The buffer\<close>

lemma dopr_outs_full: "maxlen \<le> cur + 1 \<Longrightarrow> dopr_outs buffer cur maxlen t = Some (buffer, cur)"
  by (induction t) (simp_all add: dopr_outch_def)

lemma dopr_outs_buffer:
  "cur < maxlen \<Longrightarrow> maxlen \<le> length b \<Longrightarrow> k = min (length t) (maxlen - 1 - cur) \<Longrightarrow>
    dopr_outs (Some b) cur maxlen t = Some (Some (take cur b @ take k t @ drop (cur + k) b), cur + k)"
proof (induction t arbitrary: b cur k)
  case (Cons c t)
  show ?case
  proof (cases "cur + 1 < maxlen")
    case True
    define k' where "k' = min (length t) (maxlen - 1 - (cur + 1))"
    have k: "k = Suc k'" using Cons(4) True by (simp add: k'_def min_def) linarith
    have "dopr_outs (Some (b[cur := c])) (cur + 1) maxlen t =
        Some (Some (take (cur + 1) (b[cur := c]) @ take k' t @ drop (cur + 1 + k') (b[cur := c])), cur + 1 + k')"
      by (rule Cons(1)) (use Cons(3) True k'_def in simp_all)
    then show ?thesis
      using True Cons(2,3) by (simp add: dopr_outch_def k take_Suc_conv_app_nth)
  next
    case False
    then have "k = 0" using Cons(2,4) by simp
    then show ?thesis using False Cons(2) dopr_outs_full [of maxlen cur "Some b" "c # t"] by simp
  qed
qed simp

text \<open>What a call leaves in a buffer of \<open>count\<close> bytes.\<close>

definition snprintf_buffer :: "string \<Rightarrow> nat \<Rightarrow> string \<Rightarrow> string" where
  "snprintf_buffer buf count text =
     (if count = 0 then NUL # tl buf
      else take (count - 1) text @ NUL # drop (min (length text) (count - 1) + 1) buf)"

lemma length_snprintf_buffer:
  "buf \<noteq> [] \<Longrightarrow> count \<le> length buf \<Longrightarrow> length (snprintf_buffer buf count text) = length buf"
  by (cases buf) (auto simp: snprintf_buffer_def min_def)

lemma xmpp_snprintf_buffer:
  assumes "dopr_text fmt args = Some text" "buf \<noteq> []" "count \<le> length buf"
  shows "xmpp_snprintf (Some buf) count fmt args =
    Some (int (length text), Some (snprintf_buffer buf count text))"
proof (cases "count = 0")
  case True
  obtain c cs where "buf = c # cs" using assms(2) by (cases buf) auto
  then show ?thesis
    using True assms(1)
    by (simp add: xmpp_snprintf_def xmpp_vsnprintf_def dopr_def dopr_outs_full size_pred_def snprintf_buffer_def)
next
  case False
  define k where "k = min (length text) (count - 1)"
  define b where "b = buf[0 := NUL]"
  have b: "length b = length buf" "drop (Suc k) b = drop (Suc k) buf"
    by (simp_all add: b_def)
  have outs: "dopr_outs (Some b) 0 count text = Some (Some (take k text @ drop k b), k)"
    using dopr_outs_buffer [of 0 count b k "text"] False assms(3) by (simp add: b k_def)
  have pos: "(if k < size_pred count then k else size_pred count) = k"
    using False by (auto simp: size_pred_def k_def)
  have kl: "k < length b" using False assms(3) by (simp add: b(1) k_def)
  have "take k text = take (count - 1) text" "length (take k text) = k"
    by (simp_all add: k_def min_def)
  then show ?thesis
    using False assms kl
    by (simp add: xmpp_snprintf_def xmpp_vsnprintf_def dopr_def b_def [symmetric] outs pos snprintf_buffer_def
        k_def [symmetric] list_update_append1 wr_def list_update_append Cons_nth_drop_Suc [symmetric] b)
qed

lemma xmpp_snprintf_end: "dopr_text fmt args = Some text \<Longrightarrow> xmpp_snprintf (Some []) 0 fmt args = None"
  by (simp add: xmpp_snprintf_def xmpp_vsnprintf_def)

lemma xmpp_snprintf_NULL:
  "dopr_text fmt args = Some text \<Longrightarrow> xmpp_snprintf None 0 fmt args = Some (int (length text), None)"
  by (simp add: xmpp_snprintf_def xmpp_vsnprintf_def dopr_def dopr_outs_full)

subsection \<open>Digits\<close>

definition digit_value :: "char \<Rightarrow> nat" where
  "digit_value c = (if is_digit c then nat (schar c - 48)
     else if c \<in> set ''abcdef'' then nat (schar c - 87) else nat (schar c - 55))"

fun digits_value :: "nat \<Rightarrow> string \<Rightarrow> nat" where
  "digits_value base [] = 0"
| "digits_value base (c # cs) = digit_value c + base * digits_value base cs"

lemma digit_table:
  "\<forall>n \<in> {0..<16}. digit_value (''0123456789ABCDEF'' ! n) = n \<and> digit_value (''0123456789abcdef'' ! n) = n"
  by code_simp

lemma fmt_digits_value:
  assumes "2 \<le> base" "base \<le> 16"
  shows "digits_value base (fmt_digits k caps base u) = u mod base ^ k \<and> length (fmt_digits k caps base u) \<le> k \<and>
    (length (fmt_digits k caps base u) < k \<longrightarrow> u < base ^ length (fmt_digits k caps base u))"
proof (induction k arbitrary: u)
  case (Suc k)
  have "u mod base \<in> {0..<16}" using assms mod_less_divisor [of base u] by (simp del: mod_less_divisor)
  then have d: "digit_value ((if caps then ''0123456789ABCDEF'' else ''0123456789abcdef'') ! (u mod base)) = u mod base"
    using bspec [OF digit_table, of "u mod base"] by (simp del: atLeastLessThan_iff)
  have m: "u mod base ^ Suc k = u mod base + base * (u div base mod base ^ k)"
    by (simp add: mod_mult2_eq add.commute)
  show ?case
  proof (cases "u div base = 0")
    case True
    then have "u < base" using assms by (simp add: div_eq_0_iff)
    then show ?thesis using d True assms m by simp
  next
    case False
    have "u < base * n" if "u div base < n" for n
      using that assms by (simp add: div_less_iff_less_mult mult.commute)
    then show ?thesis using d False m Suc [of "u div base"] by simp
  qed
qed simp

lemma fmt_digits_Suc:
  "u div base \<noteq> 0 \<Longrightarrow> fmt_digits (Suc k) caps base u =
    (if caps then ''0123456789ABCDEF'' else ''0123456789abcdef'') ! (u mod base) # fmt_digits k caps base (u div base)"
  by simp

lemma fmt_digits_butlast:
  "(if length (fmt_digits (Suc k) caps base u) = Suc k then butlast (fmt_digits (Suc k) caps base u)
    else fmt_digits (Suc k) caps base u) = fmt_digits k caps base u"
proof (induction k arbitrary: u)
  case (Suc k)
  show ?case
  proof (cases "u div base = 0")
    case False
    have "fmt_digits (Suc k) caps base (u div base) \<noteq> []" by simp
    then show ?thesis
      using Suc [of "u div base"]
      unfolding fmt_digits_Suc [OF False, of "Suc k"] fmt_digits_Suc [OF False, of k]
      by (simp del: fmt_digits.simps split: if_splits)
  qed simp
qed simp

lemma fmtint_digits:
  assumes "2 \<le> base" "base \<le> 16" "mn \<le> 0"
  shows "\<exists>ds. fmtint v base mn (- 1) (flags\<lparr>DP_F_ZERO := False\<rparr>) =
      (if DP_F_UNSIGNED flags then [] else if v < 0 then ''-'' else if DP_F_PLUS flags then ''+''
       else if DP_F_SPACE flags then '' '' else []) @ rev ds \<and>
    digits_value base ds = nat ((if \<not> DP_F_UNSIGNED flags \<and> v < 0 then - v else v) mod 2 ^ 64) mod base ^ 19"
proof -
  define u where "u = nat ((if \<not> DP_F_UNSIGNED flags \<and> v < 0 then - v else v) mod 2 ^ 64)"
  define ds where "ds = fmt_digits 19 (DP_F_UP flags) base u"
  have ds: "(if length (fmt_digits 20 (DP_F_UP flags) base u) = 20 then butlast (fmt_digits 20 (DP_F_UP flags) base u)
      else fmt_digits 20 (DP_F_UP flags) base u) = ds"
    using fmt_digits_butlast [of 19 "DP_F_UP flags" base u] by (simp only: ds_def numeral_eq_Suc pred_numeral_simps BitM.simps)
  have fl: "DP_F_UNSIGNED (flags\<lparr>DP_F_ZERO := False\<rparr>) = DP_F_UNSIGNED flags"
    "DP_F_UP (flags\<lparr>DP_F_ZERO := False\<rparr>) = DP_F_UP flags" "DP_F_ZERO (flags\<lparr>DP_F_ZERO := False\<rparr>) = False"
    "DP_F_PLUS (flags\<lparr>DP_F_ZERO := False\<rparr>) = DP_F_PLUS flags"
    "DP_F_SPACE (flags\<lparr>DP_F_ZERO := False\<rparr>) = DP_F_SPACE flags"
    by simp_all
  have "digits_value base ds = u mod base ^ 19"
    unfolding ds_def using fmt_digits_value [OF assms(1,2)] by blast
  moreover have "fmtint v base mn (- 1) (flags\<lparr>DP_F_ZERO := False\<rparr>) =
      (if DP_F_UNSIGNED flags then [] else if v < 0 then ''-'' else if DP_F_PLUS flags then ''+''
       else if DP_F_SPACE flags then '' '' else []) @ rev ds"
    unfolding fmtint_def Let_def fl u_def [symmetric] ds
    using assms(3) by (auto simp: max_def)
  ultimately show ?thesis unfolding u_def by blast
qed

subsection \<open>Properties\<close>

text \<open>Claim C24. The contract of \<open>snprintf\<close>: with a non-empty part of a buffer to fill, the call returns the
  length of the whole text, stores its first \<open>count - 1\<close> characters and a terminator, and leaves
  every other byte of the buffer alone.\<close>

theorem snprintf_contract:
  assumes "dopr_text fmt args = Some text" "0 < count" "count \<le> length buf"
  shows "xmpp_snprintf (Some buf) count fmt args =
    Some (int (length text),
      Some (take (count - 1) text @ NUL # drop (min (length text) (count - 1) + 1) buf))"
proof -
  have "buf \<noteq> []" using assms(2,3) by auto
  then show ?thesis
    using xmpp_snprintf_buffer [OF assms(1) _ assms(3)] assms(2) by (simp add: snprintf_buffer_def)
qed

theorem snprintf_contract_witness:
  "xmpp_snprintf (Some ''........'') 6 ''</%s>'' [VStr (Some ''message'')] = Some (10, Some (''</mes'' @ NUL # ''..''))"
proof -
  have "dopr_text ''</%s>'' [VStr (Some ''message'')] = Some ''</message>''"
    by (simp add: dopr_formats)
  from snprintf_contract [OF this, of 6 "''........''"] show ?thesis by (simp add: numeral_eq_Suc)
qed

text \<open>A size of zero is not safe: with a buffer, the terminator is written all the same, in front of
  which only the \<open>NULL\<close> pointer protects.\<close>

theorem snprintf_zero_size:
  assumes "dopr_text fmt args = Some text"
  shows "xmpp_snprintf (Some buf) 0 fmt args =
      (if buf = [] then None else Some (int (length text), Some (NUL # tl buf))) \<and>
    xmpp_snprintf None 0 fmt args = Some (int (length text), None)"
  using xmpp_snprintf_buffer [OF assms, of buf 0] xmpp_snprintf_end [OF assms] xmpp_snprintf_NULL [OF assms]
  by (auto simp: snprintf_buffer_def)

theorem snprintf_zero_size_witness:
  "xmpp_snprintf (Some ''ab'') 0 ''/>'' [] = Some (2, Some (NUL # ''b''))"
  using snprintf_zero_size [OF dopr_formats(4), of "''ab''"] by simp

text \<open>The digits of a number are complete up to 19 places: what is printed denotes the value modulo
  the 19th power of the base, so unsigned 64-bit values from \<open>10\<^sup>1\<^sup>9\<close> on lose their leading digit.\<close>

theorem fmtint_value:
  assumes "2 \<le> base" "base \<le> 16" "0 \<le> v" "v < 2 ^ 64"
  shows "\<exists>ds. fmtint v base 0 (- 1) (no_flags\<lparr>DP_F_UNSIGNED := True\<rparr>) = rev ds \<and>
    digits_value base ds = nat v mod base ^ 19"
proof -
  have "no_flags\<lparr>DP_F_UNSIGNED := True, DP_F_ZERO := False\<rparr> = no_flags\<lparr>DP_F_UNSIGNED := True\<rparr>"
    by (simp add: no_flags_def)
  then show ?thesis
    using fmtint_digits [OF assms(1,2), of 0 v "no_flags\<lparr>DP_F_UNSIGNED := True\<rparr>"] assms(3,4) by simp
qed

theorem fmtint_value_witness:
  "\<exists>ds. fmtint 12345678901234567890 10 0 (- 1) (no_flags\<lparr>DP_F_UNSIGNED := True\<rparr>) = rev ds \<and>
    digits_value 10 ds = 2345678901234567890"
  using fmtint_value [of 10 12345678901234567890] by simp

end
