(* ===== verification/Stanza.thy ===== *)
theory Stanza
  imports Hash_Table Snprintf
begin

section \<open>Stanzas (stanza.c)\<close>

text \<open>
  Models the parts of \<open>src/stanza.c\<close> that read a stanza or change one node of it.  The fields of a
  node are a record that the theory of the object store extends by the links; a stanza as its
  readers see it is a tree of such nodes, the list of children standing for the chain of \<open>next\<close>
  pointers that begins at \<open>children\<close>.  A pointer to a sibling is the rest of that list.
  Rendering writes through a pointer into a block of memory, with the call of \<open>xmpp_snprintf\<close>
  for every piece.
\<close>

subsection \<open>Nodes and trees\<close>

datatype xmpp_stanza_type_t = XMPP_STANZA_UNKNOWN | XMPP_STANZA_TEXT | XMPP_STANZA_TAG

record stanza_node =
  s_type :: xmpp_stanza_type_t
  s_data :: "string option"
  s_attributes :: "string hash_t option"

datatype stanza = Stanza (s_node: stanza_node) (s_kids: "stanza list")

definition blank_node :: stanza_node where
  "blank_node = \<lparr> s_type = XMPP_STANZA_UNKNOWN, s_data = None, s_attributes = None \<rparr>"

subsection \<open>Operations on one node\<close>

definition xmpp_stanza_is_text :: "('a stanza_node_scheme) option \<Rightarrow> bool" where
  "xmpp_stanza_is_text s \<longleftrightarrow> (case s of None \<Rightarrow> False | Some n \<Rightarrow> s_type n = XMPP_STANZA_TEXT)"

definition xmpp_stanza_is_tag :: "('a stanza_node_scheme) option \<Rightarrow> bool" where
  "xmpp_stanza_is_tag s \<longleftrightarrow> (case s of None \<Rightarrow> False | Some n \<Rightarrow> s_type n = XMPP_STANZA_TAG)"

text \<open>The result of \<open>xmpp_strdup\<close> is stored unchecked.\<close>

definition xmpp_stanza_set_name ::
    "mem \<Rightarrow> 'a stanza_node_scheme \<Rightarrow> string \<Rightarrow> int \<times> 'a stanza_node_scheme \<times> mem" where
  "xmpp_stanza_set_name m s name =
     (if s_type s = XMPP_STANZA_TEXT then (XMPP_EINVOP, s, m)
      else case xmpp_strdup m name of
        (d, m) \<Rightarrow> (XMPP_EOK, s\<lparr>s_type := XMPP_STANZA_TAG, s_data := d\<rparr>, m))"

definition xmpp_stanza_get_name :: "'a stanza_node_scheme \<Rightarrow> string option" where
  "xmpp_stanza_get_name s = (if s_type s = XMPP_STANZA_TEXT then None else s_data s)"

definition xmpp_stanza_get_attribute_count :: "'a stanza_node_scheme \<Rightarrow> int" where
  "xmpp_stanza_get_attribute_count s =
     (case s_attributes s of None \<Rightarrow> 0 | Some h \<Rightarrow> hash_num_keys h)"

text \<open>The loop over the iterator's keys; the slots written into the caller's array.\<close>

fun attributes_loop :: "string hash_t \<Rightarrow> string list \<Rightarrow> nat \<Rightarrow> (string option) list option" where
  "attributes_loop h [] attrlen = Some []"
| "attributes_loop h (key # keys) attrlen =
     (if attrlen = 0 then Some []
      else if attrlen = 1 then Some [Some key]
      else do {
        v \<leftarrow> hash_get h key;
        if attrlen = 2 then Some [Some key, v]
        else map_option (\<lambda>r. Some key # v # r) (attributes_loop h keys (attrlen - 2)) })"

text \<open>A failed allocation of the iterator is not noticed.\<close>

definition xmpp_stanza_get_attributes ::
    "mem \<Rightarrow> 'a stanza_node_scheme \<Rightarrow> nat \<Rightarrow> (int \<times> (string option) list \<times> mem) option" where
  "xmpp_stanza_get_attributes m s attrlen =
     (case s_attributes s of
        None \<Rightarrow> Some (0, [], m)
      | Some h \<Rightarrow>
          (case hash_iter_new m h of
             (None, _, m) \<Rightarrow> None
           | (Some it, h', m) \<Rightarrow> do {
               slots \<leftarrow> attributes_loop h' (hash_iter_keys h' it) attrlen;
               Some (int (length slots), slots, m) }))"

text \<open>The result of \<open>hash_add\<close> is ignored.\<close>

definition xmpp_stanza_set_attribute ::
    "mem \<Rightarrow> 'a stanza_node_scheme \<Rightarrow> string \<Rightarrow> string \<Rightarrow> (int \<times> 'a stanza_node_scheme \<times> mem) option" where
  "xmpp_stanza_set_attribute m s key value =
     (if s_type s \<noteq> XMPP_STANZA_TAG then Some (XMPP_EINVOP, s, m)
      else
        case (case s_attributes s of None \<Rightarrow> hash_new m 8 True | Some h \<Rightarrow> (Some h, m)) of
          (None, m) \<Rightarrow> Some (XMPP_EMEM, s, m)
        | (Some h, m) \<Rightarrow>
            (case xmpp_strdup m value of
               (None, m) \<Rightarrow> Some (XMPP_EMEM, s\<lparr>s_attributes := Some h\<rparr>, m)
             | (Some val, m) \<Rightarrow> do {
                 (_, h, _, m) \<leftarrow> hash_add m h key val;
                 Some (XMPP_EOK, s\<lparr>s_attributes := Some h\<rparr>, m) }))"

definition xmpp_stanza_set_ns ::
    "mem \<Rightarrow> 'a stanza_node_scheme \<Rightarrow> string \<Rightarrow> (int \<times> 'a stanza_node_scheme \<times> mem) option" where
  "xmpp_stanza_set_ns m s ns = xmpp_stanza_set_attribute m s ''xmlns'' ns"

definition xmpp_stanza_set_id ::
    "mem \<Rightarrow> 'a stanza_node_scheme \<Rightarrow> string \<Rightarrow> (int \<times> 'a stanza_node_scheme \<times> mem) option" where
  "xmpp_stanza_set_id m s i = xmpp_stanza_set_attribute m s ''id'' i"

definition xmpp_stanza_set_type ::
    "mem \<Rightarrow> 'a stanza_node_scheme \<Rightarrow> string \<Rightarrow> (int \<times> 'a stanza_node_scheme \<times> mem) option" where
  "xmpp_stanza_set_type m s t = xmpp_stanza_set_attribute m s ''type'' t"

definition xmpp_stanza_get_attribute :: "'a stanza_node_scheme \<Rightarrow> string \<Rightarrow> string option option" where
  "xmpp_stanza_get_attribute s name =
     (if s_type s \<noteq> XMPP_STANZA_TAG then Some None
      else case s_attributes s of None \<Rightarrow> Some None | Some h \<Rightarrow> hash_get h name)"

definition xmpp_stanza_get_id :: "'a stanza_node_scheme \<Rightarrow> string option option" where
  "xmpp_stanza_get_id s =
     (if s_type s \<noteq> XMPP_STANZA_TAG then Some None
      else case s_attributes s of None \<Rightarrow> Some None | Some h \<Rightarrow> hash_get h ''id'')"

definition xmpp_stanza_get_ns :: "'a stanza_node_scheme \<Rightarrow> string option option" where
  "xmpp_stanza_get_ns s =
     (if s_type s \<noteq> XMPP_STANZA_TAG then Some None
      else case s_attributes s of None \<Rightarrow> Some None | Some h \<Rightarrow> hash_get h ''xmlns'')"

definition xmpp_stanza_get_type :: "'a stanza_node_scheme \<Rightarrow> string option option" where
  "xmpp_stanza_get_type s =
     (if s_type s \<noteq> XMPP_STANZA_TAG then Some None
      else case s_attributes s of None \<Rightarrow> Some None | Some h \<Rightarrow> hash_get h ''type'')"

definition xmpp_stanza_set_text ::
    "mem \<Rightarrow> 'a stanza_node_scheme \<Rightarrow> string \<Rightarrow> int \<times> 'a stanza_node_scheme \<times> mem" where
  "xmpp_stanza_set_text m s t =
     (if s_type s = XMPP_STANZA_TAG then (XMPP_EINVOP, s, m)
      else case xmpp_strdup m t of
        (d, m) \<Rightarrow> (XMPP_EOK, s\<lparr>s_type := XMPP_STANZA_TEXT, s_data := d\<rparr>, m))"

text \<open>The text is a buffer here; what is stored ends, as a string, before the first zero in it.\<close>

definition xmpp_stanza_set_text_with_size ::
    "mem \<Rightarrow> 'a stanza_node_scheme \<Rightarrow> string \<Rightarrow> nat \<Rightarrow> (int \<times> 'a stanza_node_scheme \<times> mem) option" where
  "xmpp_stanza_set_text_with_size m s t len =
     (if s_type s = XMPP_STANZA_TAG then Some (XMPP_EINVOP, s, m)
      else case xmpp_alloc m of
        (False, m) \<Rightarrow> Some (XMPP_EMEM, s\<lparr>s_type := XMPP_STANZA_TEXT, s_data := None\<rparr>, m)
      | (True, m) \<Rightarrow>
          (if length t < len then None
           else Some (XMPP_EOK, s\<lparr>s_type := XMPP_STANZA_TEXT,
             s_data := Some (takeWhile (\<lambda>c. c \<noteq> NUL) (take len t))\<rparr>, m)))"

definition xmpp_stanza_get_text_ptr :: "'a stanza_node_scheme \<Rightarrow> string option" where
  "xmpp_stanza_get_text_ptr s = (if s_type s = XMPP_STANZA_TEXT then s_data s else None)"

subsection \<open>Reading a tree\<close>

fun child_by_name :: "string \<Rightarrow> stanza list \<Rightarrow> stanza list option" where
  "child_by_name name [] = Some []"
| "child_by_name name (child # rest) =
     (if s_type (s_node child) = XMPP_STANZA_TAG then do {
        eq \<leftarrow> strcmp_eq (Some name) (xmpp_stanza_get_name (s_node child));
        if eq then Some (child # rest) else child_by_name name rest }
      else child_by_name name rest)"

definition xmpp_stanza_get_child_by_name :: "stanza \<Rightarrow> string \<Rightarrow> stanza list option" where
  "xmpp_stanza_get_child_by_name s name = child_by_name name (s_kids s)"

fun child_by_ns :: "string \<Rightarrow> stanza list \<Rightarrow> stanza list option" where
  "child_by_ns ns [] = Some []"
| "child_by_ns ns (child # rest) = do {
     n \<leftarrow> xmpp_stanza_get_ns (s_node child);
     case n of
       None \<Rightarrow> child_by_ns ns rest
     | Some n \<Rightarrow> if ns = n then Some (child # rest) else child_by_ns ns rest }"

definition xmpp_stanza_get_child_by_ns :: "stanza \<Rightarrow> string \<Rightarrow> stanza list option" where
  "xmpp_stanza_get_child_by_ns s ns = child_by_ns ns (s_kids s)"

definition xmpp_stanza_get_children :: "stanza \<Rightarrow> stanza list" where
  "xmpp_stanza_get_children s = s_kids s"

definition xmpp_stanza_get_next :: "stanza list \<Rightarrow> stanza list option" where
  "xmpp_stanza_get_next c = (case c of [] \<Rightarrow> None | s # rest \<Rightarrow> Some rest)"

text \<open>The text of the text children; \<open>strlen(NULL)\<close> is undefined.\<close>

fun kids_text :: "stanza list \<Rightarrow> string option" where
  "kids_text [] = Some []"
| "kids_text (child # rest) =
     (if s_type (s_node child) = XMPP_STANZA_TEXT then do {
        d \<leftarrow> s_data (s_node child);
        r \<leftarrow> kids_text rest;
        Some (d @ r) }
      else kids_text rest)"

definition xmpp_stanza_get_text :: "mem \<Rightarrow> stanza \<Rightarrow> (string option \<times> mem) option" where
  "xmpp_stanza_get_text m s =
     (if s_type (s_node s) = XMPP_STANZA_TEXT then
        (case s_data (s_node s) of
           Some d \<Rightarrow> Some (xmpp_strdup m d)
         | None \<Rightarrow> Some (None, m))
      else do {
        t \<leftarrow> kids_text (s_kids s);
        if t = [] then Some (None, m)
        else case xmpp_alloc m of
          (False, m) \<Rightarrow> Some (None, m)
        | (True, m) \<Rightarrow> Some (Some t, m) })"

subsection \<open>Escaping\<close>

text \<open>The length computed by the first loop, and the copying into a block of \<open>cap\<close> bytes: every
  \<open>strcpy\<close> also writes a terminator.\<close>

fun escaped_len :: "string \<Rightarrow> nat" where
  "escaped_len [] = 0"
| "escaped_len (c # cs) =
     (if c = CHR ''<'' \<or> c = CHR ''>'' then 4
      else if c = CHR ''&'' then 5
      else if c = CHR 0x22 then 6 else 1) + escaped_len cs"

fun escape_char :: "char \<Rightarrow> string" where
  "escape_char c =
     (if c = CHR ''<'' then ''&lt;'' else if c = CHR ''>'' then ''&gt;''
      else if c = CHR ''&'' then ''&amp;'' else if c = CHR 0x22 then ''&quot;'' else [c])"

fun escape_loop :: "nat \<Rightarrow> string \<Rightarrow> string \<Rightarrow> string option" where
  "escape_loop cap out [] = (if length out < cap then Some out else None)"
| "escape_loop cap out (c # cs) =
     (let e = escape_char c
      in if length out + length e + (if length e = 1 then 0 else 1) \<le> cap
         then escape_loop cap (out @ e) cs else None)"

definition escape_xml :: "mem \<Rightarrow> string \<Rightarrow> (string option \<times> mem) option" where
  "escape_xml m t =
     (let len = escaped_len t
      in case xmpp_alloc m of
           (False, m) \<Rightarrow> Some (None, m)
         | (True, m) \<Rightarrow> map_option (\<lambda>b. (Some b, m)) (escape_loop (len + 1) [] t))"

subsection \<open>Rendering\<close>

text \<open>
  The variables of \<open>_render_stanza_recursive\<close>: bytes written or needed, room left, the write
  pointer as an offset into the block (\<open>None\<close> is \<open>NULL\<close>), and the block.
\<close>

record render_state =
  r_written :: nat
  r_left :: nat
  r_ptr :: "nat option"
  r_block :: string

definition render_update :: "nat \<Rightarrow> nat \<Rightarrow> render_state \<Rightarrow> render_state" where
  "render_update len lastwrite st =
     (let st = st\<lparr>r_written := r_written st + lastwrite\<rparr>
      in if r_written st > len then st\<lparr>r_left := 0, r_ptr := None\<rparr>
         else st\<lparr>r_left := r_left st - lastwrite, r_ptr := map_option (\<lambda>p. p + lastwrite) (r_ptr st)\<rparr>)"

definition snprintf_at ::
    "string \<Rightarrow> nat option \<Rightarrow> nat \<Rightarrow> string \<Rightarrow> va_arg list \<Rightarrow> (int \<times> string) option" where
  "snprintf_at block ptr left fmt args =
     (case ptr of
        None \<Rightarrow> map_option (\<lambda>(ret, _). (ret, block)) (xmpp_snprintf None left fmt args)
      | Some p \<Rightarrow> do {
          (ret, b) \<leftarrow> xmpp_snprintf (Some (drop p block)) left fmt args;
          b \<leftarrow> b;
          Some (ret, take p block @ b) })"

text \<open>One call of \<open>xmpp_snprintf\<close> with the check of its result and the update.\<close>

definition render_put ::
    "nat \<Rightarrow> string \<Rightarrow> va_arg list \<Rightarrow> render_state \<Rightarrow> (int + render_state) option" where
  "render_put len fmt args st = do {
     (ret, block) \<leftarrow> snprintf_at (r_block st) (r_ptr st) (r_left st) fmt args;
     if ret < 0 then Some (Inl XMPP_EMEM)
     else Some (Inr (render_update len (nat ret) (st\<lparr>r_block := block\<rparr>))) }"

text \<open>The loop over the attributes.\<close>

fun render_attrs ::
    "nat \<Rightarrow> string hash_t \<Rightarrow> string list \<Rightarrow> mem \<Rightarrow> render_state \<Rightarrow> ((int + render_state) \<times> mem) option" where
  "render_attrs len h [] m st = Some (Inr st, m)"
| "render_attrs len h (key # keys) m st = do {
     v \<leftarrow> hash_get h key;
     v \<leftarrow> v;
     (tmp, m) \<leftarrow> escape_xml m v;
     case tmp of
       None \<Rightarrow> Some (Inl XMPP_EMEM, m)
     | Some tmp \<Rightarrow> do {
         r \<leftarrow> render_put len '' %s=\"%s\"'' [VStr (Some key), VStr (Some tmp)] st;
         case r of Inl e \<Rightarrow> Some (Inl e, m) | Inr st \<Rightarrow> render_attrs len h keys m st } }"

definition render_attributes ::
    "nat \<Rightarrow> string hash_t option \<Rightarrow> mem \<Rightarrow> render_state \<Rightarrow> ((int + render_state) \<times> mem) option" where
  "render_attributes len attrs m st =
     (case attrs of
        None \<Rightarrow> Some (Inr st, m)
      | Some h \<Rightarrow>
          if hash_num_keys h > 0 then
            (case hash_iter_new m h of
               (None, _, m) \<Rightarrow> None
             | (Some it, h, m) \<Rightarrow> render_attrs len h (hash_iter_keys h it) m st)
          else Some (Inr st, m))"

text \<open>
  The recursion.  The result is an error code or the number of bytes and the block as it is then.
\<close>

fun render_stanza ::
      "stanza \<Rightarrow> mem \<Rightarrow> string \<Rightarrow> nat option \<Rightarrow> nat \<Rightarrow> ((int + nat \<times> string) \<times> mem) option"
  and render_kids ::
      "nat \<Rightarrow> stanza list \<Rightarrow> mem \<Rightarrow> render_state \<Rightarrow> ((int + render_state) \<times> mem) option" where
  "render_stanza (Stanza n kids) m block ptr len =
     (let st = \<lparr> r_written = 0, r_left = len, r_ptr = ptr, r_block = block \<rparr>
      in if s_type n = XMPP_STANZA_UNKNOWN then Some (Inl XMPP_EINVOP, m)
      else case s_data n of
        None \<Rightarrow> Some (Inl XMPP_EINVOP, m)
      | Some d \<Rightarrow>
          (if s_type n = XMPP_STANZA_TEXT then do {
             (tmp, m) \<leftarrow> escape_xml m d;
             case tmp of
               None \<Rightarrow> Some (Inl XMPP_EMEM, m)
             | Some tmp \<Rightarrow> do {
                 r \<leftarrow> render_put len ''%s'' [VStr (Some tmp)] st;
                 case r of Inl e \<Rightarrow> Some (Inl e, m)
                 | Inr st \<Rightarrow> Some (Inr (r_written st, r_block st), m) } }
           else do {
             r \<leftarrow> render_put len ''<%s'' [VStr (Some d)] st;
             case r of Inl e \<Rightarrow> Some (Inl e, m)
             | Inr st \<Rightarrow> do {
             (r, m) \<leftarrow> render_attributes len (s_attributes n) m st;
             case r of Inl e \<Rightarrow> Some (Inl e, m)
             | Inr st \<Rightarrow>
               (if kids = [] then do {
                  r \<leftarrow> render_put len ''/>'' [] st;
                  case r of Inl e \<Rightarrow> Some (Inl e, m)
                  | Inr st \<Rightarrow> Some (Inr (r_written st, r_block st), m) }
                else do {
                  r \<leftarrow> render_put len ''>'' [] st;
                  case r of Inl e \<Rightarrow> Some (Inl e, m)
                  | Inr st \<Rightarrow> do {
                  (r, m) \<leftarrow> render_kids len kids m st;
                  case r of Inl e \<Rightarrow> Some (Inl e, m)
                  | Inr st \<Rightarrow> do {
                  r \<leftarrow> render_put len ''</%s>'' [VStr (Some d)] st;
                  case r of Inl e \<Rightarrow> Some (Inl e, m)
                  | Inr st \<Rightarrow> Some (Inr (r_written st, r_block st), m) }}}) }}))"
| "render_kids len [] m st = Some (Inr st, m)"
| "render_kids len (child # rest) m st = do {
     (r, m) \<leftarrow> render_stanza child m (r_block st) (r_ptr st) (r_left st);
     case r of Inl e \<Rightarrow> Some (Inl e, m)
     | Inr (ret, block) \<Rightarrow> render_kids len rest m (render_update len ret (st\<lparr>r_block := block\<rparr>)) }"

text \<open>
  \<open>xmpp_stanza_to_text\<close>: the error code and what is stored through the two out-parameters
  (\<open>None\<close> when they are left alone).  \<open>junk\<close> is what fresh memory holds.
\<close>

definition xmpp_stanza_to_text ::
    "char \<Rightarrow> mem \<Rightarrow> stanza \<Rightarrow> (int \<times> (string option \<times> nat) option \<times> mem) option" where
  "xmpp_stanza_to_text junk m s =
     (case xmpp_alloc m of
        (False, m) \<Rightarrow> Some (XMPP_EMEM, Some (None, 0), m)
      | (True, m) \<Rightarrow> do {
          (r, m) \<leftarrow> render_stanza s m (replicate 1024 junk) (Some 0) 1024;
          case r of
            Inl e \<Rightarrow> Some (e, None, m)
          | Inr (ret, buffer) \<Rightarrow>
              if ret > 1024 - 1 then
                (case xmpp_alloc m of
                   (False, m) \<Rightarrow> Some (XMPP_EMEM, Some (None, 0), m)
                 | (True, m) \<Rightarrow> do {
                     let len = ret + 1;
                     (r, m) \<leftarrow> render_stanza s m (buffer @ replicate (len - 1024) junk) (Some 0) len;
                     case r of
                       Inl e \<Rightarrow> Some (XMPP_EMEM, None, m)
                     | Inr (ret, buffer) \<Rightarrow>
                         if ret > len - 1 then Some (XMPP_EMEM, None, m)
                         else do {
                           buffer \<leftarrow> wr buffer (len - 1) NUL;
                           Some (XMPP_EOK, Some (Some buffer, ret), m) } })
              else do {
                buffer \<leftarrow> wr buffer (1024 - 1) NUL;
                Some (XMPP_EOK, Some (Some buffer, ret), m) } })"

subsection \<open>Escaping is exact\<close>

definition escape :: "string \<Rightarrow> string" where
  "escape t = concat (map escape_char t)"

lemma escaped_len: "escaped_len t = length (escape t)"
  by (induction t) (simp_all add: escape_def)

lemma escape_loop_exact:
  "length out + length (escape t) < cap \<Longrightarrow> escape_loop cap out t = Some (out @ escape t)"
proof (induction t arbitrary: out)
  case (Cons c t)
  have e: "escape (c # t) = escape_char c @ escape t" by (simp add: escape_def)
  have "length (out @ escape_char c) + length (escape t) < cap"
    using Cons(2) unfolding e by simp
  from Cons(1) [OF this] show ?case
    using Cons(2) unfolding e by (simp add: Let_def del: escape_char.simps)
qed (simp add: escape_def)

lemma escape_xml_exact:
  "escape_xml m t = (case xmpp_alloc m of (ok, m') \<Rightarrow> Some (if ok then Some (escape t) else None, m'))"
  using escape_loop_exact [of "[]" t "escaped_len t + 1"]
  by (auto simp: escape_xml_def escaped_len Let_def split: prod.splits bool.splits)

subsection \<open>The text of a stanza, in pieces\<close>

definition attr_pieces :: "string hash_t \<Rightarrow> string list \<Rightarrow> string list" where
  "attr_pieces h keys = map (\<lambda>k. '' '' @ k @ ''=\"'' @ escape (the (hash_map h k)) @ ''\"'') keys"

definition tag_open :: "stanza_node \<Rightarrow> string \<Rightarrow> string list" where
  "tag_open n d = (''<'' @ d) # (case s_attributes n of None \<Rightarrow> [] | Some h \<Rightarrow> attr_pieces h (hash_keys h))"

fun stanza_pieces :: "stanza \<Rightarrow> string list" where
  "stanza_pieces (Stanza n kids) =
     (case s_data n of
        None \<Rightarrow> []
      | Some d \<Rightarrow>
          if s_type n = XMPP_STANZA_TEXT then [escape d]
          else tag_open n d @
            (if kids = [] then [''/>'']
             else [''>''] @ concat (map stanza_pieces kids) @ [''</'' @ d @ ''>'']))"

definition stanza_text :: "stanza \<Rightarrow> string" where
  "stanza_text s = concat (stanza_pieces s)"

text \<open>Stanzas that can be rendered: every node has a type and data, and sound attributes.\<close>

fun renderable :: "stanza \<Rightarrow> bool" where
  "renderable (Stanza n kids) \<longleftrightarrow>
     s_type n \<noteq> XMPP_STANZA_UNKNOWN \<and> s_data n \<noteq> None \<and>
     (case s_attributes n of None \<Rightarrow> True | Some h \<Rightarrow> hash_ok h) \<and>
     (\<forall>k \<in> set kids. renderable k)"

text \<open>No piece begins exactly at the end of a buffer of \<open>N\<close> bytes.\<close>

fun no_edge :: "nat \<Rightarrow> nat \<Rightarrow> string list \<Rightarrow> bool" where
  "no_edge N w [] \<longleftrightarrow> True"
| "no_edge N w (p # ps) \<longleftrightarrow> w \<noteq> N \<and> no_edge N (w + length p) ps"

lemma no_edge_append: "no_edge N w (ps @ qs) \<longleftrightarrow> no_edge N w ps \<and> no_edge N (w + length (concat ps)) qs"
  by (induction ps arbitrary: w) (simp_all add: add.assoc)

lemma no_edge_fits: "w + length (concat ps) < N \<Longrightarrow> no_edge N w ps"
  by (induction ps arbitrary: w) simp_all

subsection \<open>Writing at a position\<close>

definition pos :: "nat \<Rightarrow> nat \<Rightarrow> nat option \<times> nat" where
  "pos N w = (if w \<le> N then (Some w, N - w) else (None, 0))"

text \<open>The block holds as much of the text as fits, and, once something was written, a terminator.\<close>

definition holds :: "nat \<Rightarrow> string \<Rightarrow> string \<Rightarrow> bool" where
  "holds N t block \<longleftrightarrow> length block = N \<and> take (min (length t) (N - 1)) block = take (N - 1) t"

definition terminated :: "nat \<Rightarrow> string \<Rightarrow> string \<Rightarrow> bool" where
  "terminated N t block \<longleftrightarrow> block ! min (length t) (N - 1) = NUL"

text \<open>The state of a call whose output began at \<open>a\<close>, after the text \<open>t\<close>; \<open>z\<close>: something was written.\<close>

definition at :: "nat \<Rightarrow> nat \<Rightarrow> string \<Rightarrow> bool \<Rightarrow> render_state \<Rightarrow> bool" where
  "at N a t z st \<longleftrightarrow> r_written st + a = length t \<and> (r_ptr st, r_left st) = pos N (length t) \<and>
     holds N t (r_block st) \<and> (if z then terminated N t (r_block st) else length t < N)"

lemma render_update_at:
  assumes "r_written st + a = length t" "(r_ptr st, r_left st) = pos N (length t)" "holds N (t @ s) (r_block st)"
    "terminated N (t @ s) (r_block st)"
  shows "at N a (t @ s) True (render_update (snd (pos N a)) (length s) st)"
  using assms by (auto simp: at_def render_update_def pos_def Let_def split: if_splits)

lemma snprintf_at_holds:
  assumes "dopr_text fmt args = Some s" "holds N t block" "pos N (length t) = (p, left)" "length t \<noteq> N"
    "length t < N \<or> terminated N t block"
  shows "\<exists>block'. snprintf_at block p left fmt args = Some (int (length s), block') \<and>
    holds N (t @ s) block' \<and> terminated N (t @ s) block'"
proof (cases "length t < N")
  case True
  then have p: "p = Some (length t)" "left = N - length t" using assms(3) by (auto simp: pos_def)
  have lb: "length block = N" "take (length t) block = t"
  proof -
    have "min (length t) (N - 1) = length t" using True by simp
    then show "length block = N" "take (length t) block = t"
      using assms(2) True unfolding holds_def by simp_all
  qed
  let ?b = "snprintf_buffer (drop (length t) block) left s"
  have "xmpp_snprintf (Some (drop (length t) block)) left fmt args = Some (int (length s), Some ?b)"
    by (rule xmpp_snprintf_buffer [OF assms(1)]) (use True lb p in auto)
  then have sn: "snprintf_at block p left fmt args = Some (int (length s), t @ ?b)"
    using lb by (simp add: snprintf_at_def p)
  have b: "?b = take (N - length t - 1) s @ NUL # drop (min (length s) (N - length t - 1) + 1) (drop (length t) block)"
    using True by (simp add: snprintf_buffer_def p)
  have lb': "length (t @ ?b) = N"
    using True lb length_snprintf_buffer [of "drop (length t) block" left s] p by auto
  define k where "k = min (length s) (N - length t - 1)"
  have tk: "take (N - length t - 1) s = take k s" "length (take k s) = k" by (simp_all add: k_def min_def)
  have mn: "min (length (t @ s)) (N - 1) = length t + k"
    using True by (auto simp: k_def min_def)
  have "holds N (t @ s) (t @ ?b)"
    unfolding holds_def lb' mn using True tk by (simp add: b)
  moreover have "terminated N (t @ s) (t @ ?b)"
    unfolding terminated_def mn using tk by (simp add: b nth_append)
  ultimately show ?thesis using sn by auto
next
  case False
  then have gt: "N < length t" using assms(4) by simp
  then have p: "p = None" "left = 0" using assms(3) by (auto simp: pos_def)
  have "snprintf_at block p left fmt args = Some (int (length s), block)"
    by (simp add: snprintf_at_def p xmpp_snprintf_NULL [OF assms(1)])
  moreover have "holds N (t @ s) block" "terminated N (t @ s) block"
  proof -
    have m: "min (length (t @ s)) (N - 1) = N - 1" "min (length t) (N - 1) = N - 1" using gt by simp_all
    have tk: "take (N - 1) (t @ s) = take (N - 1) t" using gt by simp
    show "holds N (t @ s) block" "terminated N (t @ s) block"
      using gt assms(2,5) unfolding holds_def terminated_def m tk by simp_all
  qed
  ultimately show ?thesis by auto
qed

lemma render_put_at:
  assumes "dopr_text fmt args = Some s" "at N a t z st" "length t \<noteq> N"
  shows "\<exists>st'. render_put (snd (pos N a)) fmt args st = Some (Inr st') \<and> at N a (t @ s) True st'"
proof -
  have at: "r_written st + a = length t" "pos N (length t) = (r_ptr st, r_left st)" "holds N t (r_block st)"
    "length t < N \<or> terminated N t (r_block st)"
    using assms(2) by (auto simp: at_def split: if_splits)
  obtain block' where b: "snprintf_at (r_block st) (r_ptr st) (r_left st) fmt args = Some (int (length s), block')"
    "holds N (t @ s) block'" "terminated N (t @ s) block'"
    using snprintf_at_holds [OF assms(1) at(3,2) assms(3) at(4)] by blast
  have "at N a (t @ s) True (render_update (snd (pos N a)) (length s) (st\<lparr>r_block := block'\<rparr>))"
    by (rule render_update_at) (use at b in simp_all)
  then show ?thesis using b(1) by (simp add: render_put_def)
qed

lemma render_put_edge:
  assumes "dopr_text fmt args = Some s" "at N a t z st" "length t = N"
  shows "render_put len fmt args st = None"
  using assms by (auto simp: render_put_def snprintf_at_def at_def pos_def holds_def xmpp_snprintf_end)

subsection \<open>Rendering a tree\<close>

text \<open>What a part of the rendering does when it puts out the pieces \<open>ps\<close> after the text \<open>t\<close>.\<close>

definition puts :: "nat \<Rightarrow> string \<Rightarrow> string list \<Rightarrow> ('x \<Rightarrow> bool) \<Rightarrow> ((int + 'x) \<times> mem) option \<Rightarrow> bool" where
  "puts N t ps Q r \<longleftrightarrow>
     (if no_edge N (length t) ps then \<exists>x. r = Some (Inr x, []) \<and> Q x else r = None)"

abbreviation writes :: "nat \<Rightarrow> nat \<Rightarrow> string \<Rightarrow> bool \<Rightarrow> string list \<Rightarrow> ((int + render_state) \<times> mem) option \<Rightarrow> bool" where
  "writes N a t z ps r \<equiv> puts N t ps (at N a (t @ concat ps) (z \<or> ps \<noteq> [])) r"

lemma puts_Nil: "Q x \<Longrightarrow> puts N t [] Q (Some (Inr x, []))"
  by (simp add: puts_def)

lemma puts_put:
  assumes "dopr_text fmt args = Some p" "at N a t z st" "len = snd (pos N a)"
    "\<And>st'. at N a (t @ p) True st' \<Longrightarrow> puts N (t @ p) ps Q (k st')"
  shows "puts N t (p # ps) Q (do {
      r \<leftarrow> render_put len fmt args st;
      case r of Inl e \<Rightarrow> Some (Inl e, []) | Inr st \<Rightarrow> k st })"
proof (cases "length t = N")
  case True
  then show ?thesis
    using render_put_edge [OF assms(1,2) True] by (simp add: puts_def)
next
  case False
  obtain st' where st': "render_put len fmt args st = Some (Inr st')" "at N a (t @ p) True st'"
    using render_put_at [OF assms(1,2) False] assms(3) by blast
  show ?thesis
    using assms(4) [OF st'(2)] False st'(1) by (auto simp: puts_def)
qed

lemma puts_seq:
  assumes "puts N t ps Q1 r" "\<And>x. Q1 x \<Longrightarrow> puts N (t @ concat ps) qs Q (k x [])"
  shows "puts N t (ps @ qs) Q (do {
      (r, m) \<leftarrow> r;
      case r of Inl e \<Rightarrow> Some (Inl e, m) | Inr x \<Rightarrow> k x m })"
proof (cases "no_edge N (length t) ps")
  case True
  then obtain x where x: "r = Some (Inr x, [])" "Q1 x"
    using assms(1) by (auto simp: puts_def)
  show ?thesis
    using assms(2) [OF x(2)] True x(1) by (auto simp: puts_def no_edge_append)
next
  case False
  then show ?thesis using assms(1) by (simp add: puts_def no_edge_append)
qed

lemma render_attrs_writes:
  "hash_ok h \<Longrightarrow> set keys \<subseteq> dom (hash_map h) \<Longrightarrow> at N a t z st \<Longrightarrow> len = snd (pos N a) \<Longrightarrow>
    writes N a t z (attr_pieces h keys) (render_attrs len h keys [] st)"
proof (induction keys arbitrary: t z st)
  case Nil
  then show ?case by (simp add: puts_Nil attr_pieces_def)
next
  case (Cons k keys)
  obtain v where v: "hash_map h k = Some v" using Cons(3) by auto
  then have "key_ok h k" by (auto simp: hash_map_def key_ok_def split: option.splits)
  then have g: "hash_get h k = Some (Some v)" using v by (simp add: hash_get_map)
  have ps: "attr_pieces h (k # keys) = ('' '' @ k @ ''=\"'' @ escape v @ ''\"'') # attr_pieces h keys"
    by (simp add: attr_pieces_def v)
  have r: "render_attrs len h (k # keys) [] st = do {
      r \<leftarrow> render_put len '' %s=\"%s\"'' [VStr (Some k), VStr (Some (escape v))] st;
      case r of Inl e \<Rightarrow> Some (Inl e, []) | Inr st \<Rightarrow> render_attrs len h keys [] st }"
    by (simp add: g escape_xml_exact)
  have "puts N t (('' '' @ k @ ''=\"'' @ escape v @ ''\"'') # attr_pieces h keys)
      (at N a ((t @ '' '' @ k @ ''=\"'' @ escape v @ ''\"'') @ concat (attr_pieces h keys)) True)
      (render_attrs len h (k # keys) [] st)"
    unfolding r
  proof (rule puts_put [OF dopr_formats(3) Cons(4,5)])
    fix st' assume st': "at N a (t @ '' '' @ k @ ''=\"'' @ escape v @ ''\"'') True st'"
    have "writes N a (t @ '' '' @ k @ ''=\"'' @ escape v @ ''\"'') True (attr_pieces h keys) (render_attrs len h keys [] st')"
      by (rule Cons(1) [OF _ _ st']) (use Cons(2,3,5) in auto)
    then show "puts N (t @ '' '' @ k @ ''=\"'' @ escape v @ ''\"'') (attr_pieces h keys)
        (at N a ((t @ '' '' @ k @ ''=\"'' @ escape v @ ''\"'') @ concat (attr_pieces h keys)) True) (render_attrs len h keys [] st')"
      by (simp only: simp_thms)
  qed
  then show ?case unfolding ps by simp
qed

lemma hash_clone_simps [simp]:
  "hash_ok (hash_clone h) = hash_ok h" "hash_map (hash_clone h) = hash_map h" "h_entries (hash_clone h) = h_entries h"
  "attr_pieces (hash_clone h) = attr_pieces h"
proof -
  have b: "bucket_index (hash_clone h) = bucket_index h"
    by (intro ext bucket_index_cong) (simp_all add: hash_clone_def)
  have e: "h_entries (hash_clone h) = h_entries h" by (simp add: hash_clone_def)
  show m: "hash_map (hash_clone h) = hash_map h"
    unfolding hash_map_def b e ..
  show "hash_ok (hash_clone h) = hash_ok h"
    unfolding hash_ok_def b by (simp add: hash_clone_def)
  show "h_entries (hash_clone h) = h_entries h" by (rule e)
  show "attr_pieces (hash_clone h) = attr_pieces h" by (intro ext) (simp add: attr_pieces_def m)
qed

lemma hash_keys_dom: "hash_ok h \<Longrightarrow> set (hash_keys h) \<subseteq> dom (hash_map h)"
proof -
  assume h: "hash_ok h"
  have "set (map fst (concat (h_entries h))) = dom (hash_map h)" by (simp add: dom_hash_map [OF h])
  then show ?thesis using hash_keys_split [OF h] by (metis Un_upper1 set_append)
qed

lemma no_keys: "hash_ok h \<Longrightarrow> \<not> 0 < hash_num_keys h \<Longrightarrow> hash_keys h = []"
proof -
  assume h: "hash_ok h" and "\<not> 0 < hash_num_keys h"
  then have "concat (h_entries h) = []" by (simp add: hash_ok_def hash_num_keys_def)
  then show ?thesis using hash_keys_split [OF h] by (simp del: concat_eq_Nil_conv)
qed

lemma render_attributes_writes:
  assumes "case attrs of None \<Rightarrow> True | Some h \<Rightarrow> hash_ok h" "at N a t z st" "len = snd (pos N a)"
  shows "writes N a t z (case attrs of None \<Rightarrow> [] | Some h \<Rightarrow> attr_pieces h (hash_keys h))
    (render_attributes len attrs [] st)"
proof (cases attrs)
  case None
  then show ?thesis using assms(2) by (simp add: render_attributes_def puts_Nil)
next
  case (Some h)
  then have ok: "hash_ok h" using assms(1) by simp
  show ?thesis
  proof (cases "0 < hash_num_keys h")
    case True
    have ne: "h_entries h \<noteq> []" using ok by (simp add: hash_ok_def)
    have k: "hash_iter_keys (hash_clone h) \<lparr>it_ref = 1, it_entry = [], it_index = - 1\<rparr> = hash_keys h"
      using hash_keys_eq [of h] hash_keys_eq [of "hash_clone h"] ne by (simp add: hash_keys_def)
    have "writes N a t z (attr_pieces (hash_clone h) (hash_keys h)) (render_attrs len (hash_clone h) (hash_keys h) [] st)"
      by (rule render_attrs_writes) (use ok hash_keys_dom [OF ok] assms(2,3) in simp_all)
    then show ?thesis using Some True k by (simp add: render_attributes_def hash_iter_new_def)
  next
    case False
    then show ?thesis using Some assms(2) no_keys [OF ok False]
      by (simp add: render_attributes_def puts_Nil attr_pieces_def)
  qed
qed


text \<open>The result of rendering one stanza after the text \<open>t\<close>.\<close>

definition rendered :: "nat \<Rightarrow> string \<Rightarrow> string list \<Rightarrow> nat \<times> string \<Rightarrow> bool" where
  "rendered N t ps x \<longleftrightarrow> fst x = length (concat ps) \<and>
     holds N (t @ concat ps) (snd x) \<and> terminated N (t @ concat ps) (snd x)"

lemma at_rendered:
  "at N (length t) (t @ concat ps) True st \<Longrightarrow> rendered N t ps (r_written st, r_block st)"
  by (simp add: at_def rendered_def)

lemma at_start:
  assumes "at N a t z st"
  shows "at N (length t) t z \<lparr> r_written = 0, r_left = r_left st, r_ptr = r_ptr st, r_block = r_block st \<rparr>"
    "r_left st = snd (pos N (length t))"
  using assms unfolding at_def by (auto simp: prod_eq_iff)

lemma at_update:
  assumes "at N a t z st" "rendered N t ps (ret, block)"
  shows "at N a (t @ concat ps) True (render_update (snd (pos N a)) ret (st\<lparr>r_block := block\<rparr>))"
  using render_update_at [of "st\<lparr>r_block := block\<rparr>" a t N "concat ps"] assms
  by (auto simp: at_def rendered_def)

lemma stanza_pieces_ne: "renderable s \<Longrightarrow> stanza_pieces s \<noteq> []"
  by (cases s) (auto simp: tag_open_def split: if_splits)

lemma render_put_last:
  assumes "dopr_text fmt args = Some p" "at N (length t) (t @ concat ps) z st" "len = snd (pos N (length t))"
  shows "puts N (t @ concat ps) [p] (rendered N t (ps @ [p])) (do {
      r \<leftarrow> render_put len fmt args st;
      case r of Inl e \<Rightarrow> Some (Inl e, []) | Inr st \<Rightarrow> Some (Inr (r_written st, r_block st), []) })"
proof (rule puts_put [OF assms])
  fix st' assume "at N (length t) ((t @ concat ps) @ p) True st'"
  then show "puts N ((t @ concat ps) @ p) [] (rendered N t (ps @ [p])) (Some (Inr (r_written st', r_block st'), []))"
    using at_rendered [of N t "ps @ [p]" st'] by (intro puts_Nil) simp
qed

definition render_ok :: "stanza \<Rightarrow> bool" where
  "render_ok s \<longleftrightarrow> (\<forall>N t z len ptr block.
     at N (length t) t z \<lparr> r_written = 0, r_left = len, r_ptr = ptr, r_block = block \<rparr> \<longrightarrow>
     len = snd (pos N (length t)) \<longrightarrow>
     puts N t (stanza_pieces s) (rendered N t (stanza_pieces s)) (render_stanza s [] block ptr len))"

lemma render_kids_writes:
  "\<forall>k \<in> set kids. renderable k \<and> render_ok k \<Longrightarrow> at N a t z st \<Longrightarrow> len = snd (pos N a) \<Longrightarrow>
    writes N a t z (concat (map stanza_pieces kids)) (render_kids len kids [] st)"
proof (induction kids arbitrary: t z st)
  case Nil
  then show ?case by (simp add: puts_Nil)
next
  case (Cons child rest)
  let ?ps = "stanza_pieces child" and ?qs = "concat (map stanza_pieces rest)"
  have ne: "?ps \<noteq> []" using Cons(2) stanza_pieces_ne by simp
  have c: "puts N t ?ps (rendered N t ?ps) (render_stanza child [] (r_block st) (r_ptr st) (r_left st))"
    using Cons(2) at_start [OF Cons(3)] unfolding render_ok_def by auto
  have "puts N t (?ps @ ?qs) (at N a ((t @ concat ?ps) @ concat ?qs) True) (render_kids len (child # rest) [] st)"
    unfolding render_kids.simps
  proof (rule puts_seq [OF c])
    fix x assume x: "rendered N t ?ps x"
    obtain ret block where x2: "x = (ret, block)" by (rule prod.exhaust)
    have "writes N a (t @ concat ?ps) True ?qs (render_kids len rest [] (render_update len ret (st\<lparr>r_block := block\<rparr>)))"
      by (rule Cons(1)) (use Cons(2,4) at_update [OF Cons(3) x [unfolded x2]] in auto)
    then show "puts N (t @ concat ?ps) ?qs (at N a ((t @ concat ?ps) @ concat ?qs) True)
        (case x of (ret, block) \<Rightarrow> render_kids len rest [] (render_update len ret (st\<lparr>r_block := block\<rparr>)))"
      unfolding x2 by simp
  qed
  then show ?case using ne by simp
qed

lemma render_tag_writes:
  assumes n: "s_type n = XMPP_STANZA_TAG" "s_data n = Some d" "case s_attributes n of None \<Rightarrow> True | Some h \<Rightarrow> hash_ok h"
    and kids: "\<forall>k \<in> set kids. renderable k \<and> render_ok k"
    and st: "at N (length t) t z \<lparr> r_written = 0, r_left = len, r_ptr = ptr, r_block = block \<rparr>" (is "at _ _ _ _ ?st")
    and len: "len = snd (pos N (length t))"
  shows "puts N t (stanza_pieces (Stanza n kids)) (rendered N t (stanza_pieces (Stanza n kids)))
    (render_stanza (Stanza n kids) [] block ptr len)"
proof -
  let ?as = "case s_attributes n of None \<Rightarrow> [] | Some h \<Rightarrow> attr_pieces h (hash_keys h)"
  let ?ks = "concat (map stanza_pieces kids)"
  define tl where "tl = (if kids = [] then [''/>''] else [''>''] @ ?ks @ [''</'' @ d @ ''>''])"
  define P where "P = stanza_pieces (Stanza n kids)"
  have P: "P = (''<'' @ d) # ?as @ tl" using n by (simp add: P_def tl_def tag_open_def)
  define fin :: "render_state \<Rightarrow> ((int + nat \<times> string) \<times> mem) option" where
    "fin = (\<lambda>st. Some (Inr (r_written st, r_block st), []))"
  define rest where "rest = (\<lambda>st m.
      (if kids = [] then do {
                  r \<leftarrow> render_put len ''/>'' [] st;
                  case r of Inl e \<Rightarrow> Some (Inl e, m)
                  | Inr st \<Rightarrow> Some (Inr (r_written st, r_block st), m) }
                else do {
                  r \<leftarrow> render_put len ''>'' [] st;
                  case r of Inl e \<Rightarrow> Some (Inl e, m)
                  | Inr st \<Rightarrow> do {
                  (r, m) \<leftarrow> render_kids len kids m st;
                  case r of Inl e \<Rightarrow> Some (Inl e, m)
                  | Inr st \<Rightarrow> do {
                  r \<leftarrow> render_put len ''</%s>'' [VStr (Some d)] st;
                  case r of Inl e \<Rightarrow> Some (Inl e, m)
                  | Inr st \<Rightarrow> Some (Inr (r_written st, r_block st), m :: mem) }}}))"
  have unf: "render_stanza (Stanza n kids) [] block ptr len = do {
             r \<leftarrow> render_put len ''<%s'' [VStr (Some d)] ?st;
             case r of Inl e \<Rightarrow> Some (Inl e, [])
             | Inr st \<Rightarrow> do {
             (r, m) \<leftarrow> render_attributes len (s_attributes n) [] st;
             case r of Inl e \<Rightarrow> Some (Inl e, m)
             | Inr st \<Rightarrow> rest st m }}"
    unfolding render_stanza.simps Let_def rest_def n(1,2) option.case by simp
  show ?thesis unfolding unf P_def [symmetric] P
  proof (rule puts_put [OF dopr_formats(2) st len], rule puts_seq)
    fix st1 assume st1: "at N (length t) (t @ ''<'' @ d) True st1"
    show "writes N (length t) (t @ ''<'' @ d) True ?as (render_attributes len (s_attributes n) [] st1)"
      by (rule render_attributes_writes [OF n(3) st1 len])
    fix st2 assume "at N (length t) ((t @ ''<'' @ d) @ concat ?as) (True \<or> ?as \<noteq> []) st2"
    then have st2: "at N (length t) (t @ concat ((''<'' @ d) # ?as)) True st2" by simp
    show "puts N ((t @ ''<'' @ d) @ concat ?as) tl (rendered N t ((''<'' @ d) # ?as @ tl)) (rest st2 [])"
    proof (cases "kids = []")
      case True
      then show ?thesis
        using render_put_last [OF dopr_formats(4) st2 len] by (simp add: rest_def tl_def)
    next
      case False
      have "puts N (t @ concat ((''<'' @ d) # ?as)) (''>'' # ?ks @ [''</'' @ d @ ''>''])
          (rendered N t ((''<'' @ d) # ?as @ tl)) (rest st2 [])"
        unfolding rest_def if_not_P [OF False]
      proof (rule puts_put [OF dopr_formats(5) st2 len], rule puts_seq)
        fix st3 assume st3: "at N (length t) ((t @ concat ((''<'' @ d) # ?as)) @ ''>'') True st3"
        show "writes N (length t) ((t @ concat ((''<'' @ d) # ?as)) @ ''>'') True ?ks (render_kids len kids [] st3)"
          by (rule render_kids_writes [OF kids st3 len])
        fix st4
        assume "at N (length t) (((t @ concat ((''<'' @ d) # ?as)) @ ''>'') @ concat ?ks) (True \<or> ?ks \<noteq> []) st4"
        then have st4: "at N (length t) (t @ concat ((''<'' @ d) # ?as @ ''>'' # ?ks)) True st4" by simp
        show "puts N (((t @ concat ((''<'' @ d) # ?as)) @ ''>'') @ concat ?ks) [''</'' @ d @ ''>'']
            (rendered N t ((''<'' @ d) # ?as @ tl)) (do {
                  r \<leftarrow> render_put len ''</%s>'' [VStr (Some d)] st4;
                  case r of Inl e \<Rightarrow> Some (Inl e, [])
                  | Inr st \<Rightarrow> Some (Inr (r_written st, r_block st), []) })"
          using render_put_last [OF dopr_formats(6) st4 len] False by (simp add: tl_def)
      qed
      then show ?thesis using False by (simp add: tl_def)
    qed
  qed
qed

lemma render_stanza_ok: "renderable s \<Longrightarrow> render_ok s"
proof (induction s)
  case (Stanza n kids)
  then obtain d where d: "s_data n = Some d" by auto
  have kids: "\<forall>k \<in> set kids. renderable k \<and> render_ok k" using Stanza by simp
  show ?case
    unfolding render_ok_def
  proof (intro allI impI)
    fix N t z len ptr block
    assume st: "at N (length t) t z \<lparr> r_written = 0, r_left = len, r_ptr = ptr, r_block = block \<rparr>"
      and len: "len = snd (pos N (length t))"
    show "puts N t (stanza_pieces (Stanza n kids)) (rendered N t (stanza_pieces (Stanza n kids)))
        (render_stanza (Stanza n kids) [] block ptr len)"
    proof (cases "s_type n")
      case XMPP_STANZA_TAG
      show ?thesis
        by (rule render_tag_writes [OF XMPP_STANZA_TAG d _ kids st len]) (use Stanza(2) in simp)
    next
      case XMPP_STANZA_TEXT
      then show ?thesis
        using render_put_last [OF dopr_formats(1) [of "escape d"], of N t "[]" z _ len] st len d
        by (simp add: escape_xml_exact Let_def)
    qed (use Stanza(2) in simp)
  qed
qed

subsection \<open>The text of a stanza\<close>

lemma render_from_start:
  assumes "renderable s" "length block = N" "0 < N"
  shows "puts N [] (stanza_pieces s) (rendered N [] (stanza_pieces s)) (render_stanza s [] block (Some 0) N)"
proof -
  have "at N (length []) [] False \<lparr> r_written = 0, r_left = N, r_ptr = Some 0, r_block = block \<rparr>"
    using assms(2,3) by (simp add: at_def pos_def holds_def)
  then show ?thesis
    using render_stanza_ok [OF assms(1)] unfolding render_ok_def by (fastforce simp: pos_def)
qed

text \<open>A buffer that holds a whole text, after the final terminator was stored.\<close>

lemma rendered_string:
  assumes "rendered N [] (stanza_pieces s) (ret, buffer)" "length (stanza_text s) < N"
  shows "ret = length (stanza_text s)" "length buffer = N"
    "take (length (stanza_text s)) (buffer[N - 1 := NUL]) = stanza_text s"
    "buffer[N - 1 := NUL] ! length (stanza_text s) = NUL"
proof -
  have m: "min (length (stanza_text s)) (N - 1) = length (stanza_text s)" using assms(2) by simp
  have h: "ret = length (stanza_text s)" "holds N (stanza_text s) buffer" "terminated N (stanza_text s) buffer"
    using assms(1) by (simp_all add: rendered_def stanza_text_def)
  then show "ret = length (stanza_text s)" "length buffer = N" by (simp_all add: holds_def)
  have "take (length (stanza_text s)) buffer = stanza_text s"
    using h(2) assms(2) unfolding holds_def m by simp
  then show "take (length (stanza_text s)) (buffer[N - 1 := NUL]) = stanza_text s"
    using assms(2) by (simp add: take_update_swap) (simp add: list_update_beyond)
  show "buffer[N - 1 := NUL] ! length (stanza_text s) = NUL"
    using h(2,3) assms(2) unfolding terminated_def m
    by (cases "length (stanza_text s) = N - 1") (simp_all add: holds_def)
qed

lemma to_text_ok:
  assumes "renderable s" "no_edge 1024 0 (stanza_pieces s)"
  shows "\<exists>buf. xmpp_stanza_to_text junk [] s = Some (XMPP_EOK, Some (Some buf, length (stanza_text s)), []) \<and>
    take (length (stanza_text s)) buf = stanza_text s \<and> buf ! length (stanza_text s) = NUL"
proof -
  obtain ret buffer where r: "render_stanza s [] (replicate 1024 junk) (Some 0) 1024 = Some (Inr (ret, buffer), [])"
    "rendered 1024 [] (stanza_pieces s) (ret, buffer)"
    using render_from_start [OF assms(1), of "replicate 1024 junk" 1024] assms(2) by (auto simp: puts_def)
  have ret: "ret = length (stanza_text s)" "length buffer = 1024"
    using r(2) by (simp_all add: rendered_def stanza_text_def holds_def)
  show ?thesis
  proof (cases "ret > 1024 - 1")
    case False
    then have "length (stanza_text s) < 1024" using ret by simp
    from rendered_string [OF r(2) this] show ?thesis
      using r(1) False by (intro exI [of _ "buffer[1024 - 1 := NUL]"]) (simp add: xmpp_stanza_to_text_def)
  next
    case True
    let ?N = "ret + 1" and ?b = "buffer @ replicate (ret + 1 - 1024) junk"
    have lt: "length (stanza_text s) < ?N" using ret by simp
    have "no_edge ?N 0 (stanza_pieces s)"
      by (rule no_edge_fits) (use ret in \<open>simp add: stanza_text_def\<close>)
    then obtain ret' buffer' where r': "render_stanza s [] ?b (Some 0) ?N = Some (Inr (ret', buffer'), [])"
      "rendered ?N [] (stanza_pieces s) (ret', buffer')"
      using render_from_start [OF assms(1), of ?b ?N] ret True by (auto simp: puts_def)
    from rendered_string [OF r'(2) lt] show ?thesis
      using r(1) r'(1) True ret
      by (intro exI [of _ "buffer'[?N - 1 := NUL]"]) (simp add: xmpp_stanza_to_text_def Let_def)
  qed
qed

lemma to_text_edge:
  assumes "renderable s" "\<not> no_edge 1024 0 (stanza_pieces s)"
  shows "xmpp_stanza_to_text junk [] s = None"
  using render_from_start [OF assms(1), of "replicate 1024 junk" 1024] assms(2)
  by (simp add: puts_def xmpp_stanza_to_text_def)

subsection \<open>Reading escaped text back\<close>

text \<open>The entities as an XML parser resolves them.\<close>

function unescape :: "string \<Rightarrow> string" where
  "unescape s =
     (case s of [] \<Rightarrow> []
      | c # r \<Rightarrow>
          if c = CHR ''&'' \<and> take 3 r = ''lt;'' then CHR ''<'' # unescape (drop 3 r)
          else if c = CHR ''&'' \<and> take 3 r = ''gt;'' then CHR ''>'' # unescape (drop 3 r)
          else if c = CHR ''&'' \<and> take 4 r = ''amp;'' then CHR ''&'' # unescape (drop 4 r)
          else if c = CHR ''&'' \<and> take 5 r = ''quot;'' then CHR 0x22 # unescape (drop 5 r)
          else c # unescape r)"
  by pat_completeness auto
termination by (relation "measure length") auto

declare unescape.simps [simp del]

lemma escape_Nil [simp]: "escape [] = []" by (simp add: escape_def)

lemma escape_Cons: "escape (c # t) = escape_char c @ escape t" by (simp add: escape_def)

lemma unescape_escape: "unescape (escape t) = t"
proof (induction t)
  case Nil
  then show ?case by (simp add: unescape.simps)
next
  case (Cons c t)
  consider "c = CHR ''<''" | "c = CHR ''>''" | "c = CHR ''&''" | "c = CHR 0x22"
    | "c \<noteq> CHR ''<''" "c \<noteq> CHR ''>''" "c \<noteq> CHR ''&''" "c \<noteq> CHR 0x22" by blast
  then show ?case
    unfolding escape_Cons by cases (subst unescape.simps; simp add: Cons eval_nat_numeral)+
qed

lemma escape_markup: "set (escape t) \<inter> {CHR ''<'', CHR ''>'', CHR 0x22} = {}"
  by (induction t) (auto simp: escape_Cons)

subsection \<open>Attributes\<close>

text \<open>A tag whose attributes, if any, are a sound table.\<close>

definition tag_ok :: "'a stanza_node_scheme \<Rightarrow> bool" where
  "tag_ok n \<longleftrightarrow> s_type n = XMPP_STANZA_TAG \<and>
     (case s_attributes n of None \<Rightarrow> True | Some h \<Rightarrow> hash_ok h)"

definition attr_map :: "'a stanza_node_scheme \<Rightarrow> string \<rightharpoonup> string" where
  "attr_map n = (case s_attributes n of None \<Rightarrow> Map.empty | Some h \<Rightarrow> hash_map h)"

lemma get_attribute_map:
  "tag_ok n \<Longrightarrow> ascii k \<Longrightarrow> xmpp_stanza_get_attribute n k = Some (attr_map n k)"
  by (auto simp: tag_ok_def xmpp_stanza_get_attribute_def attr_map_def hash_get_map hash_key_ascii
      split: option.splits)

lemmas convenience_getters = xmpp_stanza_get_id_def xmpp_stanza_get_ns_def xmpp_stanza_get_type_def
  xmpp_stanza_get_attribute_def

lemma get_convenience:
  "xmpp_stanza_get_id n = xmpp_stanza_get_attribute n ''id''"
  "xmpp_stanza_get_ns n = xmpp_stanza_get_attribute n ''xmlns''"
  "xmpp_stanza_get_type n = xmpp_stanza_get_attribute n ''type''"
  by (simp_all add: convenience_getters)


lemma set_attribute_spec:
  assumes "tag_ok n" "ascii key"
  shows "\<exists>r n' m'. xmpp_stanza_set_attribute m n key value = Some (r, n', m') \<and> tag_ok n' \<and> s_data n' = s_data n \<and>
    (r = XMPP_EOK \<and> (attr_map n' = (attr_map n)(key \<mapsto> value) \<or> attr_map n' = (attr_map n)(key := None)) \<or>
     r = XMPP_EMEM \<and> attr_map n' = attr_map n) \<and>
    (m = [] \<longrightarrow> r = XMPP_EOK \<and> m' = [] \<and> attr_map n' = (attr_map n)(key \<mapsto> value))"
proof -
  have tag: "s_type n = XMPP_STANZA_TAG" using assms(1) by (simp add: tag_ok_def)
  define src where "src = (case s_attributes n of None \<Rightarrow> hash_new m 8 True | Some h \<Rightarrow> (Some h, m))"
  obtain h m1 where src: "src = (h, m1)" by (rule prod.exhaust)
  have unf: "xmpp_stanza_set_attribute m n key value = (case src of
      (None, m) \<Rightarrow> Some (XMPP_EMEM, n, m)
    | (Some h, m) \<Rightarrow> (case xmpp_strdup m value of
         (None, m) \<Rightarrow> Some (XMPP_EMEM, n\<lparr>s_attributes := Some h\<rparr>, m)
       | (Some val, m) \<Rightarrow> do {
           (_, h, _, m) \<leftarrow> hash_add m h key val;
           Some (XMPP_EOK, n\<lparr>s_attributes := Some h\<rparr>, m) }))"
    using tag by (simp add: xmpp_stanza_set_attribute_def src_def)
  show ?thesis
  proof (cases h)
    case None
    then show ?thesis using src assms(1) unf by (auto simp: src_def split: option.splits)
  next
    case (Some t)
    have t: "hash_ok t" "hash_map t = attr_map n" "m = [] \<longrightarrow> m1 = []"
    proof -
      show "hash_ok t" "hash_map t = attr_map n" "m = [] \<longrightarrow> m1 = []"
        using src Some assms(1) hash_new_ok [of m 8 True t m1]
        by (auto simp: src_def tag_ok_def attr_map_def split: option.splits)
    qed
    obtain d m2 where dup: "xmpp_strdup m1 value = (d, m2)" by (rule prod.exhaust)
    show ?thesis
    proof (cases d)
      case None
      then show ?thesis using src Some dup t tag unf
        by (auto simp: tag_ok_def attr_map_def)
    next
      case (Some val)
      then have val: "val = value" "m = [] \<longrightarrow> m2 = []"
        using dup xmpp_strdup_result [OF dup] t(3) by auto
      obtain r t' freed m' where a: "hash_add m2 t key val = Some (r, t', freed, m')" "hash_ok t'"
        "r = 0 \<and> hash_map t' = (hash_map t)(key \<mapsto> val) \<or> r = - 1 \<and> hash_map t' = (hash_map t)(key := None)"
        "m2 = [] \<longrightarrow> r = 0 \<and> m' = []"
        using hash_add_spec [OF t(1) hash_key_ascii [OF t(1) assms(2)], of m2 val] by blast
      then have "xmpp_stanza_set_attribute m n key value = Some (XMPP_EOK, n\<lparr>s_attributes := Some t'\<rparr>, m')"
        using unf src \<open>h = Some t\<close> dup Some by simp
      then show ?thesis
        using a t val tag by (auto simp: tag_ok_def attr_map_def)
    qed
  qed
qed

subsection \<open>Properties\<close>


definition text_node :: "string \<Rightarrow> stanza" where
  "text_node t = Stanza \<lparr> s_type = XMPP_STANZA_TEXT, s_data = Some t, s_attributes = None \<rparr> []"

definition tag_node :: "string \<Rightarrow> stanza list \<Rightarrow> stanza" where
  "tag_node t kids = Stanza \<lparr> s_type = XMPP_STANZA_TAG, s_data = Some t, s_attributes = None \<rparr> kids"


text \<open>Claim C25. Escaped text contains no markup character and reads back, by the entities of XML, as the
  original, and the buffer computed for it is filled exactly.\<close>

theorem escape_xml_correct:
  "escape_xml [] t = Some (Some (escape t), []) \<and> length (escape t) = escaped_len t \<and>
   set (escape t) \<inter> {CHR ''<'', CHR ''>'', CHR 0x22} = {} \<and> unescape (escape t) = t"
  using escape_xml_exact [of "[]" t] escaped_len [of t] escape_markup [of t] unescape_escape [of t] by simp

text \<open>Setting an attribute with an ASCII key on a tag: the others keep their values; on \<open>XMPP_EMEM\<close>
  nothing changed, and on \<open>XMPP_EOK\<close> the attribute has the new value or, when the table could not
  allocate its entry, is gone.\<close>

theorem set_attribute_correct:
  assumes "tag_ok n" "ascii key" "ascii k"
  shows "\<exists>r n' m'. xmpp_stanza_set_attribute m n key value = Some (r, n', m') \<and> tag_ok n' \<and>
    (k \<noteq> key \<longrightarrow> xmpp_stanza_get_attribute n' k = xmpp_stanza_get_attribute n k) \<and>
    (r = XMPP_EOK \<and> xmpp_stanza_get_attribute n' key \<in> {Some (Some value), Some None} \<or>
     r = XMPP_EMEM \<and> xmpp_stanza_get_attribute n' key = xmpp_stanza_get_attribute n key) \<and>
    (m = [] \<longrightarrow> r = XMPP_EOK \<and> xmpp_stanza_get_attribute n' key = Some (Some value))"
proof -
  obtain r n' m' where a: "xmpp_stanza_set_attribute m n key value = Some (r, n', m')" "tag_ok n'"
    "r = XMPP_EOK \<and> (attr_map n' = (attr_map n)(key \<mapsto> value) \<or> attr_map n' = (attr_map n)(key := None)) \<or>
     r = XMPP_EMEM \<and> attr_map n' = attr_map n"
    "m = [] \<longrightarrow> r = XMPP_EOK \<and> attr_map n' = (attr_map n)(key \<mapsto> value)"
    using set_attribute_spec [OF assms(1,2), of m "value"] by blast
  then show ?thesis
    using get_attribute_map [OF assms(1)] get_attribute_map [OF a(2)] assms(2,3) by auto
qed

definition tag_with_id :: stanza_node where
  "tag_with_id = \<lparr> s_type = XMPP_STANZA_TAG, s_data = Some ''iq'',
     s_attributes = (case hash_add [] (fresh_table 8 True) ''id'' ''1'' of Some (_, t, _) \<Rightarrow> Some t | None \<Rightarrow> None) \<rparr>"

theorem set_attribute_correct_witness:
  "(\<exists>n' m'. xmpp_stanza_set_attribute [] tag_with_id ''to'' ''b'' = Some (XMPP_EOK, n', m') \<and>
      xmpp_stanza_get_attribute n' ''to'' = Some (Some ''b'') \<and> xmpp_stanza_get_attribute n' ''id'' = Some (Some ''1'')) \<and>
   (case xmpp_stanza_set_attribute [True, False] tag_with_id ''id'' ''2'' of
      None \<Rightarrow> False | Some (r, n', _) \<Rightarrow> r = XMPP_EOK \<and> xmpp_stanza_get_attribute n' ''id'' = Some None)"
proof -
  have k: "key_ok (fresh_table 8 True :: string hash_t) ''id''"
    by (rule hash_key_ascii [OF fresh_table_ok]) simp_all
  have ok: "tag_ok tag_with_id"
    using hash_add_spec [OF fresh_table_ok k, of "[]" "''1''"] by (auto simp: tag_ok_def tag_with_id_def)
  have g: "xmpp_stanza_get_attribute tag_with_id ''id'' = Some (Some ''1'')" by code_simp
  have f: "case xmpp_stanza_set_attribute [True, False] tag_with_id ''id'' ''2'' of
      None \<Rightarrow> False | Some (r, n', _) \<Rightarrow> r = XMPP_EOK \<and> xmpp_stanza_get_attribute n' ''id'' = Some None" by code_simp
  show ?thesis
    using set_attribute_correct [OF ok, of "''to''" "''id''" "[]" "''b''"] g f by auto
qed

end
