(* ===== verification/Handlers.thy ===== *)
theory Handlers
  imports Stanza
begin

section \<open>Handlers (handler.c)\<close>

text \<open>
  Models \<open>src/handler.c\<close>.  Handler items are objects linked by \<open>next\<close> pointers, and handlers that
  run may add and delete items, so the items live in a store of their own and every access to a freed
  one is undefined.  A handler function is known by its identity, an element of a type \<open>'h\<close>, and what it does
  is given by an argument \<open>run\<close> of the functions that call handlers.  The part of a connection
  that the handlers use is a record that the theory of connections extends.  \<open>time_stamp\<close> reads the
  next value of a clock script, whose last value stays.
\<close>

subsection \<open>State\<close>

datatype xmpp_conn_state_t = XMPP_STATE_DISCONNECTED | XMPP_STATE_CONNECTING | XMPP_STATE_CONNECTED

text \<open>The union of the item: timed handlers, handlers by id, and handlers with filters.\<close>

datatype handkey =
  Timed_key (hk_period: u64) (hk_last_stamp: u64)
| Id_key string
| Filter_key (hk_ns: "string option") (hk_name: "string option") (hk_type: "string option")

record ('h, 'u) handlist =
  hl_user_handler :: bool
  hl_handler :: 'h
  hl_userdata :: 'u
  hl_enabled :: bool
  hl_next :: "nat option"
  hl_key :: handkey

record ('h, 'u) hconn =
  hc_items :: "nat \<Rightarrow> ('h, 'u) handlist option"
  hc_fresh :: nat
  hc_mem :: mem
  hc_clock :: "u64 list"
  conn_state :: xmpp_conn_state_t
  authenticated :: bool
  timed_handlers :: "nat option"
  id_handlers :: "nat option hash_t"
  handlers :: "nat option"

definition put_item :: "('h, 'u, 'z) hconn_scheme \<Rightarrow> nat \<Rightarrow> ('h, 'u) handlist \<Rightarrow> ('h, 'u, 'z) hconn_scheme" where
  "put_item c p i = c\<lparr>hc_items := (hc_items c)(p := Some i)\<rparr>"

definition free_item :: "('h, 'u, 'z) hconn_scheme \<Rightarrow> nat \<Rightarrow> ('h, 'u, 'z) hconn_scheme" where
  "free_item c p = c\<lparr>hc_items := (hc_items c)(p := None)\<rparr>"

definition time_stamp :: "('h, 'u, 'z) hconn_scheme \<Rightarrow> u64 \<times> ('h, 'u, 'z) hconn_scheme" where
  "time_stamp c = (case hc_clock c of [] \<Rightarrow> (0, c) | [t] \<Rightarrow> (t, c) | t # ts \<Rightarrow> (t, c\<lparr>hc_clock := ts\<rparr>))"

definition conn_alloc :: "('h, 'u, 'z) hconn_scheme \<Rightarrow> bool \<times> ('h, 'u, 'z) hconn_scheme" where
  "conn_alloc c = (case xmpp_alloc (hc_mem c) of (ok, m) \<Rightarrow> (ok, c\<lparr>hc_mem := m\<rparr>))"

text \<open>\<open>xmpp_strdup\<close> of a string that may be \<open>NULL\<close>, with the test around it: whether it failed.\<close>

definition conn_strdup :: "('h, 'u, 'z) hconn_scheme \<Rightarrow> string option \<Rightarrow> bool \<times> ('h, 'u, 'z) hconn_scheme" where
  "conn_strdup c s = (case s of None \<Rightarrow> (True, c) | Some _ \<Rightarrow> conn_alloc c)"

subsection \<open>Chains of items\<close>

text \<open>The loop that looks for a handler, with the pointer \<open>prev\<close> that follows it.\<close>

partial_function (option) find_handler ::
    "('h, 'u, 'z) hconn_scheme \<Rightarrow> 'h \<Rightarrow> nat option \<Rightarrow> nat option \<Rightarrow> (nat option \<times> nat option) option" where
  "find_handler c h prev item =
     (case item of
        None \<Rightarrow> Some (prev, None)
      | Some p \<Rightarrow> Option.bind (hc_items c p) (\<lambda>i.
          if hl_handler i = h then Some (prev, Some p)
          else find_handler c h (Some p) (hl_next i)))"

text \<open>\<open>while (tail->next) tail = tail->next;\<close>\<close>

partial_function (option) last_item :: "('h, 'u, 'z) hconn_scheme \<Rightarrow> nat \<Rightarrow> nat option" where
  "last_item c tail = Option.bind (hc_items c tail) (\<lambda>i.
     case hl_next i of None \<Rightarrow> Some tail | Some n \<Rightarrow> last_item c n)"

text \<open>Appending an item behind a head pointer: the head afterwards.\<close>

definition append_item ::
    "('h, 'u, 'z) hconn_scheme \<Rightarrow> nat option \<Rightarrow> nat \<Rightarrow> (nat option \<times> ('h, 'u, 'z) hconn_scheme) option" where
  "append_item c head p =
     (case head of
        None \<Rightarrow> Some (Some p, c)
      | Some tail \<Rightarrow> do {
          tail \<leftarrow> last_item c tail;
          i \<leftarrow> hc_items c tail;
          Some (head, put_item c tail (i\<lparr>hl_next := Some p\<rparr>)) })"

definition new_item :: "('h, 'u, 'z) hconn_scheme \<Rightarrow> ('h, 'u) handlist \<Rightarrow> nat \<times> ('h, 'u, 'z) hconn_scheme" where
  "new_item c i = (hc_fresh c, (put_item c (hc_fresh c) i)\<lparr>hc_fresh := hc_fresh c + 1\<rparr>)"

text \<open>\<open>prev->next = next\<close>.\<close>

definition set_next ::
    "('h, 'u, 'z) hconn_scheme \<Rightarrow> nat \<Rightarrow> nat option \<Rightarrow> ('h, 'u, 'z) hconn_scheme option" where
  "set_next c p next = do {
     i \<leftarrow> hc_items c p;
     Some (put_item c p (i\<lparr>hl_next := next\<rparr>)) }"

text \<open>\<open>item->enabled = 1\<close> along a chain.\<close>

partial_function (option) enable_loop ::
    "nat option \<Rightarrow> ('h, 'u, 'z) hconn_scheme \<Rightarrow> ('h, 'u, 'z) hconn_scheme option" where
  "enable_loop item c =
     (case item of
        None \<Rightarrow> Some c
      | Some p \<Rightarrow> Option.bind (hc_items c p) (\<lambda>i.
          enable_loop (hl_next i) (put_item c p (i\<lparr>hl_enabled := True\<rparr>))))"

subsection \<open>Timed handlers\<close>

definition timed_handler_add_common ::
    "('h, 'u, 'z) hconn_scheme \<Rightarrow> 'h \<Rightarrow> u64 \<Rightarrow> 'u \<Rightarrow> bool \<Rightarrow> ('h, 'u, 'z) hconn_scheme option" where
  "timed_handler_add_common c h period userdata user_handler = do {
     (_, item) \<leftarrow> find_handler c h None (timed_handlers c);
     if item \<noteq> None then Some c
     else (case conn_alloc c of
       (False, c) \<Rightarrow> Some c
     | (True, c) \<Rightarrow>
         (case time_stamp c of (now, c) \<Rightarrow>
          (case new_item c \<lparr> hl_user_handler = user_handler, hl_handler = h, hl_userdata = userdata,
              hl_enabled = False, hl_next = None, hl_key = Timed_key period now \<rparr> of (p, c) \<Rightarrow> do {
             (head, c) \<leftarrow> append_item c (timed_handlers c) p;
             Some (c\<lparr>timed_handlers := head\<rparr>) }))) }"

definition xmpp_timed_handler_add ::
    "('h, 'u, 'z) hconn_scheme \<Rightarrow> 'h \<Rightarrow> u64 \<Rightarrow> 'u \<Rightarrow> ('h, 'u, 'z) hconn_scheme option" where
  "xmpp_timed_handler_add c h period userdata = timed_handler_add_common c h period userdata True"

definition handler_add_timed ::
    "('h, 'u, 'z) hconn_scheme \<Rightarrow> 'h \<Rightarrow> u64 \<Rightarrow> 'u \<Rightarrow> ('h, 'u, 'z) hconn_scheme option" where
  "handler_add_timed c h period userdata = timed_handler_add_common c h period userdata False"

definition xmpp_timed_handler_delete ::
    "('h, 'u, 'z) hconn_scheme \<Rightarrow> 'h \<Rightarrow> ('h, 'u, 'z) hconn_scheme option" where
  "xmpp_timed_handler_delete c h = do {
     (prev, item) \<leftarrow> find_handler c h None (timed_handlers c);
     case item of
       None \<Rightarrow> Some c
     | Some p \<Rightarrow> do {
         i \<leftarrow> hc_items c p;
         c \<leftarrow> (case prev of
                Some q \<Rightarrow> set_next c q (hl_next i)
              | None \<Rightarrow> Some (c\<lparr>timed_handlers := hl_next i\<rparr>));
         Some (free_item c p) } }"

text \<open>The loop over the timed handlers of one connection, with the running minimum.\<close>

partial_function (option) fire_timed_loop ::
    "('h \<Rightarrow> 'u \<Rightarrow> ('h, 'u, 'z) hconn_scheme \<Rightarrow> (bool \<times> ('h, 'u, 'z) hconn_scheme) option) \<Rightarrow>
      nat option \<Rightarrow> u64 \<Rightarrow> ('h, 'u, 'z) hconn_scheme \<Rightarrow> (u64 \<times> ('h, 'u, 'z) hconn_scheme) option" where
  "fire_timed_loop run item mn c =
     (case item of
        None \<Rightarrow> Some (mn, c)
      | Some p \<Rightarrow> Option.bind (hc_items c p) (\<lambda>i.
          if \<not> hl_enabled i then fire_timed_loop run (hl_next i) mn c
          else if hl_user_handler i \<and> \<not> authenticated c then fire_timed_loop run (hl_next i) mn c
          else
            (case time_stamp c of (now, c) \<Rightarrow>
             (let elapsed = time_elapsed (hk_last_stamp (hl_key i)) now;
                  period = hk_period (hl_key i)
              in if elapsed \<ge> period then
                   (case time_stamp c of (now, c) \<Rightarrow>
                    Option.bind (run (hl_handler i) (hl_userdata i)
                        (put_item c p (i\<lparr>hl_key := Timed_key period now\<rparr>))) (\<lambda>(ret, c).
                    Option.bind (hc_items c p) (\<lambda>i.
                    Option.bind (if ret then Some c else xmpp_timed_handler_delete c (hl_handler i)) (\<lambda>c.
                      fire_timed_loop run (hl_next i) mn c))))
                 else fire_timed_loop run (hl_next i)
                   (if mn > period - elapsed then period - elapsed else mn) c))))"

definition fire_timed_conn ::
    "('h \<Rightarrow> 'u \<Rightarrow> ('h, 'u, 'z) hconn_scheme \<Rightarrow> (bool \<times> ('h, 'u, 'z) hconn_scheme) option) \<Rightarrow>
      u64 \<Rightarrow> ('h, 'u, 'z) hconn_scheme \<Rightarrow> (u64 \<times> ('h, 'u, 'z) hconn_scheme) option" where
  "fire_timed_conn run mn c =
     (if conn_state c \<noteq> XMPP_STATE_CONNECTED then Some (mn, c)
      else do {
        c \<leftarrow> enable_loop (timed_handlers c) c;
        fire_timed_loop run (timed_handlers c) mn c })"

partial_function (option) reset_timed_loop ::
    "bool \<Rightarrow> nat option \<Rightarrow> ('h, 'u, 'z) hconn_scheme \<Rightarrow> ('h, 'u, 'z) hconn_scheme option" where
  "reset_timed_loop user_only item c =
     (case item of
        None \<Rightarrow> Some c
      | Some p \<Rightarrow> Option.bind (hc_items c p) (\<lambda>i.
          if (user_only \<and> hl_user_handler i) \<or> \<not> user_only then
            (case time_stamp c of (now, c) \<Rightarrow>
             reset_timed_loop user_only (hl_next i)
               (put_item c p (i\<lparr>hl_key := Timed_key (hk_period (hl_key i)) now\<rparr>)))
          else reset_timed_loop user_only (hl_next i) c))"

definition handler_reset_timed ::
    "('h, 'u, 'z) hconn_scheme \<Rightarrow> bool \<Rightarrow> ('h, 'u, 'z) hconn_scheme option" where
  "handler_reset_timed c user_only = reset_timed_loop user_only (timed_handlers c) c"

subsection \<open>Handlers by id\<close>

text \<open>\<open>hash_get(conn->id_handlers, id)\<close>: a missing key and a \<open>NULL\<close> value look the same.\<close>

definition id_lookup :: "('h, 'u, 'z) hconn_scheme \<Rightarrow> string \<Rightarrow> nat option option" where
  "id_lookup c i = do {
     v \<leftarrow> hash_get (id_handlers c) i;
     Some (case v of None \<Rightarrow> None | Some p \<Rightarrow> p) }"

definition id_store :: "('h, 'u, 'z) hconn_scheme \<Rightarrow> string \<Rightarrow> nat option \<Rightarrow> ('h, 'u, 'z) hconn_scheme option" where
  "id_store c i p = do {
     (_, t, _, m) \<leftarrow> hash_add (hc_mem c) (id_handlers c) i p;
     Some (c\<lparr>id_handlers := t, hc_mem := m\<rparr>) }"

definition id_drop_store ::
    "('h, 'u, 'z) hconn_scheme \<Rightarrow> string \<Rightarrow> nat option \<Rightarrow> ('h, 'u, 'z) hconn_scheme option" where
  "id_drop_store c i p = do {
     (_, t, _) \<leftarrow> hash_drop (id_handlers c) i;
     id_store (c\<lparr>id_handlers := t\<rparr>) i p }"

definition id_handler_add_common ::
    "('h, 'u, 'z) hconn_scheme \<Rightarrow> 'h \<Rightarrow> string \<Rightarrow> 'u \<Rightarrow> bool \<Rightarrow> ('h, 'u, 'z) hconn_scheme option" where
  "id_handler_add_common c h i userdata user_handler = do {
     head \<leftarrow> id_lookup c i;
     (_, item) \<leftarrow> find_handler c h None head;
     if item \<noteq> None then Some c
     else (case conn_alloc c of
       (False, c) \<Rightarrow> Some c
     | (True, c) \<Rightarrow>
         (case conn_strdup c (Some i) of
            (False, c) \<Rightarrow> Some c
          | (True, c) \<Rightarrow>
              (case new_item c \<lparr> hl_user_handler = user_handler, hl_handler = h, hl_userdata = userdata,
                  hl_enabled = False, hl_next = None, hl_key = Id_key i \<rparr> of (p, c) \<Rightarrow> do {
                 head \<leftarrow> id_lookup c i;
                 case head of
                   None \<Rightarrow> id_store c i (Some p)
                 | Some _ \<Rightarrow> do { (_, c) \<leftarrow> append_item c head p; Some c } }))) }"

definition xmpp_id_handler_add ::
    "('h, 'u, 'z) hconn_scheme \<Rightarrow> 'h \<Rightarrow> string \<Rightarrow> 'u \<Rightarrow> ('h, 'u, 'z) hconn_scheme option" where
  "xmpp_id_handler_add c h i userdata = id_handler_add_common c h i userdata True"

definition handler_add_id ::
    "('h, 'u, 'z) hconn_scheme \<Rightarrow> 'h \<Rightarrow> string \<Rightarrow> 'u \<Rightarrow> ('h, 'u, 'z) hconn_scheme option" where
  "handler_add_id c h i userdata = id_handler_add_common c h i userdata False"

definition xmpp_id_handler_delete ::
    "('h, 'u, 'z) hconn_scheme \<Rightarrow> 'h \<Rightarrow> string \<Rightarrow> ('h, 'u, 'z) hconn_scheme option" where
  "xmpp_id_handler_delete c h i = do {
     head \<leftarrow> id_lookup c i;
     (prev, item) \<leftarrow> find_handler c h None head;
     case item of
       None \<Rightarrow> Some c
     | Some p \<Rightarrow> do {
         it \<leftarrow> hc_items c p;
         c \<leftarrow> (case prev of
                Some q \<Rightarrow> set_next c q (hl_next it)
              | None \<Rightarrow> id_drop_store c i (hl_next it));
         Some (free_item c p) } }"

subsection \<open>Handlers with filters\<close>

text \<open>After a failed duplication of the type the item is freed, and appended nevertheless.\<close>

definition handler_add_common ::
    "('h, 'u, 'z) hconn_scheme \<Rightarrow> 'h \<Rightarrow> string option \<Rightarrow> string option \<Rightarrow> string option \<Rightarrow> 'u \<Rightarrow> bool \<Rightarrow>
      ('h, 'u, 'z) hconn_scheme option" where
  "handler_add_common c h ns name type userdata user_handler = do {
     (_, item) \<leftarrow> find_handler c h None (handlers c);
     if item \<noteq> None then Some c
     else (case conn_alloc c of
       (False, c) \<Rightarrow> Some c
     | (True, c) \<Rightarrow>
         (case conn_strdup c ns of
            (False, c) \<Rightarrow> Some c
          | (True, c) \<Rightarrow>
              (case conn_strdup c name of
                 (False, c) \<Rightarrow> Some c
               | (True, c) \<Rightarrow>
                   (case conn_strdup c type of (ok, c) \<Rightarrow>
                    (case new_item c \<lparr> hl_user_handler = user_handler, hl_handler = h, hl_userdata = userdata,
                        hl_enabled = False, hl_next = None, hl_key = Filter_key ns name type \<rparr> of (p, c) \<Rightarrow> do {
                       (head, c) \<leftarrow> append_item (if ok then c else free_item c p) (handlers c) p;
                       Some (c\<lparr>handlers := head\<rparr>) }))))) }"

definition xmpp_handler_add ::
    "('h, 'u, 'z) hconn_scheme \<Rightarrow> 'h \<Rightarrow> string option \<Rightarrow> string option \<Rightarrow> string option \<Rightarrow> 'u \<Rightarrow>
      ('h, 'u, 'z) hconn_scheme option" where
  "xmpp_handler_add c h ns name type userdata = handler_add_common c h ns name type userdata True"

definition handler_add ::
    "('h, 'u, 'z) hconn_scheme \<Rightarrow> 'h \<Rightarrow> string option \<Rightarrow> string option \<Rightarrow> string option \<Rightarrow> 'u \<Rightarrow>
      ('h, 'u, 'z) hconn_scheme option" where
  "handler_add c h ns name type userdata = handler_add_common c h ns name type userdata False"

definition xmpp_handler_delete ::
    "('h, 'u, 'z) hconn_scheme \<Rightarrow> 'h \<Rightarrow> ('h, 'u, 'z) hconn_scheme option" where
  "xmpp_handler_delete c h = do {
     (prev, item) \<leftarrow> find_handler c h None (handlers c);
     case item of
       None \<Rightarrow> Some c
     | Some p \<Rightarrow> do {
         i \<leftarrow> hc_items c p;
         c \<leftarrow> (case prev of
                Some q \<Rightarrow> set_next c q (hl_next i)
              | None \<Rightarrow> Some (c\<lparr>handlers := hl_next i\<rparr>));
         Some (free_item c p) } }"

subsection \<open>Firing the handlers of a stanza\<close>

type_synonym ('h, 'u, 'z) stanza_run =
  "'h \<Rightarrow> stanza \<Rightarrow> 'u \<Rightarrow> ('h, 'u, 'z) hconn_scheme \<Rightarrow> (bool \<times> ('h, 'u, 'z) hconn_scheme) option"

text \<open>A user handler that is skipped does not become \<open>prev\<close>.\<close>

partial_function (option) fire_id_loop ::
    "('h, 'u, 'z) stanza_run \<Rightarrow> stanza \<Rightarrow> string \<Rightarrow> nat option \<Rightarrow> nat option \<Rightarrow>
      ('h, 'u, 'z) hconn_scheme \<Rightarrow> ('h, 'u, 'z) hconn_scheme option" where
  "fire_id_loop run stanza i prev item c =
     (case item of
        None \<Rightarrow> Some c
      | Some p \<Rightarrow> Option.bind (hc_items c p) (\<lambda>it.
          if hl_user_handler it \<and> \<not> authenticated c then fire_id_loop run stanza i prev (hl_next it) c
          else Option.bind (run (hl_handler it) stanza (hl_userdata it) c) (\<lambda>(ret, c).
            if ret then fire_id_loop run stanza i (Some p) (hl_next it) c
            else Option.bind (case prev of
                Some q \<Rightarrow> set_next c q (hl_next it)
              | None \<Rightarrow> id_drop_store c i (hl_next it)) (\<lambda>c.
                Option.bind (hc_items c p) (\<lambda>_.
                fire_id_loop run stanza i prev (hl_next it) (free_item c p))))))"

text \<open>The test of the three filters, in the order of the code.\<close>

definition handler_matches ::
    "stanza \<Rightarrow> string option \<Rightarrow> string option \<Rightarrow> string option \<Rightarrow> handkey \<Rightarrow> bool option" where
  "handler_matches stanza ns name type k = do {
     a \<leftarrow> (case hk_ns k of
            None \<Rightarrow> Some True
          | Some n \<Rightarrow>
              if ns = Some n then Some True
              else map_option (\<lambda>r. r \<noteq> []) (xmpp_stanza_get_child_by_ns stanza n));
     Some (a \<and> (hk_name k = None \<or> name = hk_name k) \<and> (hk_type k = None \<or> type = hk_type k)) }"

text \<open>The loop over the list; \<open>call\<close> runs a handler on the stanza and \<open>test\<close> is the test of the filters.\<close>

partial_function (option) fire_loop ::
    "('h \<Rightarrow> 'u \<Rightarrow> ('h, 'u, 'z) hconn_scheme \<Rightarrow> (bool \<times> ('h, 'u, 'z) hconn_scheme) option) \<Rightarrow>
      (handkey \<Rightarrow> bool option) \<Rightarrow> nat option \<Rightarrow> nat option \<Rightarrow> ('h, 'u, 'z) hconn_scheme \<Rightarrow> ('h, 'u, 'z) hconn_scheme option" where
  "fire_loop call test prev item c =
     (case item of
        None \<Rightarrow> Some c
      | Some p \<Rightarrow> Option.bind (hc_items c p) (\<lambda>it.
          if \<not> hl_enabled it \<or> (hl_user_handler it \<and> \<not> authenticated c)
          then fire_loop call test (Some p) (hl_next it) c
          else Option.bind (test (hl_key it)) (\<lambda>match.
            if \<not> match then fire_loop call test (Some p) (hl_next it) c
            else Option.bind (call (hl_handler it) (hl_userdata it) c) (\<lambda>(ret, c).
              Option.bind (hc_items c p) (\<lambda>it.
              if ret then fire_loop call test (Some p) (hl_next it) c
              else
                (case prev of
                   Some q \<Rightarrow> Option.bind (set_next c q (hl_next it)) (\<lambda>c.
                     Option.bind (hc_items (free_item c p) q) (\<lambda>iq.
                       fire_loop call test prev (hl_next iq) (free_item c p)))
                 | None \<Rightarrow>
                     fire_loop call test None (hl_next it)
                       (free_item (c\<lparr>handlers := hl_next it\<rparr>) p)))))))"

definition handler_fire_stanza ::
    "('h, 'u, 'z) stanza_run \<Rightarrow> ('h, 'u, 'z) hconn_scheme \<Rightarrow> stanza \<Rightarrow> ('h, 'u, 'z) hconn_scheme option" where
  "handler_fire_stanza run c stanza = do {
     i \<leftarrow> xmpp_stanza_get_id (s_node stanza);
     c \<leftarrow> (case i of
            None \<Rightarrow> Some c
          | Some i \<Rightarrow> do {
              item \<leftarrow> id_lookup c i;
              fire_id_loop run stanza i None item c });
     ns \<leftarrow> xmpp_stanza_get_ns (s_node stanza);
     type \<leftarrow> xmpp_stanza_get_type (s_node stanza);
     c \<leftarrow> enable_loop (handlers c) c;
     fire_loop (\<lambda>h. run h stanza) (handler_matches stanza ns (xmpp_stanza_get_name (s_node stanza)) type) None (handlers c) c }"

declare find_handler.simps [code] last_item.simps [code] enable_loop.simps [code] fire_timed_loop.simps [code]
  reset_timed_loop.simps [code] fire_id_loop.simps [code] fire_loop.simps [code]

end
