(* ===== verification/Jid.thy ===== *)
theory Jid
  imports Ctx
begin

section \<open>Jabber identifiers (jid.c)\<close>

text \<open>
  Models \<open>src/jid.c\<close>: \<open>node@domain/resource\<close> identifiers are put together and taken apart.
  Every function makes one allocation, and returns \<open>NULL\<close> when it fails.  The lemmas relate the
  parsers to the printer in both directions, and show what a resource with an \<open>@\<close> does to a JID
  without a node.
\<close>

subsection \<open>Operations\<close>

text \<open>A buffer of the given contents, when the allocator grants it.\<close>

definition alloc_string :: "mem \<Rightarrow> string \<Rightarrow> string option \<times> mem" where
  "alloc_string m s = (case xmpp_alloc m of (ok, m') \<Rightarrow> (if ok then Some s else None, m'))"

definition xmpp_jid_new ::
    "mem \<Rightarrow> string option \<Rightarrow> string option \<Rightarrow> string option \<Rightarrow> string option \<times> mem" where
  "xmpp_jid_new m node domain resource =
     (case domain of
        None \<Rightarrow> (None, m)
      | Some d \<Rightarrow>
          alloc_string m
            ((case node of None \<Rightarrow> [] | Some n \<Rightarrow> n @ ''@'') @ d @
             (case resource of None \<Rightarrow> [] | Some r \<Rightarrow> CHR ''/'' # r)))"

definition xmpp_jid_bare :: "mem \<Rightarrow> string \<Rightarrow> string option \<times> mem" where
  "xmpp_jid_bare m jid =
     (case strchr jid CHR ''/'' of
        None \<Rightarrow> xmpp_strdup m jid
      | Some c \<Rightarrow> alloc_string m (take (length jid - length c) jid))"

definition xmpp_jid_node :: "mem \<Rightarrow> string \<Rightarrow> string option \<times> mem" where
  "xmpp_jid_node m jid =
     (case strchr jid CHR ''@'' of
        None \<Rightarrow> (None, m)
      | Some c \<Rightarrow> alloc_string m (take (length jid - length c) jid))"

definition xmpp_jid_domain :: "mem \<Rightarrow> string \<Rightarrow> string option \<times> mem" where
  "xmpp_jid_domain m jid =
     (let c = (case strchr jid CHR ''@'' of None \<Rightarrow> jid | Some c \<Rightarrow> tl c);
          s = (case strchr c CHR ''/'' of None \<Rightarrow> [] | Some s \<Rightarrow> s)
      in alloc_string m (take (length c - length s) c))"

definition xmpp_jid_resource :: "mem \<Rightarrow> string \<Rightarrow> string option \<times> mem" where
  "xmpp_jid_resource m jid =
     (case strchr jid CHR ''/'' of
        None \<Rightarrow> (None, m)
      | Some c \<Rightarrow> alloc_string m (tl c))"

subsection \<open>Lemmas\<close>

named_theorems jid_simps

lemma alloc_string_Nil [simp]: "alloc_string [] s = (Some s, [])"
  by (simp add: alloc_string_def)

lemma fst_alloc_string: "fst (alloc_string m s) \<in> {None, Some s}"
  by (auto simp: alloc_string_def split: prod.splits)

lemma bare_prefix [jid_simps]: "CHR ''/'' \<notin> set p \<Longrightarrow> fst (xmpp_jid_bare [] (p @ CHR ''/'' # r)) = Some p"
  by (simp add: xmpp_jid_bare_def strchr_append)

lemma bare_none [jid_simps]: "CHR ''/'' \<notin> set p \<Longrightarrow> fst (xmpp_jid_bare [] p) = Some p"
  by (simp add: xmpp_jid_bare_def strchr_None [THEN iffD2])

lemma node_prefix [jid_simps]: "CHR ''@'' \<notin> set p \<Longrightarrow> fst (xmpp_jid_node [] (p @ CHR ''@'' # r)) = Some p"
  by (simp add: xmpp_jid_node_def strchr_append)

lemma node_none [jid_simps]: "CHR ''@'' \<notin> set p \<Longrightarrow> fst (xmpp_jid_node [] p) = None"
  by (simp add: xmpp_jid_node_def strchr_None [THEN iffD2])

lemma resource_suffix [jid_simps]:
  "CHR ''/'' \<notin> set p \<Longrightarrow> fst (xmpp_jid_resource [] (p @ CHR ''/'' # r)) = Some r"
  by (simp add: xmpp_jid_resource_def strchr_append)

lemma resource_none [jid_simps]: "CHR ''/'' \<notin> set p \<Longrightarrow> fst (xmpp_jid_resource [] p) = None"
  by (simp add: xmpp_jid_resource_def strchr_None [THEN iffD2])

text \<open>The domain: what follows the first \<open>@\<close>, up to the next slash.\<close>

lemma domain_takeWhile [jid_simps]:
  "fst (xmpp_jid_domain [] jid) =
    Some (takeWhile (\<lambda>x. x \<noteq> CHR ''/'')
      (case strchr jid CHR ''@'' of None \<Rightarrow> jid | Some c \<Rightarrow> tl c))"
proof -
  have "take (length c - length (case strchr c CHR ''/'' of None \<Rightarrow> [] | Some s \<Rightarrow> s)) c =
      takeWhile (\<lambda>x. x \<noteq> CHR ''/'') c" for c :: string
  proof (cases "CHR ''/'' \<in> set c")
    case True
    then obtain p r where "c = p @ CHR ''/'' # r" "CHR ''/'' \<notin> set p" by (metis split_list_first)
    then show ?thesis by (simp add: strchr_append)
  next
    case False
    then show ?thesis by (simp add: strchr_None [THEN iffD2])
  qed
  then show ?thesis
    by (simp add: xmpp_jid_domain_def Let_def)
qed

subsection \<open>Properties\<close>

text \<open>A JID printed by \<open>xmpp_jid_new\<close> is taken apart into its components again, its
  bare form is node and domain, and without a domain there is no JID.  The separators must not
  occur in node and domain; a resource may hold an \<open>@\<close> only when there is a node.\<close>

theorem jid_parse_print:
  assumes "CHR ''@'' \<notin> set d" "CHR ''/'' \<notin> set d"
    and "\<And>n. node = Some n \<Longrightarrow> CHR ''@'' \<notin> set n \<and> CHR ''/'' \<notin> set n"
    and "\<And>r. node = None \<Longrightarrow> res = Some r \<Longrightarrow> CHR ''@'' \<notin> set r"
  shows "xmpp_jid_new m node None res = (None, m) \<and>
    (\<exists>jid. xmpp_jid_new [] node (Some d) res = (Some jid, []) \<and>
      fst (xmpp_jid_node [] jid) = node \<and>
      fst (xmpp_jid_domain [] jid) = Some d \<and>
      fst (xmpp_jid_resource [] jid) = res \<and>
      fst (xmpp_jid_bare [] jid) = fst (xmpp_jid_new [] node (Some d) None))"
proof -
  let ?slash = "case res of None \<Rightarrow> [] | Some r \<Rightarrow> CHR ''/'' # r"
  have tw: "takeWhile (\<lambda>x. x \<noteq> CHR ''/'') (d @ ?slash) = d"
    using assms(2) by (cases res) simp_all
  show ?thesis
  proof (cases node)
    case None
    have "CHR ''@'' \<notin> set (d @ ?slash)"
      using assms(1,4) None by (cases res) auto
    then have "strchr (d @ ?slash) CHR ''@'' = None" "fst (xmpp_jid_node [] (d @ ?slash)) = None"
      by (simp_all add: strchr_None jid_simps)
    then show ?thesis
      using None assms(2) tw by (cases res) (simp_all add: xmpp_jid_new_def jid_simps)
  next
    case (Some n)
    with assms(3) have n: "CHR ''@'' \<notin> set n" "CHR ''/'' \<notin> set n" by simp_all
    have s: "CHR ''/'' \<notin> set (n @ CHR ''@'' # d)" using n assms(2) by simp
    then show ?thesis
      using Some n assms(2) tw bare_prefix [OF s] resource_suffix [OF s]
      by (cases res) (simp_all add: xmpp_jid_new_def jid_simps strchr_append)
  qed
qed

theorem jid_parse_print_witness:
  "CHR ''@'' \<notin> set ''example.com'' \<and>
    fst (xmpp_jid_node [] ''anyone@example.com/hu@llo'') = Some ''anyone'' \<and>
    fst (xmpp_jid_domain [] ''anyone@example.com/hu@llo'') = Some ''example.com''"
  using jid_parse_print [of "''example.com''" "Some ''anyone''" "Some ''hu@llo''" "[]"]
  by (simp add: xmpp_jid_new_def)

text \<open>Printing the components of a JID gives the JID back, provided no slash comes before
  its first \<open>@\<close>; otherwise (a resource with an \<open>@\<close> after a domain without a node) the node
  swallows domain and slash.\<close>

theorem jid_print_parse:
  "(CHR ''@'' \<notin> set jid \<or> CHR ''/'' \<notin> set (takeWhile (\<lambda>x. x \<noteq> CHR ''@'') jid) \<longrightarrow>
      fst (xmpp_jid_new [] (fst (xmpp_jid_node [] jid)) (fst (xmpp_jid_domain [] jid))
        (fst (xmpp_jid_resource [] jid))) = Some jid) \<and>
   (CHR ''@'' \<notin> set d \<and> CHR ''@'' \<notin> set a \<longrightarrow>
      fst (xmpp_jid_node [] (d @ ''/'' @ a @ ''@'' @ b)) = Some (d @ ''/'' @ a))"
proof -
  have split: "takeWhile (\<lambda>x. x \<noteq> CHR ''/'') s @
      (case fst (xmpp_jid_resource [] s) of None \<Rightarrow> [] | Some r \<Rightarrow> CHR ''/'' # r) = s" for s
  proof (cases "CHR ''/'' \<in> set s")
    case True
    then obtain p r where "s = p @ CHR ''/'' # r" "CHR ''/'' \<notin> set p" by (metis split_list_first)
    then show ?thesis by (simp add: jid_simps)
  qed (simp add: jid_simps)
  have "fst (xmpp_jid_new [] (fst (xmpp_jid_node [] jid)) (fst (xmpp_jid_domain [] jid))
        (fst (xmpp_jid_resource [] jid))) = Some jid"
    if a: "CHR ''@'' \<notin> set jid \<or> CHR ''/'' \<notin> set (takeWhile (\<lambda>x. x \<noteq> CHR ''@'') jid)"
  proof (cases "strchr jid CHR ''@''")
    case None
    then have "fst (xmpp_jid_node [] jid) = None" by (simp add: xmpp_jid_node_def)
    then show ?thesis
      using split [of jid] None by (simp add: xmpp_jid_new_def jid_simps)
  next
    case (Some c)
    then obtain p r where j: "jid = p @ CHR ''@'' # r" "CHR ''@'' \<notin> set p" "c = CHR ''@'' # r"
      by (auto simp: strchr_Some)
    with a have p: "CHR ''/'' \<notin> set p" by simp
    have "strchr jid CHR ''/'' = strchr r CHR ''/''"
      using strchr_skip [of "CHR ''/''" "p @ ''@''" r] p by (simp add: j(1))
    then have "fst (xmpp_jid_resource [] jid) = fst (xmpp_jid_resource [] r)"
      by (simp add: xmpp_jid_resource_def)
    then show ?thesis
      using split [of r] Some j by (simp add: xmpp_jid_new_def jid_simps)
  qed
  then show ?thesis using node_prefix [of "d @ ''/'' @ a" b] by simp
qed

theorem jid_print_parse_witness:
  "fst (xmpp_jid_new [] (fst (xmpp_jid_node [] ''foo@bar.com'')) (fst (xmpp_jid_domain [] ''foo@bar.com''))
        (fst (xmpp_jid_resource [] ''foo@bar.com''))) = Some ''foo@bar.com'' \<and>
   fst (xmpp_jid_node [] ''bar.com/a@b'') = Some ''bar.com/a''"
  using jid_print_parse [of "''foo@bar.com''" "''bar.com''" "''a''" "''b''"] by simp

end
