(* ===== verification/Stanza_Store.thy ===== *)
theory Stanza_Store
  imports Stanza
begin

section \<open>The store of stanza objects (stanza.c)\<close>

text \<open>
  Models the operations of \<open>src/stanza.c\<close> that allocate, link and free stanza objects.  An object is
  a node extended by its reference count and its four links; the store maps addresses to objects,
  and an access to an address without an object (\<open>NULL\<close> or freed) is undefined.  Fresh objects get
  addresses never used before.  Walks along \<open>next\<close> pointers need not end, so they are partial
  functions.  \<open>holds_tree\<close> says that the objects of a tree are in the store, linked as the code links them.
\<close>

subsection \<open>Objects and the store\<close>

record stanza_cell = stanza_node +
  s_ref :: int
  s_prev :: "nat option"
  s_next :: "nat option"
  s_children :: "nat option"
  s_parent :: "nat option"

record store =
  st_cells :: "nat \<Rightarrow> stanza_cell option"
  st_fresh :: nat

definition st_get :: "store \<Rightarrow> nat \<Rightarrow> stanza_cell option" where
  "st_get st p = st_cells st p"

definition st_put :: "store \<Rightarrow> nat \<Rightarrow> stanza_cell \<Rightarrow> store" where
  "st_put st p c = st\<lparr>st_cells := (st_cells st)(p := Some c)\<rparr>"

definition st_free :: "store \<Rightarrow> nat \<Rightarrow> store" where
  "st_free st p = st\<lparr>st_cells := (st_cells st)(p := None)\<rparr>"

definition empty_store :: store where
  "empty_store = \<lparr> st_cells = (\<lambda>_. None), st_fresh = 0 \<rparr>"

subsection \<open>Operations\<close>

definition new_cell :: stanza_cell where
  "new_cell = \<lparr> s_type = XMPP_STANZA_UNKNOWN, s_data = None, s_attributes = None, s_ref = 1,
     s_prev = None, s_next = None, s_children = None, s_parent = None \<rparr>"

definition xmpp_stanza_new :: "mem \<Rightarrow> store \<Rightarrow> nat option \<times> store \<times> mem" where
  "xmpp_stanza_new m st =
     (case xmpp_alloc m of
        (False, m) \<Rightarrow> (None, st, m)
      | (True, m) \<Rightarrow>
          (Some (st_fresh st), (st_put st (st_fresh st) new_cell)\<lparr>st_fresh := st_fresh st + 1\<rparr>, m))"

definition xmpp_stanza_clone :: "store \<Rightarrow> nat \<Rightarrow> store option" where
  "xmpp_stanza_clone st p = do {
     c \<leftarrow> st_get st p;
     Some (st_put st p (c\<lparr>s_ref := s_ref c + 1\<rparr>)) }"

text \<open>The recursion of \<open>xmpp_stanza_release\<close> and its loop over the children, whose \<open>next\<close> pointer is
  read before the child is released.\<close>

datatype release_work = Release nat | Release_kids "nat option"

partial_function (option) release_loop :: "release_work \<Rightarrow> store \<Rightarrow> (int \<times> store) option" where
  "release_loop w st =
     (case w of
        Release p \<Rightarrow> Option.bind (st_get st p) (\<lambda>c.
          if s_ref c > 1 then Some (0, st_put st p (c\<lparr>s_ref := s_ref c - 1\<rparr>))
          else Option.bind (release_loop (Release_kids (s_children c)) st) (\<lambda>r.
            Some (1, st_free (snd r) p)))
      | Release_kids child \<Rightarrow>
          (case child of
             None \<Rightarrow> Some (0, st)
           | Some t \<Rightarrow> Option.bind (st_get st t) (\<lambda>c.
               Option.bind (release_loop (Release t) st) (\<lambda>r.
                 release_loop (Release_kids (s_next c)) (snd r)))))"

definition xmpp_stanza_release :: "store \<Rightarrow> nat \<Rightarrow> (int \<times> store) option" where
  "xmpp_stanza_release st p = release_loop (Release p) st"

text \<open>\<open>while (s->next) s = s->next;\<close>\<close>

partial_function (option) last_sibling :: "store \<Rightarrow> nat \<Rightarrow> nat option" where
  "last_sibling st s = Option.bind (st_get st s) (\<lambda>c.
     case s_next c of None \<Rightarrow> Some s | Some n \<Rightarrow> last_sibling st n)"

definition xmpp_stanza_add_child :: "store \<Rightarrow> nat \<Rightarrow> nat \<Rightarrow> (int \<times> store) option" where
  "xmpp_stanza_add_child st stanza child = do {
     st \<leftarrow> xmpp_stanza_clone st child;
     c \<leftarrow> st_get st child;
     let st = st_put st child (c\<lparr>s_parent := Some stanza\<rparr>);
     p \<leftarrow> st_get st stanza;
     case s_children p of
       None \<Rightarrow> Some (XMPP_EOK, st_put st stanza (p\<lparr>s_children := Some child\<rparr>))
     | Some s \<Rightarrow> do {
         s \<leftarrow> last_sibling st s;
         l \<leftarrow> st_get st s;
         let st = st_put st s (l\<lparr>s_next := Some child\<rparr>);
         c \<leftarrow> st_get st child;
         Some (XMPP_EOK, st_put st child (c\<lparr>s_prev := Some s\<rparr>)) } }"

text \<open>Applying an operation on one node to an object.\<close>

definition on_cell ::
    "store \<Rightarrow> nat \<Rightarrow> (stanza_cell \<Rightarrow> ('r \<times> stanza_cell \<times> mem) option) \<Rightarrow> ('r \<times> store \<times> mem) option" where
  "on_cell st p f = do {
     c \<leftarrow> st_get st p;
     (r, c, m) \<leftarrow> f c;
     Some (r, st_put st p c, m) }"

subsection \<open>Trees in the store\<close>

text \<open>A tree with the addresses of its objects.\<close>

datatype atree = ATree (a_addr: nat) (a_node: stanza_node) (a_kids: "atree list")

fun a_tree :: "atree \<Rightarrow> stanza" where
  "a_tree (ATree p n kids) = Stanza n (map a_tree kids)"

fun a_addrs :: "atree \<Rightarrow> nat list" where
  "a_addrs (ATree p n kids) = p # concat (map a_addrs kids)"

definition first_addr :: "atree list \<Rightarrow> nat option \<Rightarrow> nat option" where
  "first_addr ts nxt = (case ts of [] \<Rightarrow> nxt | t # _ \<Rightarrow> Some (a_addr t))"

definition last_addr :: "atree list \<Rightarrow> nat option \<Rightarrow> nat option" where
  "last_addr ts prv = (if ts = [] then prv else Some (a_addr (last ts)))"

definition cell_of :: "stanza_node \<Rightarrow> nat option \<Rightarrow> nat option \<Rightarrow> nat option \<Rightarrow> nat option \<Rightarrow> stanza_cell" where
  "cell_of n prv nxt kids par = \<lparr> s_type = s_type n, s_data = s_data n, s_attributes = s_attributes n,
     s_ref = 1, s_prev = prv, s_next = nxt, s_children = kids, s_parent = par \<rparr>"

fun holds_tree :: "store \<Rightarrow> nat option \<Rightarrow> nat option \<Rightarrow> nat option \<Rightarrow> atree \<Rightarrow> bool"
  and holds_kids :: "store \<Rightarrow> nat option \<Rightarrow> nat option \<Rightarrow> atree list \<Rightarrow> nat option \<Rightarrow> bool" where
  "holds_tree st par prv nxt (ATree p n kids) \<longleftrightarrow>
     st_get st p = Some (cell_of n prv nxt (first_addr kids None) par) \<and>
     holds_kids st (Some p) None kids None"
| "holds_kids st par prv [] nxt \<longleftrightarrow> True"
| "holds_kids st par prv (t # ts) nxt \<longleftrightarrow>
     holds_tree st par prv (first_addr ts nxt) t \<and> holds_kids st par (Some (a_addr t)) ts nxt"

subsection \<open>Reading and writing the store\<close>

lemma st_get_put [simp]: "st_get (st_put st p c) q = (if q = p then Some c else st_get st q)"
  by (simp add: st_get_def st_put_def)

lemma st_fresh_put [simp]: "st_fresh (st_put st p c) = st_fresh st"
  by (simp add: st_put_def)

lemma st_get_fresh [simp]: "st_get (st\<lparr>st_fresh := n\<rparr>) q = st_get st q"
  by (simp add: st_get_def)

definition freed :: "store \<Rightarrow> nat list \<Rightarrow> store" where
  "freed st ps = st\<lparr>st_cells := (\<lambda>q. if q \<in> set ps then None else st_cells st q)\<rparr>"

lemma st_get_freed [simp]: "st_get (freed st ps) q = (if q \<in> set ps then None else st_get st q)"
  by (simp add: freed_def st_get_def)

lemma st_fresh_freed [simp]: "st_fresh (freed st ps) = st_fresh st"
  by (simp add: freed_def)

lemma freed_Nil [simp]: "freed st [] = st"
  by (simp add: freed_def)

lemma freed_freed [simp]: "freed (freed st ps) qs = freed st (ps @ qs)"
  by (rule store.equality) (auto simp: freed_def)

lemma st_free_freed: "st_free st p = freed st [p]"
  by (rule store.equality) (auto simp: freed_def st_free_def)

lemma freed_cong: "set ps = set qs \<Longrightarrow> freed st ps = freed st qs"
  by (simp add: freed_def)

lemma cell_of_simps [simp]:
  "s_type (cell_of n a b c d) = s_type n" "s_data (cell_of n a b c d) = s_data n"
  "s_attributes (cell_of n a b c d) = s_attributes n" "s_ref (cell_of n a b c d) = 1"
  "s_prev (cell_of n a b c d) = a" "s_next (cell_of n a b c d) = b" "s_children (cell_of n a b c d) = c"
  "s_parent (cell_of n a b c d) = d"
  by (simp_all add: cell_of_def)

lemma cell_of_update [simp]:
  "(cell_of n a b c d)\<lparr>s_prev := x\<rparr> = cell_of n x b c d" "(cell_of n a b c d)\<lparr>s_next := x\<rparr> = cell_of n a x c d"
  "(cell_of n a b c d)\<lparr>s_children := x\<rparr> = cell_of n a b x d" "(cell_of n a b c d)\<lparr>s_parent := x\<rparr> = cell_of n a b c x"
  by (simp_all add: cell_of_def)

subsection \<open>Chains of children\<close>

lemma first_addr_simps [simp]: "first_addr [] x = x" "first_addr (t # ts) x = Some (a_addr t)"
  by (simp_all add: first_addr_def)

lemma first_addr_append [simp]: "first_addr (ts @ us) x = first_addr ts (first_addr us x)"
  by (cases ts) simp_all

lemma last_addr_simps [simp]: "last_addr [] x = x" "last_addr (ts @ [t]) x = Some (a_addr t)"
  "last_addr (t # ts) x = last_addr ts (Some (a_addr t))"
  by (simp_all add: last_addr_def)

lemma a_addr_in [simp]: "a_addr t \<in> set (a_addrs t)"
  by (cases t) simp

definition kids_addrs :: "atree list \<Rightarrow> nat list" where
  "kids_addrs ts = concat (map a_addrs ts)"

lemma kids_addrs_simps [simp]: "kids_addrs [] = []" "kids_addrs (t # ts) = a_addrs t @ kids_addrs ts"
  "kids_addrs (ts @ us) = kids_addrs ts @ kids_addrs us" "a_addrs (ATree p n ts) = p # kids_addrs ts"
  by (simp_all add: kids_addrs_def)

declare a_addrs.simps [simp del]

lemma holds_cong:
  "(\<And>q. q \<in> set (a_addrs t) \<Longrightarrow> st_get st' q = st_get st q) \<Longrightarrow>
    holds_tree st par prv nxt t \<Longrightarrow> holds_tree st' par prv nxt t"
  "(\<And>q. q \<in> set (kids_addrs ts) \<Longrightarrow> st_get st' q = st_get st q) \<Longrightarrow>
    holds_kids st par prv ts nxt \<Longrightarrow> holds_kids st' par prv ts nxt"
  by (induction st par prv nxt t and st par prv ts nxt rule: holds_tree_holds_kids.induct) auto

lemma holds_kids_append:
  "holds_kids st par prv (ts @ us) nxt \<longleftrightarrow>
    holds_kids st par prv ts (first_addr us nxt) \<and> holds_kids st par (last_addr ts prv) us nxt"
  by (induction ts arbitrary: prv) auto

lemma holds_tree_get: "holds_tree st par prv nxt t \<Longrightarrow>
    st_get st (a_addr t) = Some (cell_of (a_node t) prv nxt (first_addr (a_kids t) None) par)"
  by (cases t) simp

text \<open>Linking a tree to a next sibling.\<close>

lemma holds_tree_link:
  assumes "holds_tree st par prv nxt t" "distinct (a_addrs t)"
    "st_get st' (a_addr t) = Some (cell_of (a_node t) prv nxt' (first_addr (a_kids t) None) par)"
    "\<And>q. q \<in> set (a_addrs t) \<Longrightarrow> q \<noteq> a_addr t \<Longrightarrow> st_get st' q = st_get st q"
  shows "holds_tree st' par prv nxt' t"
proof (cases t)
  case (ATree p n kids)
  have "holds_kids st' (Some p) None kids None"
    by (rule holds_cong(2) [of _ _ st]) (use assms(1,2,4) ATree in auto)
  then show ?thesis using assms(3) ATree by simp
qed

lemma last_sibling_chain:
  "holds_kids st par prv (ts @ [t]) None \<Longrightarrow> last_sibling st (the (first_addr (ts @ [t]) None)) = Some (a_addr t)"
proof (induction ts arbitrary: prv)
  case Nil
  then show ?case by (subst last_sibling.simps) (simp add: holds_tree_get)
next
  case (Cons u ts)
  from Cons(2) have u: "holds_tree st par prv (first_addr (ts @ [t]) None) u"
    and r: "holds_kids st par (Some (a_addr u)) (ts @ [t]) None" by simp_all
  have "last_sibling st (the (first_addr (ts @ [t]) None)) = Some (a_addr t)"
    by (rule Cons(1) [OF r])
  moreover obtain a where a: "first_addr (ts @ [t]) None = Some a" by (cases ts) simp_all
  ultimately show ?case
    using holds_tree_get [OF u] by (subst last_sibling.simps) (simp del: first_addr_append add: a)
qed

subsection \<open>Releasing a tree\<close>

lemma release_kids_holds:
  assumes "\<And>t st par prv nxt. t \<in> set ts \<Longrightarrow> holds_tree st par prv nxt t \<Longrightarrow> distinct (a_addrs t) \<Longrightarrow>
      release_loop (Release (a_addr t)) st = Some (1, freed st (a_addrs t))"
    "holds_kids st par prv ts None" "distinct (kids_addrs ts)"
  shows "release_loop (Release_kids (first_addr ts None)) st = Some (0, freed st (kids_addrs ts))"
  using assms
proof (induction ts arbitrary: st prv)
  case Nil
  then show ?case by (subst release_loop.simps) simp
next
  case (Cons t ts)
  have t: "holds_tree st par prv (first_addr ts None) t" "distinct (a_addrs t)" using Cons(3,4) by simp_all
  have r: "release_loop (Release (a_addr t)) st = Some (1, freed st (a_addrs t))"
    by (rule Cons(2) [OF _ t]) simp
  have "holds_kids (freed st (a_addrs t)) par (Some (a_addr t)) ts None"
    by (rule holds_cong(2) [of _ _ st]) (use Cons(3,4) in auto)
  then have "release_loop (Release_kids (first_addr ts None)) (freed st (a_addrs t)) =
      Some (0, freed (freed st (a_addrs t)) (kids_addrs ts))"
    by (rule Cons(1) [rotated]) (use Cons(2,4) in auto)
  then show ?case
    using holds_tree_get [OF t(1)] r by (subst release_loop.simps) simp
qed

lemma release_holds:
  "holds_tree st par prv nxt t \<Longrightarrow> distinct (a_addrs t) \<Longrightarrow>
    release_loop (Release (a_addr t)) st = Some (1, freed st (a_addrs t))"
proof (induction t arbitrary: st par prv nxt)
  case (ATree p n kids)
  have "release_loop (Release_kids (first_addr kids None)) st = Some (0, freed st (kids_addrs kids))"
    by (rule release_kids_holds [OF ATree(1)]) (use ATree(2,3) in auto)
  then have "release_loop (Release p) st = Some (1, freed (freed st (kids_addrs kids)) [p])"
    using ATree(2) by (subst release_loop.simps) (simp add: st_free_freed)
  also have "freed (freed st (kids_addrs kids)) [p] = freed st (p # kids_addrs kids)"
    unfolding freed_freed by (rule freed_cong) simp
  finally show ?case by simp
qed

subsection \<open>Adopting a child\<close>

text \<open>\<open>xmpp_stanza_add_child\<close> followed by the release of the caller's reference to the child.\<close>

definition adopt :: "store \<Rightarrow> nat \<Rightarrow> nat \<Rightarrow> store option" where
  "adopt st p c = do {
     (_, st) \<leftarrow> xmpp_stanza_add_child st p c;
     (_, st) \<leftarrow> xmpp_stanza_release st c;
     Some st }"

lemma add_child_first:
  assumes "st_get st p = Some (cell_of n prv nxt None par)" "st_get st c = Some (cell_of cn None None ck None)" "p \<noteq> c"
  shows "\<exists>st'. xmpp_stanza_add_child st p c = Some (XMPP_EOK, st') \<and> st_fresh st' = st_fresh st \<and>
    st_get st' p = Some (cell_of n prv nxt (Some c) par) \<and>
    st_get st' c = Some ((cell_of cn None None ck (Some p))\<lparr>s_ref := 2\<rparr>) \<and>
    (\<forall>q. q \<notin> {p, c} \<longrightarrow> st_get st' q = st_get st q)"
  using assms by (auto simp: xmpp_stanza_add_child_def xmpp_stanza_clone_def cell_of_def)

lemma add_child_last:
  assumes "st_get st p = Some (cell_of n prv nxt (first_addr (ks @ [t]) None) par)"
    "holds_kids st (Some p) None (ks @ [t]) None"
    "st_get st c = Some (cell_of cn None None ck None)" "distinct (p # c # kids_addrs (ks @ [t]))"
  shows "\<exists>st'. xmpp_stanza_add_child st p c = Some (XMPP_EOK, st') \<and> st_fresh st' = st_fresh st \<and>
    st_get st' p = st_get st p \<and> holds_kids st' (Some p) None (ks @ [t]) (Some c) \<and>
    st_get st' c = Some ((cell_of cn (Some (a_addr t)) None ck (Some p))\<lparr>s_ref := 2\<rparr>) \<and>
    (\<forall>q. q \<notin> {c, a_addr t} \<longrightarrow> st_get st' q = st_get st q)"
proof -
  have lk: "holds_kids st (Some p) None ks (Some (a_addr t))"
    and lt: "holds_tree st (Some p) (last_addr ks None) None t"
    using assms(2) by (simp_all add: holds_kids_append)
  define st1 where "st1 = st_put (st_put st c ((cell_of cn None None ck None)\<lparr>s_ref := 2\<rparr>))
      c ((cell_of cn None None ck (Some p))\<lparr>s_ref := 2\<rparr>)"
  define cc where "cc = (cell_of cn (Some (a_addr t)) None ck (Some p))\<lparr>s_ref := 2\<rparr>"
  define tc where "tc = cell_of (a_node t) (last_addr ks None) (Some c) (first_addr (a_kids t) None) (Some p)"
  define st2 where "st2 = st_put (st_put st1 (a_addr t) tc) c cc"
  have d: "c \<noteq> p" "c \<notin> set (kids_addrs (ks @ [t]))" "a_addr t \<noteq> c" "a_addr t \<noteq> p" "a_addr t \<notin> set (kids_addrs ks)"
    using assms(4) by auto
  have "holds_kids st1 (Some p) None (ks @ [t]) None"
    by (rule holds_cong(2) [OF _ assms(2)]) (use d in \<open>auto simp: st1_def\<close>)
  from last_sibling_chain [OF this]
  have last: "last_sibling st1 (the (first_addr (ks @ [t]) None)) = Some (a_addr t)" .
  obtain a where a: "first_addr (ks @ [t]) None = Some a" by (cases ks) simp_all
  have tget: "st_get st1 (a_addr t) = Some (cell_of (a_node t) (last_addr ks None) None (first_addr (a_kids t) None) (Some p))"
    using holds_tree_get [OF lt] d by (simp add: st1_def)
  have run: "xmpp_stanza_add_child st p c = Some (XMPP_EOK, st2)"
  proof -
    have "xmpp_stanza_clone st c = Some (st_put st c ((cell_of cn None None ck None)\<lparr>s_ref := 2\<rparr>))"
      using assms(3) by (simp add: xmpp_stanza_clone_def)
    moreover have "st1 = st_put (st_put st c ((cell_of cn None None ck None)\<lparr>s_ref := 2\<rparr>)) c
        ((cell_of cn None None ck None)\<lparr>s_ref := 2, s_parent := Some p\<rparr>)"
      by (simp add: st1_def cell_of_def)
    moreover have "st_get st1 p = Some (cell_of n prv nxt (Some a) par)"
      using assms(1) d a by (simp add: st1_def del: first_addr_append)
    moreover have "st_get (st_put st1 (a_addr t) tc) c = Some ((cell_of cn None None ck (Some p))\<lparr>s_ref := 2\<rparr>)"
      using d by (simp add: st1_def)
    moreover have "((cell_of cn None None ck (Some p))\<lparr>s_ref := 2\<rparr>)\<lparr>s_prev := Some (a_addr t)\<rparr> = cc"
      by (simp add: cc_def cell_of_def)
    ultimately show ?thesis
      using last a tget
      using d by (simp add: xmpp_stanza_add_child_def st2_def tc_def Let_def del: first_addr_append cell_of_update(1)) (simp add: cc_def cell_of_def)
  qed
  have frame: "st_get st2 q = st_get st q" if "q \<notin> {c, a_addr t}" for q
    using that by (simp add: st2_def st1_def)
  have "holds_kids st2 (Some p) None ks (Some (a_addr t))"
    by (rule holds_cong(2) [OF _ lk], rule frame) (use d in auto)
  moreover have "holds_tree st2 (Some p) (last_addr ks None) (Some c) t"
    by (rule holds_tree_link [OF lt]) (use assms(4) d frame in \<open>auto simp: st2_def tc_def\<close>)
  ultimately have "holds_kids st2 (Some p) None (ks @ [t]) (Some c)"
    by (simp add: holds_kids_append)
  moreover have "st_get st2 p = st_get st p" by (rule frame) (use d in auto)
  ultimately show ?thesis
    using run frame by (intro exI [of _ st2]) (simp add: st2_def st1_def cc_def)
qed

lemma adopt_holds:
  assumes "st_get st p = Some (cell_of n prv nxt (first_addr ks None) par)" "holds_kids st (Some p) None ks None"
    "st_get st c = Some (cell_of cn None None ck None)" "distinct (p # c # kids_addrs ks)"
  shows "\<exists>st'. adopt st p c = Some st' \<and> st_fresh st' = st_fresh st \<and>
    st_get st' p = Some (cell_of n prv nxt (first_addr ks (Some c)) par) \<and>
    holds_kids st' (Some p) None ks (Some c) \<and>
    st_get st' c = Some (cell_of cn (last_addr ks None) None ck (Some p)) \<and>
    (\<forall>q. q \<notin> set (p # c # kids_addrs ks) \<longrightarrow> st_get st' q = st_get st q)"
proof -
  obtain st1 where add: "xmpp_stanza_add_child st p c = Some (XMPP_EOK, st1)" and st1: "st_fresh st1 = st_fresh st"
    "st_get st1 p = Some (cell_of n prv nxt (first_addr ks (Some c)) par)" "holds_kids st1 (Some p) None ks (Some c)"
    "st_get st1 c = Some ((cell_of cn (last_addr ks None) None ck (Some p))\<lparr>s_ref := 2\<rparr>)"
    "\<And>q. q \<notin> set (p # c # kids_addrs ks) \<Longrightarrow> st_get st1 q = st_get st q"
  proof (cases ks rule: rev_cases)
    case Nil
    show ?thesis
      using add_child_first [of st p n prv nxt par c cn ck] assms that unfolding Nil by auto
  next
    case (snoc us t)
    obtain st' where st': "xmpp_stanza_add_child st p c = Some (XMPP_EOK, st')" "st_fresh st' = st_fresh st"
      "st_get st' p = st_get st p" "holds_kids st' (Some p) None (us @ [t]) (Some c)"
      "st_get st' c = Some ((cell_of cn (Some (a_addr t)) None ck (Some p))\<lparr>s_ref := 2\<rparr>)"
      "\<forall>q. q \<notin> {c, a_addr t} \<longrightarrow> st_get st' q = st_get st q"
      using add_child_last [of st p n prv nxt us t par c cn ck] assms unfolding snoc by blast
    show ?thesis
    proof (rule that [of st'])
      show "st_get st' p = Some (cell_of n prv nxt (first_addr ks (Some c)) par)"
        using st'(3) assms(1) snoc by (cases us) simp_all
    qed (use st' snoc in auto)
  qed
  define st2 where "st2 = st_put st1 c (cell_of cn (last_addr ks None) None ck (Some p))"
  have "xmpp_stanza_release st1 c = Some (0, st2)"
    using st1(4) by (simp add: xmpp_stanza_release_def release_loop.simps st2_def) (simp add: cell_of_def)
  then have "adopt st p c = Some st2" by (simp add: adopt_def add)
  moreover have "holds_kids st2 (Some p) None ks (Some c)"
    by (rule holds_cong(2) [OF _ st1(3)]) (use assms(4) in \<open>auto simp: st2_def\<close>)
  ultimately show ?thesis
    using st1 assms(4) by (intro exI [of _ st2]) (auto simp: st2_def)
qed

end
