(* ===== verification/Xml_Parser.thy ===== *)
theory Xml_Parser
  imports Stanza_Store
begin

section \<open>The stream parser (parser_expat.c)\<close>

text \<open>
  Models \<open>src/parser_expat.c\<close>.  The scanner expat is outside the repository: its handle, its
  constructor and its parsing function are arguments of the operations that call them, and a call of
  \<open>XML_Parse\<close> yields the sequence of handler calls it makes, as SAX events.  The handlers
  build stanzas in the object store, one level below the root element of the stream, and hand each finished one
  to the owner's callback.  The owner's callbacks may change the store, the allocator script and the owner's
  own data, so these form the environment that is threaded through.
\<close>

subsection \<open>Handlers\<close>

type_synonym xml_attrs = "(string \<times> string) list"

record 'u parser_env =
  e_store :: store
  e_mem :: mem
  e_userdata :: 'u

record 'u parser_callbacks =
  startcb :: "(string \<Rightarrow> xml_attrs option \<Rightarrow> 'u parser_env \<Rightarrow> 'u parser_env option) option"
  endcb :: "(string \<Rightarrow> 'u parser_env \<Rightarrow> 'u parser_env option) option"
  stanzacb :: "(nat \<Rightarrow> 'u parser_env \<Rightarrow> 'u parser_env option) option"

record 'x parser_t =
  p_expat :: "'x option"
  p_depth :: int
  p_stanza :: "nat option"

fun attrs_loop :: "nat \<Rightarrow> xml_attrs \<Rightarrow> 'u parser_env \<Rightarrow> 'u parser_env option" where
  "attrs_loop p [] e = Some e"
| "attrs_loop p ((k, v) # rest) e = do {
     (_, st, m) \<leftarrow> on_cell (e_store e) p (\<lambda>c. xmpp_stanza_set_attribute (e_mem e) c k v);
     attrs_loop p rest (e\<lparr>e_store := st, e_mem := m\<rparr>) }"

definition set_attributes :: "nat \<Rightarrow> xml_attrs option \<Rightarrow> 'u parser_env \<Rightarrow> 'u parser_env option" where
  "set_attributes p attrs e = (case attrs of None \<Rightarrow> Some e | Some attrs \<Rightarrow> attrs_loop p attrs e)"

text \<open>\<open>xmpp_stanza_new\<close>, \<open>xmpp_stanza_set_name\<close> and \<open>_set_attributes\<close> on the new object; a failed
  allocation is not caught before the object is used.\<close>

definition new_element :: "string \<Rightarrow> xml_attrs option \<Rightarrow> 'u parser_env \<Rightarrow> (nat \<times> 'u parser_env) option" where
  "new_element name attrs e =
     (case xmpp_stanza_new (e_mem e) (e_store e) of (s, st, m) \<Rightarrow> do {
        s \<leftarrow> s;
        (_, st, m) \<leftarrow> on_cell st s (\<lambda>c. Some (xmpp_stanza_set_name m c name));
        e \<leftarrow> set_attributes s attrs (e\<lparr>e_store := st, e_mem := m\<rparr>);
        Some (s, e) })"

definition start_element ::
    "'u parser_callbacks \<Rightarrow> string \<Rightarrow> xml_attrs option \<Rightarrow> 'x parser_t \<times> 'u parser_env \<Rightarrow>
      ('x parser_t \<times> 'u parser_env) option" where
  "start_element cbs name attrs s = (case s of (parser, e) \<Rightarrow> do {
     (parser, e) \<leftarrow>
       (if p_depth parser = 0 then
          (case startcb cbs of
             None \<Rightarrow> Some (parser, e)
           | Some cb \<Rightarrow> map_option (\<lambda>e. (parser, e)) (cb name attrs e))
        else
          (case p_stanza parser of
             None \<Rightarrow>
               if p_depth parser \<noteq> 1 then Some (parser, e)
               else do {
                 (s, e) \<leftarrow> new_element name attrs e;
                 Some (parser\<lparr>p_stanza := Some s\<rparr>, e) }
           | Some cur \<Rightarrow> do {
               (child, e) \<leftarrow> new_element name attrs e;
               (_, st) \<leftarrow> xmpp_stanza_add_child (e_store e) cur child;
               (_, st) \<leftarrow> xmpp_stanza_release st child;
               Some (parser\<lparr>p_stanza := Some child\<rparr>, e\<lparr>e_store := st\<rparr>) }));
     Some (parser\<lparr>p_depth := p_depth parser + 1\<rparr>, e) })"

definition end_element ::
    "'u parser_callbacks \<Rightarrow> string \<Rightarrow> 'x parser_t \<times> 'u parser_env \<Rightarrow> ('x parser_t \<times> 'u parser_env) option" where
  "end_element cbs name s = (case s of (parser, e) \<Rightarrow>
     (let parser = parser\<lparr>p_depth := p_depth parser - 1\<rparr>
      in if p_depth parser = 0 then
           (case endcb cbs of
              None \<Rightarrow> Some (parser, e)
            | Some cb \<Rightarrow> map_option (\<lambda>e. (parser, e)) (cb name e))
         else do {
           cur \<leftarrow> p_stanza parser;
           c \<leftarrow> st_get (e_store e) cur;
           case s_parent c of
             Some par \<Rightarrow> Some (parser\<lparr>p_stanza := Some par\<rparr>, e)
           | None \<Rightarrow> do {
               e \<leftarrow> (case stanzacb cbs of None \<Rightarrow> Some e | Some cb \<Rightarrow> cb cur e);
               (_, st) \<leftarrow> xmpp_stanza_release (e_store e) cur;
               Some (parser\<lparr>p_stanza := None\<rparr>, e\<lparr>e_store := st\<rparr>) } }))"

definition parser_characters ::
    "string \<Rightarrow> nat \<Rightarrow> 'x parser_t \<times> 'u parser_env \<Rightarrow> ('x parser_t \<times> 'u parser_env) option" where
  "parser_characters s len pe = (case pe of (parser, e) \<Rightarrow>
     (if p_depth parser < 2 then Some (parser, e)
      else case xmpp_stanza_new (e_mem e) (e_store e) of
        (None, st, m) \<Rightarrow> Some (parser, e\<lparr>e_store := st, e_mem := m\<rparr>)
      | (Some stanza, st, m) \<Rightarrow> do {
          (_, st, m) \<leftarrow> on_cell st stanza (\<lambda>c. xmpp_stanza_set_text_with_size m c s len);
          cur \<leftarrow> p_stanza parser;
          (_, st) \<leftarrow> xmpp_stanza_add_child st cur stanza;
          (_, st) \<leftarrow> xmpp_stanza_release st stanza;
          Some (parser, e\<lparr>e_store := st, e_mem := m\<rparr>) }))"

datatype sax_event = Start_element string "xml_attrs option" | End_element string | Characters string nat

fun sax_handler ::
    "'u parser_callbacks \<Rightarrow> sax_event \<Rightarrow> 'x parser_t \<times> 'u parser_env \<Rightarrow> ('x parser_t \<times> 'u parser_env) option" where
  "sax_handler cbs (Start_element name attrs) s = start_element cbs name attrs s"
| "sax_handler cbs (End_element name) s = end_element cbs name s"
| "sax_handler cbs (Characters t len) s = parser_characters t len s"

fun sax_run ::
    "'u parser_callbacks \<Rightarrow> sax_event list \<Rightarrow> 'x parser_t \<times> 'u parser_env \<Rightarrow> ('x parser_t \<times> 'u parser_env) option" where
  "sax_run cbs [] s = Some s"
| "sax_run cbs (ev # evs) s = do { s \<leftarrow> sax_handler cbs ev s; sax_run cbs evs s }"

subsection \<open>Life cycle\<close>

text \<open>\<open>create\<close> stands for \<open>XML_ParserCreate\<close>; the result is the code's return value (0 is a failure).\<close>

definition parser_reset ::
    "'x option \<Rightarrow> 'x parser_t \<times> 'u parser_env \<Rightarrow> (int \<times> 'x parser_t \<times> 'u parser_env) option" where
  "parser_reset create s = (case s of (parser, e) \<Rightarrow> do {
     e \<leftarrow> (case p_stanza parser of
            None \<Rightarrow> Some e
          | Some s \<Rightarrow> do { (_, st) \<leftarrow> xmpp_stanza_release (e_store e) s; Some (e\<lparr>e_store := st\<rparr>) });
     let parser = parser\<lparr>p_expat := create\<rparr>;
     case create of
       None \<Rightarrow> Some (0, parser, e)
     | Some _ \<Rightarrow> Some (1, parser\<lparr>p_depth := 0, p_stanza := None\<rparr>, e) })"

text \<open>The result of the reset is not looked at.\<close>

definition parser_new ::
    "'x option \<Rightarrow> 'u parser_env \<Rightarrow> ('x parser_t option \<times> 'u parser_env) option" where
  "parser_new create e =
     (case xmpp_alloc (e_mem e) of
        (False, m) \<Rightarrow> Some (None, e\<lparr>e_mem := m\<rparr>)
      | (True, m) \<Rightarrow> do {
          (_, parser, e) \<leftarrow> parser_reset create
            (\<lparr> p_expat = None, p_depth = 0, p_stanza = None \<rparr>, e\<lparr>e_mem := m\<rparr>);
          Some (Some parser, e) })"

text \<open>The handle that is given to \<open>XML_ParserFree\<close>, and what is left: a stanza under construction is not
  released.\<close>

definition parser_free :: "'x parser_t \<times> 'u parser_env \<Rightarrow> 'x option \<times> 'u parser_env" where
  "parser_free s = (case s of (parser, e) \<Rightarrow> (p_expat parser, e))"

text \<open>\<open>parse\<close> stands for \<open>XML_Parse\<close> on the handle: its result, the handle afterwards and the handler
  calls it makes.\<close>

definition parser_feed ::
    "('x \<Rightarrow> string \<Rightarrow> int \<times> 'x \<times> sax_event list) \<Rightarrow> 'u parser_callbacks \<Rightarrow> string \<Rightarrow>
      'x parser_t \<times> 'u parser_env \<Rightarrow> (int \<times> 'x parser_t \<times> 'u parser_env) option" where
  "parser_feed parse cbs chunk s = (case s of (parser, e) \<Rightarrow> do {
     x \<leftarrow> p_expat parser;
     (case parse x chunk of (ret, x, evs) \<Rightarrow> do {
        (parser, e) \<leftarrow> sax_run cbs evs (parser, e);
        Some (ret, parser\<lparr>p_expat := Some x\<rparr>, e) }) })"

subsection \<open>Documents\<close>

text \<open>The elements of a stream, the events a scanner reports for them, and the stanzas they denote.\<close>

datatype xml = XElem string xml_attrs "xml list" | XText string

fun xml_events :: "xml \<Rightarrow> sax_event list" where
  "xml_events (XElem name attrs kids) =
     Start_element name (Some attrs) # concat (map xml_events kids) @ [End_element name]"
| "xml_events (XText s) = [Characters s (length s)]"

fun node_attrs :: "stanza_node \<Rightarrow> xml_attrs \<Rightarrow> stanza_node" where
  "node_attrs n [] = n"
| "node_attrs n ((k, v) # rest) =
     (case xmpp_stanza_set_attribute [] n k v of None \<Rightarrow> n | Some (_, n, _) \<Rightarrow> node_attrs n rest)"

definition elem_node :: "string \<Rightarrow> xml_attrs \<Rightarrow> stanza_node" where
  "elem_node name attrs =
     node_attrs \<lparr> s_type = XMPP_STANZA_TAG, s_data = Some name, s_attributes = None \<rparr> attrs"

fun tree_of_xml :: "xml \<Rightarrow> stanza" where
  "tree_of_xml (XElem name attrs kids) = Stanza (elem_node name attrs) (map tree_of_xml kids)"
| "tree_of_xml (XText s) = text_node s"

text \<open>Attribute names are ASCII, and texts contain no zero.\<close>

fun xml_ok :: "xml \<Rightarrow> bool" where
  "xml_ok (XElem name attrs kids) \<longleftrightarrow> (\<forall>a \<in> set attrs. ascii (fst a)) \<and> (\<forall>k \<in> set kids. xml_ok k)"
| "xml_ok (XText s) \<longleftrightarrow> NUL \<notin> set s"

fun is_elem :: "xml \<Rightarrow> bool" where
  "is_elem (XElem name attrs kids) = True"
| "is_elem (XText s) = False"

subsection \<open>New objects\<close>

lemma set_attribute_cell:
  "xmpp_stanza_set_attribute m (cell_of n a b c d) k v =
     map_option (\<lambda>(r, n', m). (r, cell_of n' a b c d, m)) (xmpp_stanza_set_attribute m n k v)"
proof -
  have u: "(cell_of n a b c d)\<lparr>s_attributes := x\<rparr> = cell_of (n\<lparr>s_attributes := x\<rparr>) a b c d" for x
    by (simp add: cell_of_def)
  show ?thesis
    unfolding xmpp_stanza_set_attribute_def u cell_of_simps
    by (auto simp: u split: option.splits prod.splits Option.bind_splits)
qed

lemma set_attribute_ok:
  assumes "tag_ok (n :: stanza_node)" "ascii k"
  obtains n' where "xmpp_stanza_set_attribute [] n k v = Some (XMPP_EOK, n', [])" "tag_ok n'"
    "s_data n' = s_data n" "attr_map n' = (attr_map n)(k \<mapsto> v)"
  using set_attribute_spec [OF assms, of "[]" v] by auto

lemma attrs_loop_cell:
  assumes "e_mem e = []" "tag_ok n" "\<forall>x \<in> set attrs. ascii (fst x)"
    "st_get (e_store e) p = Some (cell_of n a b c d)"
  shows "\<exists>st'. attrs_loop p attrs e = Some (e\<lparr>e_store := st'\<rparr>) \<and> st_fresh st' = st_fresh (e_store e) \<and>
    st_get st' p = Some (cell_of (node_attrs n attrs) a b c d) \<and>
    (\<forall>q. q \<noteq> p \<longrightarrow> st_get st' q = st_get (e_store e) q)"
  using assms
proof (induction attrs arbitrary: e n)
  case Nil
  then show ?case by (intro exI [of _ "e_store e"]) simp
next
  case (Cons kv attrs)
  obtain k v where kv: "kv = (k, v)" by (rule prod.exhaust)
  obtain n' where n': "xmpp_stanza_set_attribute [] n k v = Some (XMPP_EOK, n', [])" "tag_ok n'"
    by (rule set_attribute_ok [OF Cons(3), of k v]) (use Cons(4) kv in auto)
  define e' where "e' = e\<lparr>e_store := st_put (e_store e) p (cell_of n' a b c d), e_mem := []\<rparr>"
  have run: "attrs_loop p (kv # attrs) e = attrs_loop p attrs e'"
    using Cons(2,5) n'(1) by (simp add: kv on_cell_def set_attribute_cell e'_def)
  obtain st' where st': "attrs_loop p attrs e' = Some (e'\<lparr>e_store := st'\<rparr>)" "st_fresh st' = st_fresh (e_store e')"
    "st_get st' p = Some (cell_of (node_attrs n' attrs) a b c d)" "\<forall>q. q \<noteq> p \<longrightarrow> st_get st' q = st_get (e_store e') q"
    using Cons(1) [OF _ n'(2), of e'] Cons(4) by (auto simp: e'_def)
  moreover have "e'\<lparr>e_store := st'\<rparr> = e\<lparr>e_store := st'\<rparr>"
    using Cons(2) by (simp add: e'_def)
  ultimately show ?case
    using run n'(1) by (intro exI [of _ st']) (auto simp: kv e'_def)
qed

lemma new_element_cell:
  assumes "e_mem e = []" "\<forall>x \<in> set attrs. ascii (fst x)"
  shows "\<exists>st'. new_element name (Some attrs) e = Some (st_fresh (e_store e), e\<lparr>e_store := st'\<rparr>) \<and>
    st_fresh st' = st_fresh (e_store e) + 1 \<and>
    st_get st' (st_fresh (e_store e)) = Some (cell_of (elem_node name attrs) None None None None) \<and>
    (\<forall>q. q \<noteq> st_fresh (e_store e) \<longrightarrow> st_get st' q = st_get (e_store e) q)"
proof -
  let ?p = "st_fresh (e_store e)"
  let ?n = "\<lparr> s_type = XMPP_STANZA_TAG, s_data = Some name, s_attributes = None \<rparr>"
  let ?st = "(st_put (e_store e) ?p new_cell)\<lparr>st_fresh := ?p + 1\<rparr>"
  let ?e = "e\<lparr>e_store := st_put ?st ?p (cell_of ?n None None None None), e_mem := []\<rparr>"
  obtain st' where st': "attrs_loop ?p attrs ?e = Some (?e\<lparr>e_store := st'\<rparr>)" "st_fresh st' = st_fresh (e_store ?e)"
    "st_get st' ?p = Some (cell_of (node_attrs ?n attrs) None None None None)"
    "\<forall>q. q \<noteq> ?p \<longrightarrow> st_get st' q = st_get (e_store ?e) q"
    using attrs_loop_cell [of ?e ?n attrs ?p None None None None] assms(2) by (auto simp: tag_ok_def)
  have "new_element name (Some attrs) e = set_attributes ?p (Some attrs) ?e \<bind> (\<lambda>e. Some (?p, e))"
    using assms(1)
    by (simp add: new_element_def xmpp_stanza_new_def on_cell_def xmpp_stanza_set_name_def new_cell_def cell_of_def)
  then have "new_element name (Some attrs) e = Some (?p, e\<lparr>e_store := st'\<rparr>)"
    using st'(1) assms(1) by (simp add: set_attributes_def)
  then show ?thesis
    using st'(2-4) by (intro exI [of _ st']) (simp add: elem_node_def)
qed

subsection \<open>Open elements\<close>

text \<open>
  While a stanza is being read, its open elements form a stack, the innermost first: the address of the
  object, its node, and the children that are complete.  The next open element is its last child.
\<close>

type_synonym frame = "nat \<times> stanza_node \<times> atree list"

definition frame_par :: "frame list \<Rightarrow> nat option" where
  "frame_par fs = (case fs of [] \<Rightarrow> None | (a, _, _) # _ \<Rightarrow> Some a)"

definition frame_prev :: "frame list \<Rightarrow> nat option" where
  "frame_prev fs = (case fs of [] \<Rightarrow> None | (_, _, ks) # _ \<Rightarrow> last_addr ks None)"

fun holds_frames :: "store \<Rightarrow> frame list \<Rightarrow> nat option \<Rightarrow> bool" where
  "holds_frames st [] inner \<longleftrightarrow> True"
| "holds_frames st ((a, n, ks) # fs) inner \<longleftrightarrow>
     st_get st a = Some (cell_of n (frame_prev fs) None (first_addr ks inner) (frame_par fs)) \<and>
     holds_kids st (Some a) None ks inner \<and> holds_frames st fs (Some a)"

fun frames_addrs :: "frame list \<Rightarrow> nat list" where
  "frames_addrs [] = []"
| "frames_addrs ((a, n, ks) # fs) = a # kids_addrs ks @ frames_addrs fs"

lemma holds_frames_cong:
  "(\<And>q. q \<in> set (frames_addrs fs) \<Longrightarrow> st_get st' q = st_get st q) \<Longrightarrow>
    holds_frames st fs inner \<Longrightarrow> holds_frames st' fs inner"
  by (induction st fs inner rule: holds_frames.induct) (auto intro: holds_cong(2))

text \<open>The stack is all that the store has beyond what it had before the stanza.\<close>

definition building :: "store \<Rightarrow> frame list \<Rightarrow> store \<Rightarrow> bool" where
  "building base fs st \<longleftrightarrow>
     distinct (frames_addrs fs) \<and> (\<forall>q \<in> set (frames_addrs fs). q < st_fresh st \<and> st_get base q = None) \<and>
     (\<forall>q. q \<notin> set (frames_addrs fs) \<longrightarrow> st_get st q = st_get base q) \<and>
     (\<forall>q \<ge> st_fresh st. st_get base q = None) \<and> holds_frames st fs None"

text \<open>An element that ends becomes a complete child of the next one, without a change of the store.\<close>

lemma building_close:
  "building base ((c, cn, ks') # (a, n, ks) # fs) st \<Longrightarrow>
    building base ((a, n, ks @ [ATree c cn ks']) # fs) st"
  by (auto simp: building_def holds_kids_append frame_par_def frame_prev_def)

lemma building_fresh: "building base fs st \<Longrightarrow> st_get st (st_fresh st) = None"
  by (auto simp: building_def)

text \<open>A new object opens an element, as the first one or below the innermost one.\<close>

lemma building_first:
  assumes "building base [] st" "st_fresh st' = st_fresh st + 1"
    "st_get st' (st_fresh st) = Some (cell_of cn None None None None)"
    "\<forall>q. q \<noteq> st_fresh st \<longrightarrow> st_get st' q = st_get st q"
  shows "building base [(st_fresh st, cn, [])] st'"
  using assms by (auto simp: building_def frame_par_def frame_prev_def)

lemma building_open:
  assumes b: "building base ((a, n, ks) # fs) st" and st': "st_fresh st' = st_fresh st + 1"
    "st_get st' (st_fresh st) = Some (cell_of cn None None None None)"
    "\<forall>q. q \<noteq> st_fresh st \<longrightarrow> st_get st' q = st_get st q"
  shows "\<exists>st2. adopt st' a (st_fresh st) = Some st2 \<and> building base ((st_fresh st, cn, []) # (a, n, ks) # fs) st2"
proof -
  let ?c = "st_fresh st"
  have d: "distinct (a # kids_addrs ks @ frames_addrs fs)" "\<forall>q \<in> set (a # kids_addrs ks @ frames_addrs fs). q < ?c"
    using b by (simp_all add: building_def)
  have a: "st_get st a = Some (cell_of n (frame_prev fs) None (first_addr ks None) (frame_par fs))"
    and k: "holds_kids st (Some a) None ks None" and f: "holds_frames st fs (Some a)"
    using b by (simp_all add: building_def)
  have eq: "st_get st' q = st_get st q" if "q \<in> set (a # kids_addrs ks @ frames_addrs fs)" for q
  proof -
    have "q < ?c" using that d(2) by blast
    then show ?thesis using st'(3) by simp
  qed
  have "holds_kids st' (Some a) None ks None"
    by (rule holds_cong(2) [OF _ k], rule eq) simp
  moreover have "st_get st' a = Some (cell_of n (frame_prev fs) None (first_addr ks None) (frame_par fs))"
    using eq [of a] a by simp
  moreover have "distinct (a # ?c # kids_addrs ks)" using d by auto
  ultimately obtain st2 where st2: "adopt st' a ?c = Some st2" "st_fresh st2 = st_fresh st'"
    "st_get st2 a = Some (cell_of n (frame_prev fs) None (first_addr ks (Some ?c)) (frame_par fs))"
    "holds_kids st2 (Some a) None ks (Some ?c)"
    "st_get st2 ?c = Some (cell_of cn (last_addr ks None) None None (Some a))"
    "\<forall>q. q \<notin> set (a # ?c # kids_addrs ks) \<longrightarrow> st_get st2 q = st_get st' q"
    using adopt_holds [of st' a n "frame_prev fs" None ks "frame_par fs" ?c cn None] st'(2) by blast
  have "holds_frames st2 fs (Some a)"
  proof (rule holds_frames_cong [OF _ f])
    fix q assume q: "q \<in> set (frames_addrs fs)"
    then have "q \<notin> set (a # ?c # kids_addrs ks)" using d by auto
    then show "st_get st2 q = st_get st q" using st2(6) eq [of q] q by auto
  qed
  then have "building base ((?c, cn, []) # (a, n, ks) # fs) st2"
    using b st2 st' by (auto simp: building_def frame_par_def frame_prev_def intro: less_SucI)
  then show ?thesis using st2(1) by blast
qed

subsection \<open>Running the handlers\<close>

text \<open>What a reader of a stanza sees when it follows the links.\<close>

partial_function (option) read_kids :: "store \<Rightarrow> nat option \<Rightarrow> stanza list option" where
  "read_kids st p = (case p of
     None \<Rightarrow> Some []
   | Some p \<Rightarrow> Option.bind (st_get st p) (\<lambda>c.
       Option.bind (read_kids st (s_children c)) (\<lambda>ks.
       Option.bind (read_kids st (s_next c)) (\<lambda>rest.
         Some (Stanza (stanza_node.truncate c) ks # rest)))))"

definition read_tree :: "store \<Rightarrow> nat \<Rightarrow> stanza option" where
  "read_tree st p = do {
     c \<leftarrow> st_get st p;
     ks \<leftarrow> read_kids st (s_children c);
     Some (Stanza (stanza_node.truncate c) ks) }"

lemma truncate_cell [simp]: "stanza_node.truncate (cell_of n a b c d) = n"
  by (simp add: stanza_node.truncate_def)

lemma read_holds:
  "holds_tree st par prv nxt t \<Longrightarrow> read_kids st (first_addr (a_kids t) None) = Some (map a_tree (a_kids t))"
  "holds_kids st par prv ts nxt \<Longrightarrow> nxt = None \<Longrightarrow> read_kids st (first_addr ts None) = Some (map a_tree ts)"
proof (induction st par prv nxt t and st par prv ts nxt rule: holds_tree_holds_kids.induct)
  case (3 st par prv t ts nxt)
  have t: "holds_tree st par prv (first_addr ts nxt) t" using 3(3) by simp
  have "read_kids st (first_addr ts None) = Some (map a_tree ts)" using 3 by simp
  moreover have "read_kids st (first_addr (a_kids t) None) = Some (map a_tree (a_kids t))" using 3(1) t by simp
  ultimately show ?case
    using holds_tree_get [OF t] 3(4) by (subst read_kids.simps) (cases t; simp)
qed (simp_all add: read_kids.simps)

lemma read_tree_holds: "holds_tree st par prv nxt t \<Longrightarrow> read_tree st (a_addr t) = Some (a_tree t)"
  using read_holds(1) [of st par prv nxt t] holds_tree_get [of st par prv nxt t]
  by (cases t) (simp add: read_tree_def)

lemma adopt_bind:
  "(xmpp_stanza_add_child st p c \<bind> (\<lambda>(_, st). xmpp_stanza_release st c \<bind> (\<lambda>(_, st). k st))) =
     adopt st p c \<bind> k"
  by (auto simp: adopt_def split: Option.bind_splits prod.splits)

lemma sax_run_append: "sax_run cbs (xs @ ys) s = sax_run cbs xs s \<bind> sax_run cbs ys"
  by (induction cbs xs s rule: sax_run.induct) (auto split: Option.bind_splits)

definition in_frame :: "store \<Rightarrow> frame list \<Rightarrow> 'x parser_t \<times> 'u parser_env \<Rightarrow> bool" where
  "in_frame base fs s \<longleftrightarrow> building base fs (e_store (snd s)) \<and> e_mem (snd s) = [] \<and>
     p_stanza (fst s) = frame_par fs \<and> p_depth (fst s) = 1 + int (length fs)"

lemma start_nested:
  assumes "in_frame base ((a, n, ks) # fs) (parser, e)" "\<forall>x \<in> set attrs. ascii (fst x)"
  shows "\<exists>c st. start_element cbs name (Some attrs) (parser, e) =
      Some (parser\<lparr>p_stanza := Some c, p_depth := p_depth parser + 1\<rparr>, e\<lparr>e_store := st\<rparr>) \<and>
    building base ((c, elem_node name attrs, []) # (a, n, ks) # fs) st"
proof -
  have p: "p_stanza parser = Some a" "p_depth parser \<noteq> 0" "e_mem e = []"
    and b: "building base ((a, n, ks) # fs) (e_store e)"
    using assms(1) by (auto simp: in_frame_def frame_par_def)
  obtain st1 where n: "new_element name (Some attrs) e = Some (st_fresh (e_store e), e\<lparr>e_store := st1\<rparr>)"
    "st_fresh st1 = st_fresh (e_store e) + 1"
    "st_get st1 (st_fresh (e_store e)) = Some (cell_of (elem_node name attrs) None None None None)"
    "\<forall>q. q \<noteq> st_fresh (e_store e) \<longrightarrow> st_get st1 q = st_get (e_store e) q"
    using new_element_cell [OF p(3) assms(2)] by blast
  obtain st2 where st2: "adopt st1 a (st_fresh (e_store e)) = Some st2"
    "building base ((st_fresh (e_store e), elem_node name attrs, []) # (a, n, ks) # fs) st2"
    using building_open [OF b n(2-4)] by blast
  have "start_element cbs name (Some attrs) (parser, e) =
      Some (parser\<lparr>p_stanza := Some (st_fresh (e_store e)), p_depth := p_depth parser + 1\<rparr>, e\<lparr>e_store := st2\<rparr>)"
    using p n(1) st2(1) by (simp add: start_element_def adopt_bind)
  then show ?thesis using st2(2) by blast
qed

lemma end_nested:
  assumes "in_frame base ((c, cn, ks') # (a, n, ks) # fs) (parser, e)"
  shows "end_element cbs name (parser, e) = Some (parser\<lparr>p_stanza := Some a, p_depth := p_depth parser - 1\<rparr>, e)"
  using assms
  by (simp add: in_frame_def end_element_def frame_par_def building_def Let_def)

lemma characters_nested:
  assumes "in_frame base ((a, n, ks) # fs) (parser, e)" "NUL \<notin> set s"
  shows "\<exists>c st. parser_characters s (length s) (parser, e) = Some (parser, e\<lparr>e_store := st\<rparr>) \<and>
    building base ((a, n, ks @ [ATree c (s_node (text_node s)) []]) # fs) st"
proof -
  have p: "p_stanza parser = Some a" "\<not> p_depth parser < 2" "e_mem e = []"
    and b: "building base ((a, n, ks) # fs) (e_store e)"
    using assms(1) by (auto simp: in_frame_def frame_par_def)
  let ?c = "st_fresh (e_store e)"
  let ?st = "st_put ((st_put (e_store e) ?c new_cell)\<lparr>st_fresh := ?c + 1\<rparr>) ?c
      (cell_of (s_node (text_node s)) None None None None)"
  have tw: "takeWhile (\<lambda>c. c \<noteq> NUL) s = s" using assms(2) by simp
  have em: "e\<lparr>e_store := st, e_mem := []\<rparr> = e\<lparr>e_store := st\<rparr>" for st using p(3) by simp
  have r: "parser_characters s (length s) (parser, e) = adopt ?st a ?c \<bind> (\<lambda>st. Some (parser, e\<lparr>e_store := st\<rparr>))"
    using p by (simp add: parser_characters_def xmpp_stanza_new_def on_cell_def xmpp_stanza_set_text_with_size_def
        adopt_bind tw em) (simp add: new_cell_def cell_of_def text_node_def)
  obtain st2 where st2: "adopt ?st a ?c = Some st2" "building base ((?c, s_node (text_node s), []) # (a, n, ks) # fs) st2"
    using building_open [OF b, of ?st "s_node (text_node s)"] by auto
  then show ?thesis
    using building_close [OF st2(2)] by (intro exI [of _ ?c] exI [of _ st2]) (simp add: r)
qed

text \<open>One node of a document, below an open element, becomes its next complete child; so do its
  children, one after the other.\<close>

definition runs_nested :: "'u parser_callbacks \<Rightarrow> xml list \<Rightarrow> 'x itself \<Rightarrow> bool" where
  "runs_nested cbs xs ty \<longleftrightarrow>
     (\<forall>base a n ks fs (parser :: 'x parser_t) e. in_frame base ((a, n, ks) # fs) (parser, e) \<longrightarrow>
       (\<exists>ts st. sax_run cbs (concat (map xml_events xs)) (parser, e) = Some (parser, e\<lparr>e_store := st\<rparr>) \<and>
         map a_tree ts = map tree_of_xml xs \<and> building base ((a, n, ks @ ts) # fs) st))"

lemma runs_nestedE:
  assumes "runs_nested cbs xs TYPE('x)" "in_frame base ((a, n, ks) # fs) (parser :: 'x parser_t, e)"
  obtains ts st where "sax_run cbs (concat (map xml_events xs)) (parser, e) = Some (parser, e\<lparr>e_store := st\<rparr>)"
    "map a_tree ts = map tree_of_xml xs" "building base ((a, n, ks @ ts) # fs) st"
  using assms unfolding runs_nested_def by blast

lemma runs_kids:
  fixes cbs :: "'u parser_callbacks"
  shows "(\<And>x. x \<in> set xs \<Longrightarrow> runs_nested cbs [x] TYPE('x)) \<Longrightarrow> runs_nested cbs xs TYPE('x)"
proof (induction xs)
  case Nil
  show ?case unfolding runs_nested_def
    by (intro allI impI exI [of _ "[]"]) (auto simp: in_frame_def intro!: exI [of _ "e_store _"])
next
  case (Cons x xs)
  have xs: "runs_nested cbs xs TYPE('x)" by (rule Cons(1)) (use Cons(2) in simp)
  have x: "runs_nested cbs [x] TYPE('x)" by (rule Cons(2)) simp
  show ?case unfolding runs_nested_def
  proof (intro allI impI)
    fix base a n ks fs and parser :: "'x parser_t" and e :: "'u parser_env"
    assume f: "in_frame base ((a, n, ks) # fs) (parser, e)"
    obtain ts st where t: "sax_run cbs (concat (map xml_events [x])) (parser, e) = Some (parser, e\<lparr>e_store := st\<rparr>)"
      "map a_tree ts = map tree_of_xml [x]" "building base ((a, n, ks @ ts) # fs) st"
      by (rule runs_nestedE [OF x f])
    have "in_frame base ((a, n, ks @ ts) # fs) (parser, e\<lparr>e_store := st\<rparr>)"
      using f t(3) by (simp add: in_frame_def frame_par_def)
    from xs this obtain us st2 where
      "sax_run cbs (concat (map xml_events xs)) (parser, e\<lparr>e_store := st\<rparr>) = Some (parser, e\<lparr>e_store := st\<rparr>\<lparr>e_store := st2\<rparr>)"
      "map a_tree us = map tree_of_xml xs" "building base ((a, n, (ks @ ts) @ us) # fs) st2"
      by (rule runs_nestedE)
    then show "\<exists>ts st. sax_run cbs (concat (map xml_events (x # xs))) (parser, e) = Some (parser, e\<lparr>e_store := st\<rparr>) \<and>
        map a_tree ts = map tree_of_xml (x # xs) \<and> building base ((a, n, ks @ ts) # fs) st"
      using t by (intro exI [of _ "ts @ us"] exI [of _ st2]) (simp add: sax_run_append)
  qed
qed

lemma runs_text:
  fixes cbs :: "'u parser_callbacks"
  shows "NUL \<notin> set s \<Longrightarrow> runs_nested cbs [XText s] TYPE('x)"
  unfolding runs_nested_def
proof (intro allI impI)
  fix base a n ks fs and parser :: "'x parser_t" and e :: "'u parser_env"
  assume s: "NUL \<notin> set s" and f: "in_frame base ((a, n, ks) # fs) (parser, e)"
  obtain c st where "parser_characters s (length s) (parser, e) = Some (parser, e\<lparr>e_store := st\<rparr>)"
    "building base ((a, n, ks @ [ATree c (s_node (text_node s)) []]) # fs) st"
    using characters_nested [OF f s] by blast
  then show "\<exists>ts st. sax_run cbs (concat (map xml_events [XText s])) (parser, e) = Some (parser, e\<lparr>e_store := st\<rparr>) \<and>
        map a_tree ts = map tree_of_xml [XText s] \<and> building base ((a, n, ks @ ts) # fs) st"
    by (intro exI [of _ "[ATree c (s_node (text_node s)) []]"] exI [of _ st]) (simp add: text_node_def)
qed

text \<open>The children of an element that was just opened, inside or at the top.\<close>

lemma run_content:
  assumes "runs_nested cbs kids TYPE('x)" "building base ((c, cn, []) # fs) st" "e_mem e = []"
    "p_stanza (parser :: 'x parser_t) = Some c" "p_depth parser = 2 + int (length fs)"
  obtains ts st2 where
    "sax_run cbs (concat (map xml_events kids)) (parser, e\<lparr>e_store := st\<rparr>) = Some (parser, e\<lparr>e_store := st2\<rparr>)"
    "map a_tree ts = map tree_of_xml kids" "building base ((c, cn, ts) # fs) st2"
    "in_frame base ((c, cn, ts) # fs) (parser, e\<lparr>e_store := st2\<rparr>)"
proof -
  have "in_frame base ((c, cn, []) # fs) (parser, e\<lparr>e_store := st\<rparr>)"
    using assms(2-5) by (simp add: in_frame_def frame_par_def)
  with assms(1) obtain ts st2 where
    "sax_run cbs (concat (map xml_events kids)) (parser, e\<lparr>e_store := st\<rparr>) =
        Some (parser, e\<lparr>e_store := st\<rparr>\<lparr>e_store := st2\<rparr>)"
    "map a_tree ts = map tree_of_xml kids" "building base ((c, cn, [] @ ts) # fs) st2"
    by (rule runs_nestedE)
  then show thesis
    using assms(2-5) by (intro that [of st2 ts]) (simp_all add: in_frame_def frame_par_def)
qed

lemma runs_element:
  fixes cbs :: "'u parser_callbacks"
  assumes "\<forall>x \<in> set attrs. ascii (fst x)" "runs_nested cbs kids TYPE('x)"
  shows "runs_nested cbs [XElem name attrs kids] TYPE('x)"
  unfolding runs_nested_def
proof (intro allI impI)
  fix base a n ks fs and parser :: "'x parser_t" and e :: "'u parser_env"
  assume f: "in_frame base ((a, n, ks) # fs) (parser, e)"
  obtain c st where s: "start_element cbs name (Some attrs) (parser, e) =
      Some (parser\<lparr>p_stanza := Some c, p_depth := p_depth parser + 1\<rparr>, e\<lparr>e_store := st\<rparr>)"
    "building base ((c, elem_node name attrs, []) # (a, n, ks) # fs) st"
    using start_nested [OF f assms(1)] by blast
  let ?p = "parser\<lparr>p_stanza := Some c, p_depth := p_depth parser + 1\<rparr>"
  have d: "e_mem e = []" "p_stanza ?p = Some c" "p_depth ?p = 2 + int (length ((a, n, ks) # fs))"
    using f by (simp_all add: in_frame_def)
  obtain ts st2 where k: "sax_run cbs (concat (map xml_events kids)) (?p, e\<lparr>e_store := st\<rparr>) = Some (?p, e\<lparr>e_store := st2\<rparr>)"
    "map a_tree ts = map tree_of_xml kids" "building base ((c, elem_node name attrs, ts) # (a, n, ks) # fs) st2"
    "in_frame base ((c, elem_node name attrs, ts) # (a, n, ks) # fs) (?p, e\<lparr>e_store := st2\<rparr>)"
    by (rule run_content [OF assms(2) s(2) d])
  have "?p\<lparr>p_stanza := Some a, p_depth := p_depth ?p - 1\<rparr> = parser"
    using f by (simp add: in_frame_def frame_par_def)
  then have "sax_run cbs (xml_events (XElem name attrs kids)) (parser, e) = Some (parser, e\<lparr>e_store := st2\<rparr>)"
    using s(1) k(1) end_nested [OF k(4), of cbs name] by (simp add: sax_run_append)
  then show "\<exists>ts st. sax_run cbs (concat (map xml_events [XElem name attrs kids])) (parser, e) = Some (parser, e\<lparr>e_store := st\<rparr>) \<and>
        map a_tree ts = map tree_of_xml [XElem name attrs kids] \<and> building base ((a, n, ks @ ts) # fs) st"
    using building_close [OF k(3)] k(2)
    by (intro exI [of _ "[ATree c (elem_node name attrs) ts]"] exI [of _ st2]) simp
qed

lemma run_nested: "xml_ok x \<Longrightarrow> runs_nested cbs [x] TYPE('x)"
  by (induction x) (simp_all add: runs_text runs_element runs_kids)

subsection \<open>A whole stream\<close>

text \<open>Callbacks of an owner that reads each stanza and works on its own data.\<close>

definition reader_callbacks ::
    "(string \<Rightarrow> xml_attrs option \<Rightarrow> 'u \<Rightarrow> 'u option) \<Rightarrow> (stanza \<Rightarrow> 'u \<Rightarrow> 'u option) \<Rightarrow> (string \<Rightarrow> 'u \<Rightarrow> 'u option) \<Rightarrow>
      'u parser_callbacks" where
  "reader_callbacks hs h hc = \<lparr>
     startcb = Some (\<lambda>name attrs e. map_option (\<lambda>u. e\<lparr>e_userdata := u\<rparr>) (hs name attrs (e_userdata e))),
     endcb = Some (\<lambda>name e. map_option (\<lambda>u. e\<lparr>e_userdata := u\<rparr>) (hc name (e_userdata e))),
     stanzacb = Some (\<lambda>p e. do {
       t \<leftarrow> read_tree (e_store e) p;
       u \<leftarrow> h t (e_userdata e);
       Some (e\<lparr>e_userdata := u\<rparr>) }) \<rparr>"

fun deliver :: "(stanza \<Rightarrow> 'u \<Rightarrow> 'u option) \<Rightarrow> stanza list \<Rightarrow> 'u \<Rightarrow> 'u option" where
  "deliver h [] u = Some u"
| "deliver h (t # ts) u = do { u \<leftarrow> h t u; deliver h ts u }"

lemma building_done:
  assumes "building base [(c, cn, ts)] st"
  shows "read_tree st c = Some (Stanza cn (map a_tree ts))"
    "xmpp_stanza_release st c = Some (1, freed st (c # kids_addrs ts))"
    "building base [] (freed st (c # kids_addrs ts))"
    "st_get st c = Some (cell_of cn None None (first_addr ts None) None)"
proof -
  have h: "holds_tree st None None None (ATree c cn ts)" "distinct (a_addrs (ATree c cn ts))"
    using assms by (simp_all add: building_def frame_par_def frame_prev_def)
  show "read_tree st c = Some (Stanza cn (map a_tree ts))"
    using read_tree_holds [OF h(1)] by simp
  show "xmpp_stanza_release st c = Some (1, freed st (c # kids_addrs ts))"
    using release_holds [OF h] by (simp add: xmpp_stanza_release_def)
  show "building base [] (freed st (c # kids_addrs ts))"
    using assms by (auto simp: building_def)
  show "st_get st c = Some (cell_of cn None None (first_addr ts None) None)"
    using h(1) by simp
qed

lemma run_top_elem:
  fixes parser :: "'x parser_t" and e :: "'u parser_env"
  assumes "building base [] (e_store e)" "e_mem e = []" "p_stanza parser = None" "p_depth parser = 1"
    "xml_ok (XElem name attrs kids)"
  shows "\<exists>st. building base [] st \<and>
    sax_run (reader_callbacks hs h hc) (xml_events (XElem name attrs kids)) (parser, e) =
      map_option (\<lambda>u. (parser, e\<lparr>e_store := st, e_userdata := u\<rparr>)) (h (tree_of_xml (XElem name attrs kids)) (e_userdata e))"
proof -
  let ?cbs = "reader_callbacks hs h hc"
  have ok: "\<forall>x \<in> set attrs. ascii (fst x)" "runs_nested ?cbs kids TYPE('x)"
    using assms(5) by (auto intro: runs_kids run_nested)
  obtain st1 where n: "new_element name (Some attrs) e = Some (st_fresh (e_store e), e\<lparr>e_store := st1\<rparr>)"
    "st_fresh st1 = st_fresh (e_store e) + 1"
    "st_get st1 (st_fresh (e_store e)) = Some (cell_of (elem_node name attrs) None None None None)"
    "\<forall>q. q \<noteq> st_fresh (e_store e) \<longrightarrow> st_get st1 q = st_get (e_store e) q"
    using new_element_cell [OF assms(2) ok(1)] by blast
  define c where "c = st_fresh (e_store e)"
  define p where "p = parser\<lparr>p_stanza := Some c, p_depth := 2\<rparr>"
  have s: "start_element ?cbs name (Some attrs) (parser, e) = Some (p, e\<lparr>e_store := st1\<rparr>)"
    using n(1) assms(3,4) by (simp add: start_element_def p_def c_def)
  have b: "building base [(c, elem_node name attrs, [])] st1"
    unfolding c_def by (rule building_first [OF assms(1) n(2-4)])
  obtain ts st2 where k: "sax_run ?cbs (concat (map xml_events kids)) (p, e\<lparr>e_store := st1\<rparr>) = Some (p, e\<lparr>e_store := st2\<rparr>)"
    "map a_tree ts = map tree_of_xml kids" "building base [(c, elem_node name attrs, ts)] st2"
    by (rule run_content [OF ok(2) b assms(2), of p]) (simp_all add: p_def)
  note fin = building_done [OF k(3)]
  have pe: "p\<lparr>p_stanza := None, p_depth := 1\<rparr> = parser"
    using assms(3,4) by (simp add: p_def)
  have "end_element ?cbs name (p, e\<lparr>e_store := st2\<rparr>) =
      map_option (\<lambda>u. (p\<lparr>p_stanza := None, p_depth := 1\<rparr>, e\<lparr>e_store := freed st2 (c # kids_addrs ts), e_userdata := u\<rparr>))
        (h (Stanza (elem_node name attrs) (map a_tree ts)) (e_userdata e))"
    using fin(1,2,4)
    by (simp add: end_element_def reader_callbacks_def p_def map_option_case split: option.splits)
  then show ?thesis
    using s k(1,2) fin(3) pe
    by (intro exI [of _ "freed st2 (c # kids_addrs ts)"]) (simp add: sax_run_append map_option_case split: option.splits)
qed

lemma run_top:
  fixes parser :: "'x parser_t" and e :: "'u parser_env"
  assumes "building base [] (e_store e)" "e_mem e = []" "p_stanza parser = None" "p_depth parser = 1"
    "\<forall>x \<in> set docs. xml_ok x"
  shows "\<exists>st. building base [] st \<and>
    sax_run (reader_callbacks hs h hc) (concat (map xml_events docs)) (parser, e) =
      map_option (\<lambda>u. (parser, e\<lparr>e_store := st, e_userdata := u\<rparr>))
        (deliver h (map tree_of_xml (filter is_elem docs)) (e_userdata e))"
  using assms
proof (induction docs arbitrary: e)
  case Nil
  then show ?case by (intro exI [of _ "e_store e"]) simp
next
  case (Cons x docs)
  show ?case
  proof (cases x)
    case (XText s)
    have "parser_characters s (length s) (parser, e) = Some (parser, e)"
      using Cons(5) by (simp add: parser_characters_def)
    then show ?thesis using Cons XText by simp
  next
    case (XElem name attrs kids)
    obtain st1 where st1: "building base [] st1" "sax_run (reader_callbacks hs h hc) (xml_events x) (parser, e) =
        map_option (\<lambda>u. (parser, e\<lparr>e_store := st1, e_userdata := u\<rparr>)) (h (tree_of_xml x) (e_userdata e))"
      using run_top_elem [OF Cons(2-5), of name attrs kids hs h hc] Cons(6) XElem by auto
    have el: "is_elem x" using XElem by simp
    show ?thesis
    proof (cases "h (tree_of_xml x) (e_userdata e)")
      case None
      then show ?thesis using st1 el by (intro exI [of _ st1]) (simp add: sax_run_append)
    next
      case (Some u)
      obtain st2 where "building base [] st2"
        "sax_run (reader_callbacks hs h hc) (concat (map xml_events docs)) (parser, e\<lparr>e_store := st1, e_userdata := u\<rparr>) =
          map_option (\<lambda>u'. (parser, e\<lparr>e_store := st1, e_userdata := u\<rparr>\<lparr>e_store := st2, e_userdata := u'\<rparr>))
            (deliver h (map tree_of_xml (filter is_elem docs)) u)"
        using Cons(1) [of "e\<lparr>e_store := st1, e_userdata := u\<rparr>"] Cons(3-6) st1(1) by auto
      then show ?thesis
        using st1 Some el by (intro exI [of _ st2]) (simp add: sax_run_append)
    qed
  qed
qed

lemma building_refl:
  "building st [] st' \<longleftrightarrow> (\<forall>q. st_get st' q = st_get st q) \<and> (\<forall>q \<ge> st_fresh st'. st_get st q = None)"
  by (auto simp: building_def)

text \<open>What a parser that is freed in the middle of a stanza leaves behind.\<close>

lemma parser_free_leaks:
  assumes "in_frame base fs (parser, e)"
  shows "(\<forall>q. st_get (e_store (snd (parser_free (parser, e)))) q = st_get base q) \<longleftrightarrow> fs = []"
proof (cases fs)
  case (Cons f gs)
  obtain c cn ts where "f = (c, cn, ts)" by (cases f) auto
  then have "st_get (e_store e) c \<noteq> st_get base c"
    using assms Cons by (auto simp: in_frame_def building_def)
  then show ?thesis using Cons by (auto simp: parser_free_def)
qed (use assms in \<open>auto simp: parser_free_def in_frame_def building_refl\<close>)

subsection \<open>Properties\<close>

text \<open>Claim C1. From a fresh parser, and without allocation failures, the handlers of a whole stream, an open
  root element, any sequence of well-nested documents and texts, and the end of the root, call the owner's
  callbacks once for the root, once for every element directly below it, with exactly the tree it denotes,
  and once for the end; afterwards the parser is as before and every object built for a stanza is freed.\<close>

theorem parser_delivers:
  assumes "p_depth parser = 0" "p_stanza parser = None" "e_mem e = []"
    "\<forall>q \<ge> st_fresh (e_store e). st_get (e_store e) q = None" "\<forall>x \<in> set docs. xml_ok x"
  shows "\<exists>st. (\<forall>q. st_get st q = st_get (e_store e) q) \<and>
    sax_run (reader_callbacks hs h hc)
        (Start_element root attrs # concat (map xml_events docs) @ [End_element root]) (parser, e) =
      map_option (\<lambda>u. (parser, e\<lparr>e_store := st, e_userdata := u\<rparr>)) (do {
        u \<leftarrow> hs root attrs (e_userdata e);
        u \<leftarrow> deliver h (map tree_of_xml (filter is_elem docs)) u;
        hc root u })"
proof (cases "hs root attrs (e_userdata e)")
  case None
  then show ?thesis
    using assms(1) by (intro exI [of _ "e_store e"]) (simp add: start_element_def reader_callbacks_def)
next
  case (Some u)
  have s: "start_element (reader_callbacks hs h hc) root attrs (parser, e) =
      Some (parser\<lparr>p_depth := 1\<rparr>, e\<lparr>e_userdata := u\<rparr>)"
    using assms(1) Some by (simp add: start_element_def reader_callbacks_def)
  obtain st where st: "building (e_store e) [] st"
    "sax_run (reader_callbacks hs h hc) (concat (map xml_events docs)) (parser\<lparr>p_depth := 1\<rparr>, e\<lparr>e_userdata := u\<rparr>) =
      map_option (\<lambda>u'. (parser\<lparr>p_depth := 1\<rparr>, e\<lparr>e_userdata := u\<rparr>\<lparr>e_store := st, e_userdata := u'\<rparr>))
        (deliver h (map tree_of_xml (filter is_elem docs)) u)"
    using run_top [of "e_store e" "e\<lparr>e_userdata := u\<rparr>" "parser\<lparr>p_depth := 1\<rparr>" docs hs h hc] assms
    by (auto simp: building_refl)
  have "parser\<lparr>p_depth := 0\<rparr> = parser" using assms(1) by simp
  then show ?thesis
    using s st Some by (intro exI [of _ st])
      (auto simp: building_refl sax_run_append end_element_def reader_callbacks_def map_option_case split: option.splits)
qed

theorem parser_delivers_witness:
  "\<exists>st. (\<forall>q. st_get st q = None) \<and>
    sax_run (reader_callbacks (\<lambda>n _ u. Some (u @ [n])) (\<lambda>t u. Some (u @ [stanza_text t])) (\<lambda>n u. Some (u @ [n])))
      [Start_element ''s'' None, Start_element ''a'' (Some []), Characters ''x'' 1, Start_element ''b'' (Some []),
       End_element ''b'', End_element ''a'', End_element ''s'']
      (\<lparr> p_expat = Some (), p_depth = 0, p_stanza = None \<rparr>,
       \<lparr> e_store = empty_store, e_mem = [], e_userdata = [] \<rparr>) =
    Some (\<lparr> p_expat = Some (), p_depth = 0, p_stanza = None \<rparr>,
       \<lparr> e_store = st, e_mem = [], e_userdata = [''s'', ''<a>x<b/></a>'', ''s''] \<rparr>)"
  using parser_delivers [of "\<lparr> p_expat = Some (), p_depth = 0, p_stanza = None \<rparr>"
      "\<lparr> e_store = empty_store, e_mem = [], e_userdata = [] \<rparr>" "[XElem ''a'' [] [XText ''x'', XElem ''b'' [] []]]"
      "\<lambda>n _ u. Some (u @ [n])" "\<lambda>t u. Some (u @ [stanza_text t])" "\<lambda>n u. Some (u @ [n])" "''s''" None]
  by (simp add: st_get_def empty_store_def stanza_text_def elem_node_def tag_open_def escape_def text_node_def
      del: sax_run.simps)

text \<open>A reset in the middle of a stanza: with at most one element open, everything the parser had
  built is freed; below that, only the innermost element is, and the ones around it stay allocated and
  keep their link to it.\<close>

theorem parser_reset_frees_iff:
  assumes "in_frame base fs (parser, e)"
  shows "\<exists>parser' e'. parser_reset (Some x) (parser, e) = Some (1, parser', e') \<and>
    p_depth parser' = 0 \<and> p_stanza parser' = None \<and>
    ((\<forall>q. st_get (e_store e') q = st_get base q) \<longleftrightarrow> length fs \<le> 1)"
proof (cases fs)
  case Nil
  then show ?thesis
    using assms by (simp add: in_frame_def parser_reset_def frame_par_def building_refl)
next
  case (Cons f gs)
  obtain c cn ts where f: "f = (c, cn, ts)" by (cases f) auto
  let ?t = "ATree c cn ts"
  have h: "holds_tree (e_store e) (frame_par gs) (frame_prev gs) None ?t" "distinct (a_addrs ?t)"
    using assms Cons f by (auto simp: in_frame_def building_def)
  have r: "xmpp_stanza_release (e_store e) c = Some (1, freed (e_store e) (a_addrs ?t))"
    using release_holds [OF h] by (simp add: xmpp_stanza_release_def)
  have all: "(\<forall>q. st_get (freed (e_store e) (a_addrs ?t)) q = st_get base q) \<longleftrightarrow> gs = []"
  proof (cases gs)
    case Nil
    then show ?thesis using assms Cons f by (auto simp: in_frame_def building_def)
  next
    case gs: (Cons g hs)
    obtain a n ks where g: "g = (a, n, ks)" by (cases g) auto
    have "st_get (freed (e_store e) (a_addrs ?t)) a \<noteq> st_get base a"
      using assms Cons f gs g by (auto simp: in_frame_def building_def)
    then show ?thesis using gs by (metis list.distinct(1))
  qed
  have "p_stanza parser = Some c" using assms Cons f by (simp add: in_frame_def frame_par_def)
  then show ?thesis
    using r all Cons by (simp add: parser_reset_def)
qed

definition two_open :: store where
  "two_open = \<lparr> st_cells = [0 \<mapsto> cell_of blank_node None None (Some 1) None, 1 \<mapsto> cell_of blank_node None None None (Some 0)],
     st_fresh = 2 \<rparr>"

theorem parser_reset_frees_iff_witness:
  "\<exists>parser' e'. parser_reset (Some ()) (\<lparr> p_expat = Some (), p_depth = 3, p_stanza = Some 1 \<rparr>,
      \<lparr> e_store = two_open, e_mem = [], e_userdata = () \<rparr>) = Some (1, parser', e') \<and>
    \<not> (\<forall>q. st_get (e_store e') q = st_get empty_store q)"
proof -
  have "in_frame empty_store [(1, blank_node, []), (0, blank_node, [])]
      (\<lparr> p_expat = Some (), p_depth = 3, p_stanza = Some 1 \<rparr>, \<lparr> e_store = two_open, e_mem = [], e_userdata = () \<rparr>)"
    by (auto simp: in_frame_def building_def two_open_def empty_store_def st_get_def frame_par_def frame_prev_def)
  from parser_reset_frees_iff [OF this, of "()"] show ?thesis by auto
qed

end
