(* ===== verification/Conn.thy ===== *)
theory Conn
  imports Handlers Jid Xml_Parser
begin

section \<open>Connections (conn.c)\<close>

text \<open>
  Models \<open>src/conn.c\<close>.  A connection is a record that extends the handler lists of \<open>Handlers\<close> by
  the fields of \<open>struct _xmpp_conn_t\<close>; the parser object is kept beside it by the event loop.  The
  handlers of the library are the elements of a datatype, user code and the wrapped TLS library are the functions of
  an environment record that the operations get as an argument.  The send queue is the list of its items from
  \<open>send_queue_head\<close> on.  Incoming stanzas are trees, which is what the parser delivers
  (\<open>parser_delivers\<close>).
\<close>

subsection \<open>The connection record\<close>

text \<open>The allocator, the clock and the loop status belong to the context; they are fields of the record too, which
  hold them while one of its functions runs.\<close>

datatype lib_handler =
  H_error | H_missing_features | H_features | H_proceedtls | H_sasl_result | H_digestmd5_challenge
| H_digestmd5_rspauth | H_features_sasl | H_missing_features_sasl | H_bind | H_missing_bind | H_session
| H_missing_session | H_legacy | H_missing_legacy | H_disconnect_cleanup | H_user nat

datatype udata = U_null | U_string string | U_user nat

datatype xmpp_conn_type_t = XMPP_UNKNOWN | XMPP_CLIENT | XMPP_COMPONENT

datatype xmpp_conn_event_t = XMPP_CONN_CONNECT | XMPP_CONN_DISCONNECT | XMPP_CONN_FAIL

datatype xmpp_error_type_t =
  XMPP_SE_BAD_FORMAT | XMPP_SE_BAD_NS_PREFIX | XMPP_SE_CONFLICT | XMPP_SE_CONN_TIMEOUT | XMPP_SE_HOST_GONE
| XMPP_SE_HOST_UNKNOWN | XMPP_SE_IMPROPER_ADDR | XMPP_SE_INTERNAL_SERVER_ERROR | XMPP_SE_INVALID_FROM
| XMPP_SE_INVALID_ID | XMPP_SE_INVALID_NS | XMPP_SE_INVALID_XML | XMPP_SE_NOT_AUTHORIZED
| XMPP_SE_POLICY_VIOLATION | XMPP_SE_REMOTE_CONN_FAILED | XMPP_SE_RESOURCE_CONSTRAINT | XMPP_SE_RESTRICTED_XML
| XMPP_SE_SEE_OTHER_HOST | XMPP_SE_SYSTEM_SHUTDOWN | XMPP_SE_UNDEFINED_CONDITION | XMPP_SE_UNSUPPORTED_ENCODING
| XMPP_SE_UNSUPPORTED_STANZA_TYPE | XMPP_SE_UNSUPPORTED_VERSION | XMPP_SE_XML_NOT_WELL_FORMED

record xmpp_stream_error_t =
  se_type :: xmpp_error_type_t
  se_text :: "string option"
  se_stanza :: "stanza option"

text \<open>A pointer to a string that may have been freed without being reset.\<close>

datatype string_ptr = Null_ptr | Live_ptr string | Freed_ptr

text \<open>The stream-open handlers, \<open>auth_handle_open\<close> and \<open>_handle_open_sasl\<close>.\<close>

datatype open_handler_t = Auth_handle_open | Handle_open_sasl

datatype xmpp_loop_status_t = XMPP_LOOP_NOTSTARTED | XMPP_LOOP_RUNNING | XMPP_LOOP_QUIT

record xmpp_send_queue_t =
  sq_data :: string
  sq_written :: nat

record xmpp_conn_t = "(lib_handler, udata) hconn" +
  conn_ref :: nat
  conn_type :: xmpp_conn_type_t
  timeout_stamp :: u64
  conn_error :: int
  stream_error :: "xmpp_stream_error_t option"
  conn_sock :: int
  conn_tls :: bool
  tls_support :: bool
  tls_disabled :: bool
  tls_failed :: bool
  sasl_support :: u32
  secured :: bool
  bind_required :: bool
  session_required :: bool
  lang :: "string option"
  domain :: "string option"
  jid :: "string option"
  pass :: "string option"
  bound_jid :: "string option"
  stream_id :: string_ptr
  send_queue :: "xmpp_send_queue_t list"
  send_queue_len :: int
  reset_parser :: bool
  connect_timeout :: u64
  open_handler :: open_handler_t
  conn_handler :: "nat option"
  fresh_byte :: char
  ctx_status :: xmpp_loop_status_t

type_synonym conn = xmpp_conn_t

text \<open>User code, and the wrapper of the TLS library: \<open>tls_new\<close> by its success, and \<open>tls_start\<close>, which
  gets the handle, \<open>NULL\<close> or not, and need not survive that.\<close>

record environ =
  en_handler :: "nat \<Rightarrow> stanza \<Rightarrow> udata \<Rightarrow> conn \<Rightarrow> (bool \<times> conn) option"
  en_timed :: "nat \<Rightarrow> udata \<Rightarrow> conn \<Rightarrow> (bool \<times> conn) option"
  en_conn :: "nat \<Rightarrow> xmpp_conn_event_t \<Rightarrow> conn \<Rightarrow> conn option"
  en_tls_new :: "conn \<Rightarrow> bool"
  en_tls_start :: "bool \<Rightarrow> conn \<Rightarrow> bool option"

definition XMPP_NS_CLIENT :: string where "XMPP_NS_CLIENT = ''jabber:client''"
definition XMPP_NS_COMPONENT :: string where "XMPP_NS_COMPONENT = ''jabber:component:accept''"
definition XMPP_NS_STREAMS :: string where "XMPP_NS_STREAMS = ''http://etherx.jabber.org/streams''"

text \<open>\<open>conn->conn_handler(conn, event, ...)\<close>: a call through \<open>NULL\<close> when none is set.\<close>

definition call_conn_handler :: "environ \<Rightarrow> xmpp_conn_event_t \<Rightarrow> conn \<Rightarrow> conn option" where
  "call_conn_handler en ev c = do { h \<leftarrow> conn_handler c; en_conn en h ev c }"

subsection \<open>Sending\<close>

definition xmpp_send_raw :: "conn \<Rightarrow> string \<Rightarrow> conn" where
  "xmpp_send_raw c data =
     (if conn_state c \<noteq> XMPP_STATE_CONNECTED then c
      else case conn_alloc c of
        (False, c) \<Rightarrow> c
      | (True, c) \<Rightarrow>
          (case conn_alloc c of
             (False, c) \<Rightarrow> c
           | (True, c) \<Rightarrow> c\<lparr>send_queue := send_queue c @ [\<lparr> sq_data = data, sq_written = 0 \<rparr>],
                             send_queue_len := send_queue_len c + 1\<rparr>))"

definition xmpp_send_raw_string :: "conn \<Rightarrow> string \<Rightarrow> va_arg list \<Rightarrow> conn option" where
  "xmpp_send_raw_string c fmt args = do {
     (len, buf) \<leftarrow> xmpp_vsnprintf (Some (replicate 1024 (fresh_byte c))) 1024 fmt args;
     buf \<leftarrow> buf;
     if nat len \<ge> 1024 then
       (case conn_alloc c of
          (False, c) \<Rightarrow> Some c
        | (True, c) \<Rightarrow> do {
            (_, bigbuf) \<leftarrow> xmpp_vsnprintf (Some (replicate (nat len + 1) (fresh_byte c))) (nat len + 1) fmt args;
            bigbuf \<leftarrow> bigbuf;
            Some (xmpp_send_raw c (take (nat len) bigbuf)) })
     else Some (xmpp_send_raw c (take (nat len) buf)) }"

definition xmpp_send :: "conn \<Rightarrow> stanza \<Rightarrow> conn option" where
  "xmpp_send c s =
     (if conn_state c \<noteq> XMPP_STATE_CONNECTED then Some c
      else do {
        (ret, r, m) \<leftarrow> xmpp_stanza_to_text (fresh_byte c) (hc_mem c) s;
        let c = c\<lparr>hc_mem := m\<rparr>;
        if ret = 0 then do {
          (buf, len) \<leftarrow> r;
          buf \<leftarrow> buf;
          Some (xmpp_send_raw c (take len buf)) }
        else Some c })"

definition conn_open_stream :: "conn \<Rightarrow> conn option" where
  "conn_open_stream c = xmpp_send_raw_string c
     (''<?xml version=\"1.0\"?><stream:stream to=\"%s\" xml:lang=\"%s\" version=\"1.0\" '' @
      ''xmlns=\"%s\" xmlns:stream=\"%s\">'')
     [VStr (domain c), VStr (lang c),
      VStr (Some (if conn_type c = XMPP_CLIENT then XMPP_NS_CLIENT else XMPP_NS_COMPONENT)),
      VStr (Some XMPP_NS_STREAMS)]"

subsection \<open>Disconnecting\<close>

definition DISCONNECT_TIMEOUT :: u64 where "DISCONNECT_TIMEOUT = 2000"

definition conn_disconnect :: "environ \<Rightarrow> conn \<Rightarrow> conn option" where
  "conn_disconnect en c =
     call_conn_handler en XMPP_CONN_DISCONNECT (c\<lparr>conn_state := XMPP_STATE_DISCONNECTED, conn_tls := False\<rparr>)"

definition conn_disconnect_clean :: "environ \<Rightarrow> conn \<Rightarrow> conn option" where
  "conn_disconnect_clean en c = do {
     c \<leftarrow> xmpp_timed_handler_delete c H_disconnect_cleanup;
     conn_disconnect en c }"

text \<open>The timed handler \<open>_disconnect_cleanup\<close>.\<close>

definition disconnect_cleanup :: "environ \<Rightarrow> conn \<Rightarrow> (bool \<times> conn) option" where
  "disconnect_cleanup en c = do {
     c \<leftarrow> conn_disconnect en c;
     Some (False, c) }"

definition xmpp_disconnect :: "conn \<Rightarrow> conn option" where
  "xmpp_disconnect c =
     (if conn_state c \<noteq> XMPP_STATE_CONNECTING \<and> conn_state c \<noteq> XMPP_STATE_CONNECTED then Some c
      else do {
        c \<leftarrow> xmpp_send_raw_string c ''</stream:stream>'' [];
        handler_add_timed c H_disconnect_cleanup DISCONNECT_TIMEOUT U_null })"

text \<open>\<open>disconnect_mem_error\<close> of \<open>util.c\<close>.\<close>

definition disconnect_mem_error :: "conn \<Rightarrow> conn option" where
  "disconnect_mem_error c = xmpp_disconnect c"

definition conn_prepare_reset :: "conn \<Rightarrow> open_handler_t \<Rightarrow> conn" where
  "conn_prepare_reset c h = c\<lparr>reset_parser := True, open_handler := h\<rparr>"

text \<open>The parser and the connection of a session; \<open>conn_parser_reset\<close> works on both.\<close>

type_synonym 'x session = "'x parser_t \<times> conn parser_env"

definition conn_parser_reset :: "'x option \<Rightarrow> 'x session \<Rightarrow> 'x session option" where
  "conn_parser_reset create s = (case s of (parser, e) \<Rightarrow> do {
     (_, parser, e) \<leftarrow> parser_reset create (parser, e\<lparr>e_userdata := (e_userdata e)\<lparr>reset_parser := False\<rparr>\<rparr>);
     Some (parser, e) })"

subsection \<open>Accessors\<close>

definition xmpp_conn_clone :: "conn \<Rightarrow> conn" where
  "xmpp_conn_clone c = c\<lparr>conn_ref := conn_ref c + 1\<rparr>"

definition xmpp_conn_get_jid :: "conn \<Rightarrow> string option" where
  "xmpp_conn_get_jid c = jid c"

definition xmpp_conn_get_bound_jid :: "conn \<Rightarrow> string option" where
  "xmpp_conn_get_bound_jid c = bound_jid c"

definition xmpp_conn_set_jid :: "conn \<Rightarrow> string \<Rightarrow> conn" where
  "xmpp_conn_set_jid c s = (case xmpp_strdup (hc_mem c) s of (p, m) \<Rightarrow> c\<lparr>jid := p, hc_mem := m\<rparr>)"

definition xmpp_conn_get_pass :: "conn \<Rightarrow> string option" where
  "xmpp_conn_get_pass c = pass c"

definition xmpp_conn_set_pass :: "conn \<Rightarrow> string \<Rightarrow> conn" where
  "xmpp_conn_set_pass c s = (case xmpp_strdup (hc_mem c) s of (p, m) \<Rightarrow> c\<lparr>pass := p, hc_mem := m\<rparr>)"

definition xmpp_conn_disable_tls :: "conn \<Rightarrow> conn" where
  "xmpp_conn_disable_tls c = c\<lparr>tls_disabled := True\<rparr>"

subsection \<open>Connecting\<close>

text \<open>\<open>srv\<close> is the answer of \<open>sock_srv_lookup\<close>, \<open>connect\<close> is \<open>sock_connect\<close>.  The name is
  copied into a buffer of 2048 bytes.\<close>

definition xmpp_connect_client ::
    "(string \<Rightarrow> (string \<times> int) option) \<Rightarrow> (string \<Rightarrow> int \<Rightarrow> int) \<Rightarrow> conn \<Rightarrow> string option \<Rightarrow> int \<Rightarrow> nat option \<Rightarrow>
      (int \<times> conn) option" where
  "xmpp_connect_client srv connect c altdomain altport callback = do {
     let c = c\<lparr>conn_type := XMPP_CLIENT\<rparr>;
     j \<leftarrow> jid c;
     case xmpp_jid_domain (hc_mem c) j of
       (None, m) \<Rightarrow> Some (- 1, c\<lparr>domain := None, hc_mem := m\<rparr>)
     | (Some d, m) \<Rightarrow> do {
         let c = c\<lparr>domain := Some d, hc_mem := m\<rparr>;
         (connectdomain, connectport) \<leftarrow> (case altdomain of
            Some a \<Rightarrow> if length a < 2048 then Some (a, if altport \<noteq> 0 then altport else 5222) else None
          | None \<Rightarrow>
              (case srv d of
                 Some r \<Rightarrow> Some r
               | None \<Rightarrow> if length d < 2048 then Some (d, if altport \<noteq> 0 then altport else 5222) else None));
         let c = c\<lparr>conn_sock := connect connectdomain connectport\<rparr>;
         if conn_sock c = - 1 then Some (- 1, c)
         else (case time_stamp (c\<lparr>conn_handler := callback, conn_state := XMPP_STATE_CONNECTING\<rparr>) of
           (now, c) \<Rightarrow> Some (0, c\<lparr>timeout_stamp := now\<rparr>)) } }"

subsection \<open>Creation and release\<close>

text \<open>The id table of a connection whose \<open>hash_new\<close> failed is \<open>NULL\<close>: any access to it is undefined.\<close>

definition null_table :: "nat option hash_t" where
  "null_table = \<lparr> h_ref = 1, h_free = False, h_length = 0, h_num_keys = 0, h_entries = [] \<rparr>"

definition conn_blank :: "char \<Rightarrow> xmpp_loop_status_t \<Rightarrow> u64 list \<Rightarrow> mem \<Rightarrow> string option \<Rightarrow> nat option hash_t \<Rightarrow> conn" where
  "conn_blank junk ls clock m lng ids = \<lparr>
     hc_items = (\<lambda>_. None), hc_fresh = 0, hc_mem = m, hc_clock = clock,
     conn_state = XMPP_STATE_DISCONNECTED, authenticated = False, timed_handlers = None, id_handlers = ids,
     handlers = None,
     conn_ref = 1, conn_type = XMPP_UNKNOWN, timeout_stamp = 0, conn_error = 0, stream_error = None,
     conn_sock = - 1, conn_tls = False, tls_support = False, tls_disabled = False, tls_failed = False,
     sasl_support = 0, secured = False, bind_required = False, session_required = False,
     lang = lng, domain = None, jid = None, pass = None, bound_jid = None, stream_id = Null_ptr,
     send_queue = [], send_queue_len = 0, reset_parser = True, connect_timeout = 5000,
     open_handler = Auth_handle_open, conn_handler = None, fresh_byte = junk, ctx_status = ls \<rparr>"

text \<open>The last allocation is the item of the context's list; the result is the parser, which may be \<open>NULL\<close>, and
  the connection.  \<open>create\<close> is the result of \<open>XML_ParserCreate\<close>.\<close>

definition xmpp_conn_new ::
    "char \<Rightarrow> xmpp_loop_status_t \<Rightarrow> u64 list \<Rightarrow> 'x option \<Rightarrow> mem \<Rightarrow> (('x parser_t option \<times> conn) option \<times> mem) option" where
  "xmpp_conn_new junk ls clock create m =
     (case xmpp_alloc m of
        (False, m) \<Rightarrow> Some (None, m)
      | (True, m) \<Rightarrow>
          (case xmpp_strdup m ''en'' of
             (None, m) \<Rightarrow> Some (None, m)
           | (Some en, m) \<Rightarrow> do {
               (parser, e) \<leftarrow> parser_new create \<lparr> e_store = empty_store, e_mem = m, e_userdata = () \<rparr>;
               (case hash_new (e_mem e) 32 False of (ids, m) \<Rightarrow>
                (case xmpp_alloc m of
                   (False, m) \<Rightarrow> (case parser of None \<Rightarrow> None | Some _ \<Rightarrow> Some (None, m))
                 | (True, m) \<Rightarrow> Some (Some (parser,
                     conn_blank junk ls clock m (Some en) (case ids of None \<Rightarrow> null_table | Some t \<Rightarrow> t)), m))) }))"

text \<open>The list of connections of the context, by identity: the removal reads the first item unchecked.\<close>

definition connlist_remove :: "'c list \<Rightarrow> 'c \<Rightarrow> 'c list option" where
  "connlist_remove conns c =
     (case conns of
        [] \<Rightarrow> None
      | c' # rest \<Rightarrow> Some (if c' = c then rest else c' # remove1 c rest))"

partial_function (option) free_chain :: "nat option \<Rightarrow> conn \<Rightarrow> conn option" where
  "free_chain item c =
     (case item of
        None \<Rightarrow> Some c
      | Some p \<Rightarrow> Option.bind (hc_items c p) (\<lambda>i. free_chain (hl_next i) (free_item c p)))"

fun free_id_chains :: "string list \<Rightarrow> conn \<Rightarrow> conn option" where
  "free_id_chains [] c = Some c"
| "free_id_chains (key # keys) c = do {
     item \<leftarrow> id_lookup c key;
     c \<leftarrow> free_chain item c;
     free_id_chains keys c }"

text \<open>Whether the connection was freed, and what is left of it: handler items still in the store are
  leaked.  The stream id is freed whatever its state.\<close>

definition xmpp_conn_release :: "conn \<Rightarrow> (bool \<times> conn) option" where
  "xmpp_conn_release c =
     (if conn_ref c > 1 then Some (False, c\<lparr>conn_ref := conn_ref c - 1\<rparr>)
      else do {
        c \<leftarrow> free_chain (timed_handlers c) c;
        (case hash_iter_new (hc_mem c) (id_handlers c) of
           (None, _, _) \<Rightarrow> None
         | (Some it, t, m) \<Rightarrow> do {
             c \<leftarrow> free_id_chains (hash_iter_keys t it) (c\<lparr>hc_mem := m, id_handlers := t\<rparr>);
             c \<leftarrow> free_chain (handlers c) c;
             case stream_id c of Freed_ptr \<Rightarrow> None | _ \<Rightarrow> Some (True, c) }) })"

subsection \<open>The handlers of the stream\<close>

text \<open>The pieces that \<open>_log_open_tag\<close> prints into its buffer of 4096 bytes; the room left is a \<open>size_t\<close>.\<close>

definition log_put :: "string \<Rightarrow> nat \<Rightarrow> string \<Rightarrow> va_arg list \<Rightarrow> (string \<times> nat) option" where
  "log_put buf off fmt args = do {
     (len, b) \<leftarrow> xmpp_snprintf (Some (drop off buf)) (nat ((4096 - int off) mod 2 ^ 64)) fmt args;
     b \<leftarrow> b;
     Some (take off buf @ b, off + nat len) }"

fun log_attrs :: "xml_attrs \<Rightarrow> string \<Rightarrow> nat \<Rightarrow> (string \<times> nat) option" where
  "log_attrs [] buf off = Some (buf, off)"
| "log_attrs ((k, v) # attrs) buf off = do {
     (buf, off) \<leftarrow> log_put buf off ('' %s='' @ [CHR 0x27] @ ''%s'' @ [CHR 0x27]) [VStr (Some k), VStr (Some v)];
     log_attrs attrs buf off }"

text \<open>The buffer that is logged at the end, if any.\<close>

definition log_open_tag :: "char \<Rightarrow> xml_attrs option \<Rightarrow> string option option" where
  "log_open_tag junk attrs =
     (case attrs of
        None \<Rightarrow> Some None
      | Some attrs \<Rightarrow> do {
          (buf, off) \<leftarrow> log_put (replicate 4096 junk) 0 ''<stream:stream'' [];
          (buf, off) \<leftarrow> log_attrs attrs buf off;
          (buf, off) \<leftarrow> log_put buf off ''>'' [];
          Some (Some buf) })"

definition get_stream_attribute :: "xml_attrs option \<Rightarrow> string \<Rightarrow> string option" where
  "get_stream_attribute attrs name = (case attrs of None \<Rightarrow> None | Some attrs \<Rightarrow> map_of attrs name)"

text \<open>The old stream id is freed and only overwritten when there is a new one.  The open handler, \<open>opn\<close>, is
  called in any case.\<close>

definition handle_stream_start ::
    "environ \<Rightarrow> (open_handler_t \<Rightarrow> conn \<Rightarrow> conn option) \<Rightarrow> string \<Rightarrow> xml_attrs option \<Rightarrow> conn \<Rightarrow> conn option" where
  "handle_stream_start en opn name attrs c = do {
     c \<leftarrow> (if name \<noteq> ''stream:stream'' then conn_disconnect en c
           else do {
             _ \<leftarrow> log_open_tag (fresh_byte c) attrs;
             c \<leftarrow> (case stream_id c of
                     Null_ptr \<Rightarrow> Some c
                   | Live_ptr _ \<Rightarrow> Some (c\<lparr>stream_id := Freed_ptr\<rparr>)
                   | Freed_ptr \<Rightarrow> None);
             let c = (case get_stream_attribute attrs ''id'' of
                 None \<Rightarrow> c
               | Some i \<Rightarrow> (case xmpp_strdup (hc_mem c) i of (p, m) \<Rightarrow>
                   c\<lparr>stream_id := (case p of None \<Rightarrow> Null_ptr | Some i \<Rightarrow> Live_ptr i), hc_mem := m\<rparr>));
             if stream_id c = Null_ptr then conn_disconnect en c else Some c });
     opn (open_handler c) c }"

definition handle_stream_end :: "environ \<Rightarrow> string \<Rightarrow> conn \<Rightarrow> conn option" where
  "handle_stream_end en name c = conn_disconnect_clean en c"

text \<open>The stanza is rendered for the log before the handlers see it.\<close>

definition handle_stream_stanza ::
    "(lib_handler \<Rightarrow> stanza \<Rightarrow> udata \<Rightarrow> conn \<Rightarrow> (bool \<times> conn) option) \<Rightarrow> stanza \<Rightarrow> conn \<Rightarrow> conn option" where
  "handle_stream_stanza run s c = do {
     (_, _, m) \<leftarrow> xmpp_stanza_to_text (fresh_byte c) (hc_mem c) s;
     handler_fire_stanza run (c\<lparr>hc_mem := m\<rparr>) s }"

end
