(* ===== verification/Md5.thy ===== *)
theory Md5
  imports Block_Hash
begin

section \<open>MD5 (md5.c)\<close>

text \<open>
  Models \<open>src/md5.c\<close>: the context with its 64-byte buffer and two-word bit counter, the
  incremental \<open>MD5Update\<close>, the padding in \<open>MD5Final\<close> and the compression function.  The 64
  steps of \<open>MD5Transform\<close> are the table \<open>md5_steps\<close>, in the order of the code; its macro
  \<open>MD5STEP\<close> is applied with the roles of the four words rotating, as the code spells out.
\<close>

subsection \<open>The compression function\<close>

type_synonym md5_words = "u32 \<times> u32 \<times> u32 \<times> u32"

datatype md5_round = R1 | R2 | R3 | R4

definition F1 :: "u32 \<Rightarrow> u32 \<Rightarrow> u32 \<Rightarrow> u32" where "F1 x y z = z XOR (x AND (y XOR z))"
definition F2 :: "u32 \<Rightarrow> u32 \<Rightarrow> u32 \<Rightarrow> u32" where "F2 x y z = F1 z x y"
definition F3 :: "u32 \<Rightarrow> u32 \<Rightarrow> u32 \<Rightarrow> u32" where "F3 x y z = x XOR y XOR z"
definition F4 :: "u32 \<Rightarrow> u32 \<Rightarrow> u32 \<Rightarrow> u32" where "F4 x y z = y XOR (x OR NOT z)"

fun md5_fun :: "md5_round \<Rightarrow> u32 \<Rightarrow> u32 \<Rightarrow> u32 \<Rightarrow> u32" where
  "md5_fun R1 = F1"
| "md5_fun R2 = F2"
| "md5_fun R3 = F3"
| "md5_fun R4 = F4"

text \<open>\<open>MD5STEP(f, w, x, y, z, data, s)\<close>: the new value of \<open>w\<close>.\<close>

definition MD5STEP :: "(u32 \<Rightarrow> u32 \<Rightarrow> u32 \<Rightarrow> u32) \<Rightarrow> u32 \<Rightarrow> u32 \<Rightarrow> u32 \<Rightarrow> u32 \<Rightarrow> u32 \<Rightarrow> nat \<Rightarrow> u32" where
  "MD5STEP f w x y z data s =
     (let w = w + (f x y z + data); w = push_bit s w OR drop_bit (32 - s) w in w + x)"

text \<open>Round, word of the block, additive constant, rotation.\<close>

definition md5_steps :: "(md5_round \<times> nat \<times> u32 \<times> nat) list" where
  "md5_steps = [
    (R1, 0, 0xd76aa478, 7), (R1, 1, 0xe8c7b756, 12),
    (R1, 2, 0x242070db, 17), (R1, 3, 0xc1bdceee, 22),
    (R1, 4, 0xf57c0faf, 7), (R1, 5, 0x4787c62a, 12),
    (R1, 6, 0xa8304613, 17), (R1, 7, 0xfd469501, 22),
    (R1, 8, 0x698098d8, 7), (R1, 9, 0x8b44f7af, 12),
    (R1, 10, 0xffff5bb1, 17), (R1, 11, 0x895cd7be, 22),
    (R1, 12, 0x6b901122, 7), (R1, 13, 0xfd987193, 12),
    (R1, 14, 0xa679438e, 17), (R1, 15, 0x49b40821, 22),
    (R2, 1, 0xf61e2562, 5), (R2, 6, 0xc040b340, 9),
    (R2, 11, 0x265e5a51, 14), (R2, 0, 0xe9b6c7aa, 20),
    (R2, 5, 0xd62f105d, 5), (R2, 10, 0x02441453, 9),
    (R2, 15, 0xd8a1e681, 14), (R2, 4, 0xe7d3fbc8, 20),
    (R2, 9, 0x21e1cde6, 5), (R2, 14, 0xc33707d6, 9),
    (R2, 3, 0xf4d50d87, 14), (R2, 8, 0x455a14ed, 20),
    (R2, 13, 0xa9e3e905, 5), (R2, 2, 0xfcefa3f8, 9),
    (R2, 7, 0x676f02d9, 14), (R2, 12, 0x8d2a4c8a, 20),
    (R3, 5, 0xfffa3942, 4), (R3, 8, 0x8771f681, 11),
    (R3, 11, 0x6d9d6122, 16), (R3, 14, 0xfde5380c, 23),
    (R3, 1, 0xa4beea44, 4), (R3, 4, 0x4bdecfa9, 11),
    (R3, 7, 0xf6bb4b60, 16), (R3, 10, 0xbebfbc70, 23),
    (R3, 13, 0x289b7ec6, 4), (R3, 0, 0xeaa127fa, 11),
    (R3, 3, 0xd4ef3085, 16), (R3, 6, 0x04881d05, 23),
    (R3, 9, 0xd9d4d039, 4), (R3, 12, 0xe6db99e5, 11),
    (R3, 15, 0x1fa27cf8, 16), (R3, 2, 0xc4ac5665, 23),
    (R4, 0, 0xf4292244, 6), (R4, 7, 0x432aff97, 10),
    (R4, 14, 0xab9423a7, 15), (R4, 5, 0xfc93a039, 21),
    (R4, 12, 0x655b59c3, 6), (R4, 3, 0x8f0ccc92, 10),
    (R4, 10, 0xffeff47d, 15), (R4, 1, 0x85845dd1, 21),
    (R4, 8, 0x6fa87e4f, 6), (R4, 15, 0xfe2ce6e0, 10),
    (R4, 6, 0xa3014314, 15), (R4, 13, 0x4e0811a1, 21),
    (R4, 4, 0xf7537e82, 6), (R4, 11, 0xbd3af235, 10),
    (R4, 2, 0x2ad7d2bb, 15), (R4, 9, 0xeb86d391, 21)]"

fun md5_step :: "u32 list \<Rightarrow> md5_words \<Rightarrow> md5_round \<times> nat \<times> u32 \<times> nat \<Rightarrow> md5_words" where
  "md5_step block (w, x, y, z) (r, k, t, s) = (z, MD5STEP (md5_fun r) w x y z (block ! k + t) s, x, y)"

definition MD5Transform :: "md5_words \<Rightarrow> u8 list \<Rightarrow> md5_words" where
  "MD5Transform b inext =
     (let (a0, b0, c0, d0) = b;
          (a, b, c, d) = foldl (md5_step (words_of_block inext)) b md5_steps
      in (a0 + a, b0 + b, c0 + c, d0 + d))"

subsection \<open>The context\<close>

record MD5Context =
  md5_buf :: md5_words
  md5_bits0 :: u32
  md5_bits1 :: u32
  md5_in :: "u8 list"

definition MD5Init :: MD5Context where
  "MD5Init = \<lparr> md5_buf = (0x67452301, 0xefcdab89, 0x98badcfe, 0x10325476),
     md5_bits0 = 0, md5_bits1 = 0, md5_in = replicate 64 0 \<rparr>"

text \<open>The loop over whole blocks, which copies each into the context, and the copy of the rest.\<close>

function md5_blocks :: "MD5Context \<Rightarrow> u8 list \<Rightarrow> MD5Context" where
  "md5_blocks ctx bs =
     (if 64 \<le> length bs
      then let ctx = ctx\<lparr>md5_in := overwrite (md5_in ctx) 0 (take 64 bs)\<rparr>;
               ctx = ctx\<lparr>md5_buf := MD5Transform (md5_buf ctx) (md5_in ctx)\<rparr>
           in md5_blocks ctx (drop 64 bs)
      else ctx\<lparr>md5_in := overwrite (md5_in ctx) 0 bs\<rparr>)"
  by pat_completeness auto
termination by (relation "measure (\<lambda>(ctx, bs). length bs)") auto

declare md5_blocks.simps [simp del]

definition MD5Update :: "MD5Context \<Rightarrow> u8 list \<Rightarrow> MD5Context" where
  "MD5Update ctx bs =
     (let len = (of_nat (length bs) :: u32);
          t = md5_bits0 ctx;
          ctx = ctx\<lparr>md5_bits0 := t + push_bit 3 len\<rparr>;
          ctx = (if md5_bits0 ctx < t then ctx\<lparr>md5_bits1 := md5_bits1 ctx + 1\<rparr> else ctx);
          ctx = ctx\<lparr>md5_bits1 := md5_bits1 ctx + drop_bit 29 len\<rparr>;
          t = unat (drop_bit 3 t AND 0x3f)
      in if t \<noteq> 0 then
           (if length bs < 64 - t then ctx\<lparr>md5_in := overwrite (md5_in ctx) t bs\<rparr>
            else let ctx = ctx\<lparr>md5_in := overwrite (md5_in ctx) t (take (64 - t) bs)\<rparr>;
                     ctx = ctx\<lparr>md5_buf := MD5Transform (md5_buf ctx) (md5_in ctx)\<rparr>
                 in md5_blocks ctx (drop (64 - t) bs))
         else md5_blocks ctx bs)"

text \<open>\<open>MD5Final\<close> returns the digest and the context; \<open>sizeof(ctx)\<close> is the size of a pointer, so
  the final \<open>memset\<close> clears two words only.\<close>

definition md5_digest_bytes :: "md5_words \<Rightarrow> u8 list" where
  "md5_digest_bytes w = (case w of (a, b, c, d) \<Rightarrow>
     PUT_32BIT_LSB_FIRST a @ PUT_32BIT_LSB_FIRST b @ PUT_32BIT_LSB_FIRST c @ PUT_32BIT_LSB_FIRST d)"

definition MD5Final :: "MD5Context \<Rightarrow> u8 list \<times> MD5Context" where
  "MD5Final ctx =
     (let count = unat (drop_bit 3 (md5_bits0 ctx) AND 0x3F);
          ctx = ctx\<lparr>md5_in := (md5_in ctx)[count := 0x80]\<rparr>;
          p = count + 1;
          count = 64 - 1 - count;
          ctx = (if count < 8
             then let ctx = ctx\<lparr>md5_in := overwrite (md5_in ctx) p (replicate count 0)\<rparr>;
                      ctx = ctx\<lparr>md5_buf := MD5Transform (md5_buf ctx) (md5_in ctx)\<rparr>
                  in ctx\<lparr>md5_in := overwrite (md5_in ctx) 0 (replicate 56 0)\<rparr>
             else ctx\<lparr>md5_in := overwrite (md5_in ctx) p (replicate (count - 8) 0)\<rparr>);
          ctx = ctx\<lparr>md5_in := overwrite (md5_in ctx) 56 (PUT_32BIT_LSB_FIRST (md5_bits0 ctx))\<rparr>;
          ctx = ctx\<lparr>md5_in := overwrite (md5_in ctx) 60 (PUT_32BIT_LSB_FIRST (md5_bits1 ctx))\<rparr>;
          ctx = ctx\<lparr>md5_buf := MD5Transform (md5_buf ctx) (md5_in ctx)\<rparr>
      in (md5_digest_bytes (md5_buf ctx),
          ctx\<lparr>md5_buf := (case md5_buf ctx of (a, b, c, d) \<Rightarrow> (0, 0, c, d))\<rparr>))"

subsection \<open>RFC 1321\<close>

text \<open>The digest of a message: padding to a multiple of 64 bytes, then absorbing the blocks.\<close>

definition md5_pad :: "nat \<Rightarrow> u8 list" where
  "md5_pad n = 0x80 # replicate ((119 - n mod 64) mod 64) 0 @
     PUT_32BIT_LSB_FIRST (of_int (8 * int n)) @ PUT_32BIT_LSB_FIRST (of_int (8 * int n div 2 ^ 32))"

definition md5 :: "u8 list \<Rightarrow> u8 list" where
  "md5 msg = md5_digest_bytes (fst (absorb MD5Transform (md5_buf MD5Init) (msg @ md5_pad (length msg))))"

subsection \<open>The update absorbs blocks\<close>

abbreviation md5_pending :: "MD5Context \<Rightarrow> u8 list" where
  "md5_pending ctx \<equiv> take (block_fill (md5_bits0 ctx)) (md5_in ctx)"

definition md5_ok :: "MD5Context \<Rightarrow> bool" where
  "md5_ok ctx \<longleftrightarrow> length (md5_in ctx) = 64"

abbreviation md5_bitcount :: "MD5Context \<Rightarrow> u64" where
  "md5_bitcount ctx \<equiv> join64 (md5_bits1 ctx) (md5_bits0 ctx)"

lemma md5_blocks_absorb:
  "length (md5_in ctx) = 64 \<Longrightarrow>
    md5_bits0 (md5_blocks ctx bs) = md5_bits0 ctx \<and> md5_bits1 (md5_blocks ctx bs) = md5_bits1 ctx \<and>
    length (md5_in (md5_blocks ctx bs)) = 64 \<and>
    (md5_buf (md5_blocks ctx bs), take (length bs mod 64) (md5_in (md5_blocks ctx bs))) =
      absorb MD5Transform (md5_buf ctx) bs"
proof (induction ctx bs rule: md5_blocks.induct)
  case (1 ctx bs)
  show ?case
  proof (cases "64 \<le> length bs")
    case True
    have "overwrite (md5_in ctx) 0 (take 64 bs) = take 64 bs"
      using True 1(2) by (simp add: overwrite_def)
    then show ?thesis
      using 1(1) [OF True refl refl] 1(2) True
      by (simp add: md5_blocks.simps [of ctx bs] Let_def absorb_step le_mod_geq)
  next
    case False
    then show ?thesis using 1(2)
      by (simp add: md5_blocks.simps [of ctx bs] overwrite_def)
  qed
qed

lemma MD5Update_bits:
  fixes ctx :: MD5Context
  assumes "length bs < 2 ^ 32"
  defines "lo \<equiv> md5_bits0 ctx + push_bit 3 (of_nat (length bs))"
  shows "lo = md5_bits0 ctx + of_nat (8 * length bs)"
    "drop_bit 29 (of_nat (length bs) :: u32) = of_nat (length bs div 2 ^ 29)"
proof -
  show "lo = md5_bits0 ctx + of_nat (8 * length bs)"
    by (simp add: lo_def push_bit_eq_mult)
  have "unat (of_nat (length bs) :: u32) = length bs"
    using assms(1) by (simp add: unsigned_of_nat take_bit_nat_eq_self)
  then have "unat (drop_bit 29 (of_nat (length bs) :: u32)) = length bs div 2 ^ 29"
    using assms(1) by (simp only: unsigned_drop_bit_eq) (simp add: drop_bit_eq_div take_bit_eq_mod)
  moreover have "length bs div 2 ^ 29 < 2 ^ 32"
    using assms(1) by (rule div_le_dividend [THEN le_less_trans])
  ultimately show "drop_bit 29 (of_nat (length bs) :: u32) = of_nat (length bs div 2 ^ 29)"
    by (simp only: word_unat_eq_iff unsigned_of_nat) (simp add: take_bit_eq_mod)
qed

lemma MD5Update_spec:
  assumes "md5_ok ctx" "length bs < 2 ^ 32"
  shows "md5_ok (MD5Update ctx bs) \<and>
    (md5_buf (MD5Update ctx bs), md5_pending (MD5Update ctx bs)) =
      absorb MD5Transform (md5_buf ctx) (md5_pending ctx @ bs) \<and>
    md5_bitcount (MD5Update ctx bs) = md5_bitcount ctx + of_nat (8 * length bs)"
proof -
  define lo where "lo = md5_bits0 ctx + of_nat (8 * length bs)"
  define hi where "hi = (if lo < md5_bits0 ctx then md5_bits1 ctx + 1 else md5_bits1 ctx) + of_nat (length bs div 2 ^ 29)"
  define c1 where "c1 = ctx\<lparr>md5_bits0 := lo, md5_bits1 := hi\<rparr>"
  define t where "t = block_fill (md5_bits0 ctx)"
  have t64: "t < 64" by (simp add: t_def block_fill_less)
  have upd: "MD5Update ctx bs = 
      (if t \<noteq> 0 then
           (if length bs < 64 - t then c1\<lparr>md5_in := overwrite (md5_in ctx) t bs\<rparr>
            else md5_blocks (c1\<lparr>md5_in := overwrite (md5_in ctx) t (take (64 - t) bs),
                     md5_buf := MD5Transform (md5_buf ctx) (overwrite (md5_in ctx) t (take (64 - t) bs))\<rparr>)
                     (drop (64 - t) bs))
         else md5_blocks c1 bs)"
    unfolding MD5Update_def MD5Update_bits(1) [OF assms(2)] MD5Update_bits(2) [OF assms(2)] Let_def
    by (simp add: lo_def hi_def c1_def t_def block_fill_def)
  have c1: "md5_in c1 = md5_in ctx" "md5_buf c1 = md5_buf ctx" "md5_bits0 c1 = lo" "md5_bits1 c1 = hi"
    by (simp_all add: c1_def)
  have in64: "length (md5_in ctx) = 64" using assms(1) by (simp add: md5_ok_def)
  have bits: "md5_bits0 (MD5Update ctx bs) = lo \<and> md5_bits1 (MD5Update ctx bs) = hi"
    using t64 in64 by (simp add: upd md5_blocks_absorb c1)
  have cnt: "join64 hi lo = md5_bitcount ctx + of_nat (8 * length bs)"
    by (rule counter_add [OF assms(2)]) (simp_all add: lo_def hi_def)
  have fill: "block_fill lo = (t + length bs) mod 64"
    unfolding lo_def t_def by (rule block_fill_add)
  have main: "md5_ok (MD5Update ctx bs) \<and> (md5_buf (MD5Update ctx bs), take (block_fill lo) (md5_in (MD5Update ctx bs))) =
      absorb MD5Transform (md5_buf ctx) (take t (md5_in ctx) @ bs)"
  proof (cases "t = 0")
    case True
    then show ?thesis using md5_blocks_absorb [of c1 bs] in64 by (simp add: upd c1 fill md5_ok_def)
  next
    case False
    show ?thesis
    proof (cases "length bs < 64 - t")
      case True
      then show ?thesis using False in64 by (simp add: upd c1 fill md5_ok_def take_overwrite)
    next
      case le: False
      let ?b = "overwrite (md5_in ctx) t (take (64 - t) bs)"
      let ?c = "c1\<lparr>md5_in := ?b, md5_buf := MD5Transform (md5_buf ctx) ?b\<rparr>"
      have b: "?b = take t (md5_in ctx) @ take (64 - t) bs" "length ?b = 64"
        using le t64 in64 by (simp_all add: overwrite_def)
      have "absorb MD5Transform (md5_buf ctx) (take t (md5_in ctx) @ bs) =
          absorb MD5Transform (md5_buf ctx) (?b @ drop (64 - t) bs)"
        by (simp add: b(1))
      also have "\<dots> = absorb MD5Transform (MD5Transform (md5_buf ctx) ?b) (drop (64 - t) bs)"
        by (rule absorb_block [OF b(2)])
      finally have a: "absorb MD5Transform (md5_buf ctx) (take t (md5_in ctx) @ bs) =
          absorb MD5Transform (MD5Transform (md5_buf ctx) ?b) (drop (64 - t) bs)" .
      have "(t + length bs) mod 64 = length (drop (64 - t) bs) mod 64"
        using le t64 by (simp add: le_mod_geq add.commute)
      then show ?thesis
        using md5_blocks_absorb [of ?c "drop (64 - t) bs"] b(2) False le by (simp add: upd fill a md5_ok_def)
    qed
  qed
  then show ?thesis using bits cnt by (simp add: t_def)
qed

interpretation md5: block_hash md5_ok MD5Init MD5Update md5_buf md5_pending md5_bitcount MD5Transform "2 ^ 32"
proof
  fix c :: MD5Context and bs
  show "md5_ok MD5Init" by (simp add: md5_ok_def MD5Init_def)
  show "md5_pending MD5Init = []" by (simp add: MD5Init_def block_fill)
  show "md5_bitcount MD5Init = 0" by (simp add: MD5Init_def join64_def)
  show "length (md5_pending c) < 64" if "md5_ok c"
    using that by (simp add: md5_ok_def block_fill_less)
  show "md5_ok (MD5Update c bs)" 
    "(md5_buf (MD5Update c bs), md5_pending (MD5Update c bs)) = absorb MD5Transform (md5_buf c) (md5_pending c @ bs)"
    "md5_bitcount (MD5Update c bs) = md5_bitcount c + of_nat (8 * length bs)" if "md5_ok c" "length bs < 2 ^ 32"
    using MD5Update_spec [OF that] by simp_all
qed

subsection \<open>The final padding\<close>

lemma MD5Final_spec:
  assumes "md5_ok ctx"
  defines "n \<equiv> block_fill (md5_bits0 ctx)"
  shows "fst (MD5Final ctx) = md5_digest_bytes (fst (absorb MD5Transform (md5_buf ctx)
    (md5_pending ctx @ 0x80 # replicate ((119 - n) mod 64) 0 @
      PUT_32BIT_LSB_FIRST (md5_bits0 ctx) @ PUT_32BIT_LSB_FIRST (md5_bits1 ctx))))"
proof -
  have in64: "length (md5_in ctx) = 64" using assms(1) by (simp add: md5_ok_def)
  have n64: "n < 64" by (simp add: n_def block_fill_less)
  define L where "L = PUT_32BIT_LSB_FIRST (md5_bits0 ctx) @ PUT_32BIT_LSB_FIRST (md5_bits1 ctx)"
  have lL: "length L = 8" by (simp add: L_def)
  have last: "overwrite (overwrite b 56 (PUT_32BIT_LSB_FIRST (md5_bits0 ctx))) 60 (PUT_32BIT_LSB_FIRST (md5_bits1 ctx)) =
      take 56 b @ L" if "length b = 64" for b
    using that by (simp add: overwrite_def L_def)
  define p where "p = (md5_in ctx)[n := 0x80]"
  have p: "length p = 64" "take (n + 1) p = take n (md5_in ctx) @ [0x80]"
    using in64 n64 by (simp_all add: p_def take_Suc_conv_app_nth)
  show ?thesis
  proof (cases "64 - 1 - n < 8")
    case True
    define b where "b = overwrite p (n + 1) (replicate (64 - 1 - n) 0)"
    have b: "b = take n (md5_in ctx) @ 0x80 # replicate (63 - n) 0" "length b = 64"
      using n64 p in64 by (simp_all add: b_def overwrite_def)
    have c: "take 56 (overwrite b 0 (replicate 56 0)) = replicate 56 0"
      by (simp add: overwrite_def)
    have b': "overwrite p (Suc n) (replicate (63 - n) 0) = b" by (simp add: b_def)
    have "fst (MD5Final ctx) = md5_digest_bytes (MD5Transform (MD5Transform (md5_buf ctx) b) (replicate 56 0 @ L))"
      using True b(2) c last [of "overwrite b 0 (replicate 56 0)"]
      unfolding MD5Final_def Let_def block_fill_def [symmetric] n_def [symmetric] p_def [symmetric]
      by (simp add: b')
    moreover have "take n (md5_in ctx) @ 0x80 # replicate ((119 - n) mod 64) 0 @ L = b @ (replicate 56 0 @ L) @ []"
    proof -
      have len: "(119 - n) mod 64 = (63 - n) + 56" using True n64 by simp
      show ?thesis unfolding len replicate_add b(1) by simp
    qed
    moreover have "absorb MD5Transform (md5_buf ctx) (b @ (replicate 56 0 @ L) @ []) =
        (MD5Transform (MD5Transform (md5_buf ctx) b) (replicate 56 0 @ L), [])"
      using absorb_block [of "replicate 56 0 @ L" MD5Transform _ "[]"] lL by (simp add: absorb_block b(2) del: append_assoc)
    ultimately show ?thesis
      by (simp only: L_def [symmetric] n_def [symmetric] fst_conv)
  next
    case False
    define b where "b = overwrite p (n + 1) (replicate (64 - 1 - n - 8) 0)"
    have s: "56 - n = Suc (55 - n)" using False by linarith
    have b: "take 56 b = take n (md5_in ctx) @ 0x80 # replicate (55 - n) 0" "length b = 64"
      using n64 p in64 False s by (simp_all add: b_def overwrite_def)
    have b': "overwrite p (Suc n) (replicate (55 - n) 0) = b" by (simp add: b_def)
    have "fst (MD5Final ctx) = md5_digest_bytes (MD5Transform (md5_buf ctx) (take 56 b @ L))"
      using False b(2) last [of b]
      unfolding MD5Final_def Let_def block_fill_def [symmetric] n_def [symmetric] p_def [symmetric]
      by (simp add: b')
    moreover have "take n (md5_in ctx) @ 0x80 # replicate ((119 - n) mod 64) 0 @ L = (take 56 b @ L) @ []"
    proof -
      have "(119 - n) mod 64 = 55 - n" using False n64 by (simp add: le_mod_geq)
      then show ?thesis by (simp add: b(1))
    qed
    moreover have "absorb MD5Transform (md5_buf ctx) ((take 56 b @ L) @ []) = (MD5Transform (md5_buf ctx) (take 56 b @ L), [])"
      using absorb_block [of "take 56 b @ L" MD5Transform "md5_buf ctx" "[]"] b(2) lL by simp
    ultimately show ?thesis
      by (simp only: L_def [symmetric] n_def [symmetric] fst_conv)
  qed
qed

text \<open>The counter words are the length of the message in bits.\<close>

lemma md5_final_absorb:
  assumes "md5_ok ctx" "(md5_buf ctx, md5_pending ctx) = absorb MD5Transform (md5_buf MD5Init) msg"
    "md5_bitcount ctx = of_nat (8 * length msg)"
  shows "fst (MD5Final ctx) = md5 msg"
proof -
  have l: "md5_bits0 ctx = of_nat (8 * length msg)" "md5_bits1 ctx = of_nat (8 * length msg div 2 ^ 32)"
    by (rule join64_words [OF assms(3)])+
  have pl: "length (md5_pending ctx) = block_fill (md5_bits0 ctx)"
    using assms(1) block_fill_less [of "md5_bits0 ctx"] unfolding md5_ok_def by simp
  have "length (md5_pending ctx) = length msg mod 64"
    using length_snd_absorb [of MD5Transform "md5_buf MD5Init" msg] unfolding assms(2) [symmetric] snd_conv .
  then have f: "block_fill (md5_bits0 ctx) = length msg mod 64"
    unfolding pl .
  have w: "of_int (8 * int n) = (of_nat (8 * n) :: u32)" "of_int (8 * int n div 2 ^ 32) = (of_nat (8 * n div 2 ^ 32) :: u32)" for n
  proof -
    have "8 * int n = int (8 * n)" "8 * int n div 2 ^ 32 = int (8 * n div 2 ^ 32)"
      by (simp_all add: zdiv_int)
    then show "of_int (8 * int n) = (of_nat (8 * n) :: u32)"
      "of_int (8 * int n div 2 ^ 32) = (of_nat (8 * n div 2 ^ 32) :: u32)"
      by (simp_all only: of_int_of_nat_eq)
  qed
  have "md5 msg = md5_digest_bytes (fst (absorb MD5Transform (md5_buf ctx)
      (md5_pending ctx @ md5_pad (length msg))))"
    unfolding md5_def by (subst absorb_append) (simp only: assms(2) [symmetric] fst_conv snd_conv)
  then show ?thesis
    unfolding MD5Final_spec [OF assms(1)] md5_pad_def w l [symmetric] f
    by (simp only: append_assoc append_Cons)
qed

lemma md5_pieces:
  assumes "\<forall>b \<in> set bs. length b < 2 ^ 32"
  shows "fst (MD5Final (foldl MD5Update MD5Init bs)) = md5 (concat bs)"
  using md5_final_absorb [of "md5.update_all MD5Init bs" "concat bs"] md5.pieces [OF assms]
    md5.update_all_ok [OF md5.ok_init assms]
  by (simp add: md5.update_all_def)

subsection \<open>Properties\<close>

text \<open>Claim C22. Hashing a message piece by piece, however it is cut, gives the MD5 digest of RFC 1321 of
  the whole message; no piece may be longer than the 32-bit length argument can say.\<close>

theorem md5_incremental:
  assumes "\<forall>b \<in> set bs. length b < 2 ^ 32"
  shows "fst (MD5Final (foldl MD5Update MD5Init bs)) = md5 (concat bs)"
  by (rule md5_pieces [OF assms])

theorem md5_incremental_witness:
  "fst (MD5Final (foldl MD5Update MD5Init [bytes_of_string ''a'', [], bytes_of_string ''bc''])) =
    [0x90, 0x01, 0x50, 0x98, 0x3C, 0xD2, 0x4F, 0xB0, 0xD6, 0x96, 0x3F, 0x7D, 0x28, 0xE1, 0x7F, 0x72]"
proof -
  have "md5 (concat [bytes_of_string ''a'', [], bytes_of_string ''bc'']) =
    [0x90, 0x01, 0x50, 0x98, 0x3C, 0xD2, 0x4F, 0xB0, 0xD6, 0x96, 0x3F, 0x7D, 0x28, 0xE1, 0x7F, 0x72]"
    by code_simp
  then show ?thesis by (subst md5_incremental) simp_all
qed

text \<open>The round functions are those of RFC 1321.\<close>

lemma md5_round_functions:
  "F1 x y z = (x AND y) OR (NOT x AND z)" "F2 x y z = (x AND z) OR (y AND NOT z)"
  by (rule bit_word_eqI; auto simp: F1_def F2_def bit_simps)+

end
