(* ===== verification/Sasl.thy ===== *)
theory Sasl
  imports Base64 Md5 Hash_Table Jid
begin

section \<open>SASL mechanisms (sasl.c)\<close>

text \<open>
  Models the mechanisms PLAIN and DIGEST-MD5 of \<open>src/sasl.c\<close>.  A position in the decoded
  challenge is the rest of the text from there to its terminating zero.  The table of the digest fields has
  values that may be \<open>NULL\<close>, since failed duplications are stored unchecked; most other
  failed allocations of this file lead to an access through \<open>NULL\<close>.
\<close>

subsection \<open>PLAIN\<close>

definition sasl_plain :: "mem \<Rightarrow> string \<Rightarrow> string \<Rightarrow> (string option \<times> mem) option" where
  "sasl_plain m authid password =
     (case xmpp_alloc m of
        (False, m) \<Rightarrow> Some (None, m)
      | (True, m) \<Rightarrow> base64_encode m (0 # bytes_of_string authid @ 0 # bytes_of_string password))"

subsection \<open>Helpers of DIGEST-MD5\<close>

definition make_string :: "mem \<Rightarrow> string \<Rightarrow> string option \<times> mem" where
  "make_string m s = (case xmpp_alloc m of (True, m) \<Rightarrow> (Some s, m) | (False, m) \<Rightarrow> (None, m))"

definition make_quoted :: "mem \<Rightarrow> string \<Rightarrow> string option \<times> mem" where
  "make_quoted m s =
     (case xmpp_alloc m of (True, m) \<Rightarrow> (Some (CHR 0x22 # s @ [CHR 0x22]), m) | (False, m) \<Rightarrow> (None, m))"

type_synonym digest_table = "string option hash_t"

text \<open>The value at a position behind a \<open>=\<close>, quoted or up to a comma, and the position after it.\<close>

definition challenge_value :: "string \<Rightarrow> string \<times> string" where
  "challenge_value s =
     (if s \<noteq> [] \<and> (hd s = CHR 0x27 \<or> hd s = CHR 0x22) then
        (takeWhile (\<lambda>c. c \<noteq> hd s) (tl s), drop 1 (dropWhile (\<lambda>c. c \<noteq> hd s) (tl s)))
      else (takeWhile (\<lambda>c. c \<noteq> CHR '','') s, dropWhile (\<lambda>c. c \<noteq> CHR '','') s))"

lemma length_challenge_value: "length (snd (challenge_value s)) \<le> length s"
proof (cases s)
  case (Cons c s')
  have "length (dropWhile P s') \<le> Suc (length s')" for P
    using length_dropWhile_le [of P s'] by simp
  moreover have "length (drop 1 (dropWhile P s')) \<le> Suc (length s')" for P
    using length_dropWhile_le [of P s'] by simp
  ultimately show ?thesis unfolding challenge_value_def Cons by simp
qed (simp add: challenge_value_def)

function challenge_loop :: "mem \<Rightarrow> digest_table \<Rightarrow> string \<Rightarrow> (digest_table \<times> mem) option" where
  "challenge_loop m t s =
     (if s = [] then Some (t, m)
      else
        let s = dropWhile (\<lambda>c. c = CHR '','' \<or> c = CHR '' '') s;
            k = takeWhile (\<lambda>c. c \<noteq> CHR ''='') s;
            r = dropWhile (\<lambda>c. c \<noteq> CHR ''='') s
        in if r = [] then Some (t, m)
           else case make_string m k of
             (None, m) \<Rightarrow> Some (t, m)
           | (Some k, m) \<Rightarrow>
               (case make_string m (fst (challenge_value (tl r))) of
                  (None, m) \<Rightarrow> Some (t, m)
                | (Some v, m) \<Rightarrow>
                    (case hash_add m t k (Some v) of
                       None \<Rightarrow> None
                     | Some (_, t, _, m) \<Rightarrow> challenge_loop m t (snd (challenge_value (tl r))))))"
  by pat_completeness auto
termination
proof (relation "measure (\<lambda>(m, t, s). length s)", goal_cases)
  case (2 m t s s' k r)
  have "length r \<le> length s'" unfolding 2(4) by (rule length_dropWhile_le)
  moreover have "length s' \<le> length s" unfolding 2(2) by (rule length_dropWhile_le)
  moreover have "length (snd (challenge_value (tl r))) \<le> length (tl r)" by (rule length_challenge_value)
  moreover have "length (tl r) < length r" using 2(5) by (cases r) simp_all
  ultimately show ?case by simp
qed simp

declare challenge_loop.simps [simp del]

text \<open>The text ends at its first zero.\<close>

definition parse_digest_challenge :: "mem \<Rightarrow> string \<Rightarrow> (digest_table option \<times> mem) option" where
  "parse_digest_challenge m msg = do {
     (txt, m) \<leftarrow> base64_decode m msg;
     case txt of
       None \<Rightarrow> Some (None, m)
     | Some bs \<Rightarrow>
         (case hash_new m 10 True of
            (None, m) \<Rightarrow> Some (None, m)
          | (Some t, m) \<Rightarrow> do {
              (t, m) \<leftarrow> challenge_loop m t (cstring bs);
              Some (Some t, m) }) }"

definition hexdigit :: string where
  "hexdigit = ''0123456789abcdef''"

fun digest_to_hex :: "u8 list \<Rightarrow> string" where
  "digest_to_hex [] = []"
| "digest_to_hex (d # ds) =
     hexdigit ! unat (drop_bit 4 d AND 0x0F) # hexdigit ! unat (d AND 0x0F) # digest_to_hex ds"

text \<open>\<open>hash_get\<close> on the table: a missing key and a \<open>NULL\<close> value look the same.\<close>

definition digest_get :: "digest_table \<Rightarrow> string \<Rightarrow> string option option" where
  "digest_get t k = do {
     v \<leftarrow> hash_get t k;
     Some (case v of None \<Rightarrow> None | Some p \<Rightarrow> p) }"

text \<open>\<open>hash_add\<close> of a duplicated string; its result is ignored, and so is a failed duplication.\<close>

definition digest_put :: "mem \<Rightarrow> digest_table \<Rightarrow> string \<Rightarrow> string option \<Rightarrow> (digest_table \<times> mem) option" where
  "digest_put m t k v = do {
     (_, t, _, m) \<leftarrow> hash_add m t k v;
     Some (t, m) }"

definition digest_put_dup :: "mem \<Rightarrow> digest_table \<Rightarrow> string \<Rightarrow> string option \<Rightarrow> (digest_table \<times> mem) option" where
  "digest_put_dup m t k s = do {
     s \<leftarrow> s;
     (case xmpp_strdup m s of (v, m) \<Rightarrow> digest_put m t k v) }"

text \<open>\<open>_add_key\<close>: the buffer grows by a comma, the key and the value; the first buffer is written to before
  its allocation is checked, and the quoted value is not checked at all.\<close>

definition add_key ::
    "mem \<Rightarrow> digest_table \<Rightarrow> string \<Rightarrow> string option \<Rightarrow> bool \<Rightarrow> (string option \<times> mem) option" where
  "add_key m t k buf quote = do {
     (buf, m) \<leftarrow> (case buf of
        Some b \<Rightarrow> Some (b, m)
      | None \<Rightarrow> (case xmpp_alloc m of (True, m) \<Rightarrow> Some ([], m) | (False, m) \<Rightarrow> None));
     v \<leftarrow> digest_get t k;
     let v = (case v of None \<Rightarrow> [] | Some v \<Rightarrow> v);
     (q, m) \<leftarrow> (if quote then
         (case make_quoted m v of (None, m) \<Rightarrow> None | (Some q, m) \<Rightarrow> Some (q, m))
       else Some (v, m));
     (case xmpp_alloc m of
        (False, m) \<Rightarrow> Some (None, m)
      | (True, m) \<Rightarrow> Some (Some (buf @ (if buf \<noteq> [] then '','' else []) @ k @ ''='' @ q), m)) }"

subsection \<open>DIGEST-MD5\<close>

definition md5_string :: "MD5Context \<Rightarrow> string \<Rightarrow> MD5Context" where
  "md5_string ctx s = MD5Update ctx (bytes_of_string s)"

text \<open>The table with the fields of the response added.\<close>

definition digest_fields ::
    "mem \<Rightarrow> digest_table \<Rightarrow> string option \<Rightarrow> string option \<Rightarrow> (string option \<times> digest_table \<times> mem) option" where
  "digest_fields m t node domain = do {
     realm \<leftarrow> digest_get t ''realm'';
     (realm, t, m) \<leftarrow> (if realm = None \<or> realm = Some [] then do {
         (t, m) \<leftarrow> digest_put_dup m t ''realm'' domain;
         realm \<leftarrow> digest_get t ''realm'';
         Some (realm, t, m) }
       else Some (realm, t, m));
     (t, m) \<leftarrow> digest_put_dup m t ''username'' node;
     (t, m) \<leftarrow> digest_put_dup m t ''cnonce'' (Some ''00DEADBEEF00'');
     (t, m) \<leftarrow> digest_put_dup m t ''nc'' (Some ''00000001'');
     (t, m) \<leftarrow> digest_put_dup m t ''qop'' (Some ''auth'');
     domain \<leftarrow> domain;
     (case xmpp_alloc m of
        (False, m) \<Rightarrow> None
      | (True, m) \<Rightarrow> do {
          (t, m) \<leftarrow> digest_put m t ''digest-uri'' (Some (''xmpp/'' @ domain));
          Some (realm, t, m) }) }"

text \<open>The response, computed from the fields; a missing one is passed to \<open>strlen\<close>.\<close>

definition digest_response :: "digest_table \<Rightarrow> string option \<Rightarrow> string option \<Rightarrow> string \<Rightarrow> string option" where
  "digest_response t node realm password = do {
     node \<leftarrow> node;
     realm \<leftarrow> realm;
     let digest = fst (MD5Final (md5_string (md5_string (md5_string (md5_string (md5_string MD5Init
       node) '':'') realm) '':'') password));
     nonce \<leftarrow> Option.bind (digest_get t ''nonce'') id;
     cnonce \<leftarrow> Option.bind (digest_get t ''cnonce'') id;
     let HA1 = fst (MD5Final (md5_string (md5_string (md5_string (md5_string
       (MD5Update MD5Init digest) '':'') nonce) '':'') cnonce));
     uri \<leftarrow> Option.bind (digest_get t ''digest-uri'') id;
     qop \<leftarrow> Option.bind (digest_get t ''qop'') id;
     let a2 = md5_string (md5_string MD5Init ''AUTHENTICATE:'') uri;
     let a2 = (if qop \<noteq> ''auth'' then md5_string a2 '':00000000000000000000000000000000'' else a2);
     let HA2 = fst (MD5Final a2);
     nc \<leftarrow> Option.bind (digest_get t ''nc'') id;
     let kd = md5_string (md5_string MD5Init (digest_to_hex HA1)) '':'';
     let kd = md5_string (md5_string kd nonce) '':'';
     let kd = md5_string (md5_string kd nc) '':'';
     let kd = md5_string (md5_string kd cnonce) '':'';
     let kd = md5_string (md5_string kd qop) '':'';
     let kd = md5_string kd (digest_to_hex HA2);
     Some (digest_to_hex (fst (MD5Final kd))) }"

definition digest_reply :: "mem \<Rightarrow> digest_table \<Rightarrow> (string option \<times> mem) option" where
  "digest_reply m t = do {
     (b, m) \<leftarrow> add_key m t ''username'' None True;
     (b, m) \<leftarrow> add_key m t ''realm'' b True;
     (b, m) \<leftarrow> add_key m t ''nonce'' b True;
     (b, m) \<leftarrow> add_key m t ''cnonce'' b True;
     (b, m) \<leftarrow> add_key m t ''nc'' b False;
     (b, m) \<leftarrow> add_key m t ''qop'' b False;
     (b, m) \<leftarrow> add_key m t ''digest-uri'' b True;
     (b, m) \<leftarrow> add_key m t ''response'' b False;
     add_key m t ''charset'' b False }"

definition sasl_digest_md5 ::
    "mem \<Rightarrow> string \<Rightarrow> string option \<Rightarrow> string option \<Rightarrow> (string option \<times> mem) option" where
  "sasl_digest_md5 m challenge jid password = do {
     (t, m) \<leftarrow> parse_digest_challenge m challenge;
     case t of
       None \<Rightarrow> Some (None, m)
     | Some t \<Rightarrow> do {
         jid \<leftarrow> jid;
         (case xmpp_jid_node m jid of (node, m) \<Rightarrow>
          (case xmpp_jid_domain m jid of (domain, m) \<Rightarrow> do {
             (realm, t, m) \<leftarrow> digest_fields m t node domain;
             password \<leftarrow> password;
             response \<leftarrow> digest_response t node realm password;
             (case xmpp_alloc m of
                (False, m) \<Rightarrow> None
              | (True, m) \<Rightarrow> do {
                  (t, m) \<leftarrow> digest_put m t ''response'' (Some response);
                  (r, m) \<leftarrow> digest_reply m t;
                  r \<leftarrow> r;
                  base64_encode m (bytes_of_string r) }) })) } }"

subsection \<open>The response of RFC 2831\<close>

definition hex_md5 :: "string \<Rightarrow> string" where
  "hex_md5 s = digest_to_hex (md5 (bytes_of_string s))"

definition rfc2831_response ::
    "string \<Rightarrow> string \<Rightarrow> string \<Rightarrow> string \<Rightarrow> string \<Rightarrow> string \<Rightarrow> string \<Rightarrow> string \<Rightarrow> string" where
  "rfc2831_response user realm password nonce cnonce nc qop uri =
     (let a1 = string_of_bytes (md5 (bytes_of_string (user @ '':'' @ realm @ '':'' @ password))) @
            '':'' @ nonce @ '':'' @ cnonce;
          a2 = ''AUTHENTICATE:'' @ uri
      in hex_md5 (hex_md5 a1 @ '':'' @ nonce @ '':'' @ nc @ '':'' @ cnonce @ '':'' @ qop @ '':'' @ hex_md5 a2))"

definition quoted :: "string \<Rightarrow> string" where
  "quoted s = CHR 0x22 # s @ [CHR 0x22]"

definition rfc2831_reply :: "string \<Rightarrow> string \<Rightarrow> string \<Rightarrow> string \<Rightarrow> string \<Rightarrow> string \<Rightarrow> string" where
  "rfc2831_reply user realm nonce uri response charset =
     ''username='' @ quoted user @ '',realm='' @ quoted realm @ '',nonce='' @ quoted nonce @
     '',cnonce='' @ quoted ''00DEADBEEF00'' @ '',nc=00000001'' @ '',qop=auth'' @
     '',digest-uri='' @ quoted uri @ '',response='' @ response @ '',charset='' @ charset"

lemma bytes_of_string_append [simp]: "bytes_of_string (a @ b) = bytes_of_string a @ bytes_of_string b"
  by (simp add: bytes_of_string_def)

lemma bytes_of_string_Nil [simp]: "bytes_of_string [] = []"
  by (simp add: bytes_of_string_def)

lemma bytes_of_string_Cons: "bytes_of_string (c # s) = byte_of_char c # bytes_of_string s"
  by (simp add: bytes_of_string_def)

lemma length_md5: "length (md5 bs) = 16"
  by (simp add: md5_def md5_digest_bytes_def split: prod.splits)

lemma length_digest_to_hex: "length (digest_to_hex ds) = 2 * length ds"
  by (induction ds) simp_all

lemma length_hex_md5 [simp]: "length (hex_md5 s) = 32"
  by (simp add: hex_md5_def length_digest_to_hex length_md5)

definition short :: "string \<Rightarrow> bool" where
  "short s \<longleftrightarrow> length s < 2 ^ 31"

lemma digest_response_rfc:
  assumes "digest_get t ''nonce'' = Some (Some nonce)" "digest_get t ''cnonce'' = Some (Some cnonce)"
    "digest_get t ''digest-uri'' = Some (Some uri)" "digest_get t ''qop'' = Some (Some ''auth'')"
    "digest_get t ''nc'' = Some (Some nc)"
    and short: "short user" "short realm" "short password" "short nonce" "short cnonce" "short uri" "short nc"
  shows "digest_response t (Some user) (Some realm) password =
    Some (rfc2831_response user realm password nonce cnonce nc ''auth'' uri)"
proof -
  have s: "length user < 2 ^ 32" "length realm < 2 ^ 32" "length password < 2 ^ 32" "length nonce < 2 ^ 32"
    "length cnonce < 2 ^ 32" "length uri < 2 ^ 32" "length nc < 2 ^ 32"
    using short by (simp_all add: short_def)
  let ?b = bytes_of_string
  define d where "d = md5 (?b (user @ '':'' @ realm @ '':'' @ password))"
  have d: "fst (MD5Final (md5_string (md5_string (md5_string (md5_string (md5_string MD5Init
       user) '':'') realm) '':'') password)) = d"
    using md5_pieces [of "[?b user, ?b '':'', ?b realm, ?b '':'', ?b password]"] s
    by (simp add: md5_string_def d_def bytes_of_string_Cons)
  define a1 where "a1 = string_of_bytes d @ '':'' @ nonce @ '':'' @ cnonce"
  have ld: "length d = 16" by (simp add: d_def length_md5)
  have a1: "fst (MD5Final (md5_string (md5_string (md5_string (md5_string
       (MD5Update MD5Init d) '':'') nonce) '':'') cnonce)) = md5 (?b a1)"
    using md5_pieces [of "[d, ?b '':'', ?b nonce, ?b '':'', ?b cnonce]"] s ld
    by (simp add: md5_string_def a1_def bytes_of_string_Cons)
  have a2: "fst (MD5Final (md5_string (md5_string MD5Init ''AUTHENTICATE:'') uri)) = md5 (?b (''AUTHENTICATE:'' @ uri))"
    using md5_pieces [of "[?b ''AUTHENTICATE:'', ?b uri]"] s by (simp add: md5_string_def bytes_of_string_Cons)
  define h1 where "h1 = digest_to_hex (md5 (?b a1))"
  define h2 where "h2 = digest_to_hex (md5 (?b (''AUTHENTICATE:'' @ uri)))"
  have lh: "length h1 = 32" "length h2 = 32"
    by (simp_all add: h1_def h2_def length_digest_to_hex length_md5)
  have kd: "fst (MD5Final (md5_string (md5_string (md5_string (md5_string (md5_string (md5_string (md5_string
      (md5_string (md5_string (md5_string (md5_string MD5Init h1) '':'') nonce) '':'') nc) '':'') cnonce) '':'') ''auth'') '':'') h2)) =
    md5 (?b (h1 @ '':'' @ nonce @ '':'' @ nc @ '':'' @ cnonce @ '':'' @ ''auth'' @ '':'' @ h2))"
    using md5_pieces [of "[?b h1, ?b '':'', ?b nonce, ?b '':'', ?b nc, ?b '':'', ?b cnonce, ?b '':'', ?b ''auth'', ?b '':'', ?b h2]"] s lh
    by (simp add: md5_string_def bytes_of_string_Cons)
  have "digest_response t (Some user) (Some realm) password =
      Some (digest_to_hex (md5 (?b (h1 @ '':'' @ nonce @ '':'' @ nc @ '':'' @ cnonce @ '':'' @ ''auth'' @ '':'' @ h2))))"
    unfolding digest_response_def assms(1-5) Option.bind.bind_lunit id_apply Let_def d a1 a2
      h1_def [symmetric] h2_def [symmetric]
    by (simp only: simp_thms if_False a2 h2_def [symmetric] kd)
  then show ?thesis
    by (simp only: rfc2831_response_def hex_md5_def Let_def h1_def h2_def a1_def d_def)
qed

subsection \<open>The table of fields\<close>

definition field :: "digest_table \<Rightarrow> string \<Rightarrow> string option" where
  "field t k = Option.bind (hash_map t k) id"

lemma digest_get_field: "hash_ok t \<Longrightarrow> ascii k \<Longrightarrow> digest_get t k = Some (field t k)"
  by (auto simp: digest_get_def field_def hash_get_map hash_key_ascii split: option.splits)

lemma digest_put_field:
  assumes "hash_ok t" "ascii k"
  obtains t' where "digest_put [] t k v = Some (t', [])" "hash_ok t'" "field t' = (field t)(k := v)"
proof -
  obtain r t' freed where "hash_add [] t k v = Some (r, t', freed, [])" "hash_ok t'" "hash_map t' = (hash_map t)(k \<mapsto> v)"
    using hash_add_spec [OF assms(1) hash_key_ascii [OF assms], of "[]" v] by auto
  then show thesis
    by (intro that [of t']) (auto simp: digest_put_def field_def fun_eq_iff)
qed

lemma digest_put_dup_field:
  assumes "hash_ok t" "ascii k"
  obtains t' where "digest_put_dup [] t k (Some s) = Some (t', [])" "hash_ok t'" "field t' = (field t)(k := Some s)"
  using digest_put_field [OF assms, of "Some s"] by (auto simp: digest_put_dup_def)

definition realm_of :: "digest_table \<Rightarrow> string \<Rightarrow> string" where
  "realm_of t domain = (case field t ''realm'' of None \<Rightarrow> domain | Some r \<Rightarrow> if r = [] then domain else r)"

lemma digest_fields_ok:
  assumes t: "hash_ok t"
  obtains t' where "digest_fields [] t (Some user) (Some domain) = Some (Some (realm_of t domain), t', [])" "hash_ok t'"
    "field t' = (field t)(''realm'' := Some (realm_of t domain), ''username'' := Some user,
       ''cnonce'' := Some ''00DEADBEEF00'', ''nc'' := Some ''00000001'', ''qop'' := Some ''auth'',
       ''digest-uri'' := Some (''xmpp/'' @ domain))"
proof -
  have a: "ascii ''realm''" "ascii ''username''" "ascii ''cnonce''" "ascii ''nc''" "ascii ''qop''" "ascii ''digest-uri''"
    by simp_all
  obtain t1 where t1: "(if digest_get t ''realm'' = Some None \<or> digest_get t ''realm'' = Some (Some []) then do {
         (t, m) \<leftarrow> digest_put_dup [] t ''realm'' (Some domain);
         realm \<leftarrow> digest_get t ''realm'';
         Some (realm, t, m) }
       else Some (field t ''realm'', t, [])) = Some (Some (realm_of t domain), t1, [])" "hash_ok t1"
    "field t1 = (field t)(''realm'' := Some (realm_of t domain))"
  proof (cases "field t ''realm'' = None \<or> field t ''realm'' = Some []")
    case True
    obtain t' where t': "digest_put_dup [] t ''realm'' (Some domain) = Some (t', [])" "hash_ok t'"
      "field t' = (field t)(''realm'' := Some domain)"
      by (rule digest_put_dup_field [OF t a(1)])
    show ?thesis
      by (rule that [of t'])
        (use True t' digest_get_field [OF t a(1)] digest_get_field [OF t'(2) a(1)] in \<open>auto simp: realm_of_def\<close>)
  next
    case False
    show ?thesis
      by (rule that [of t]) (use False t digest_get_field [OF t a(1)] in \<open>auto simp: realm_of_def\<close>)
  qed
  obtain t2 where t2: "digest_put_dup [] t1 ''username'' (Some user) = Some (t2, [])" "hash_ok t2"
    "field t2 = (field t1)(''username'' := Some user)" by (rule digest_put_dup_field [OF t1(2) a(2)])
  obtain t3 where t3: "digest_put_dup [] t2 ''cnonce'' (Some ''00DEADBEEF00'') = Some (t3, [])" "hash_ok t3"
    "field t3 = (field t2)(''cnonce'' := Some ''00DEADBEEF00'')" by (rule digest_put_dup_field [OF t2(2) a(3)])
  obtain t4 where t4: "digest_put_dup [] t3 ''nc'' (Some ''00000001'') = Some (t4, [])" "hash_ok t4"
    "field t4 = (field t3)(''nc'' := Some ''00000001'')" by (rule digest_put_dup_field [OF t3(2) a(4)])
  obtain t5 where t5: "digest_put_dup [] t4 ''qop'' (Some ''auth'') = Some (t5, [])" "hash_ok t5"
    "field t5 = (field t4)(''qop'' := Some ''auth'')" by (rule digest_put_dup_field [OF t4(2) a(5)])
  obtain t6 where t6: "digest_put [] t5 ''digest-uri'' (Some (''xmpp/'' @ domain)) = Some (t6, [])" "hash_ok t6"
    "field t6 = (field t5)(''digest-uri'' := Some (''xmpp/'' @ domain))" by (rule digest_put_field [OF t5(2) a(6)])
  have "digest_fields [] t (Some user) (Some domain) = Some (Some (realm_of t domain), t6, [])"
    using t1(1) unfolding digest_fields_def digest_get_field [OF t a(1)] Option.bind.bind_lunit option.inject
    by (simp only: Option.bind.bind_lunit prod.case t2(1) t3(1) t4(1) t5(1) t6(1) xmpp_alloc.simps bool.case)
  then show thesis
    by (rule that) (simp_all only: t6 t5 t4 t3 t2 t1)
qed

lemma add_key_ok:
  assumes "hash_ok t" "ascii k"
  shows "add_key [] t k buf q = (let b = (case buf of None \<Rightarrow> [] | Some b \<Rightarrow> b); v = (case field t k of None \<Rightarrow> [] | Some v \<Rightarrow> v)
    in Some (Some (b @ (if b \<noteq> [] then '','' else []) @ k @ ''='' @ (if q then quoted v else v)), []))"
  by (simp add: add_key_def digest_get_field [OF assms] make_quoted_def quoted_def Let_def split: option.splits)

lemma digest_reply_ok:
  assumes "hash_ok t" "field t ''username'' = Some user" "field t ''realm'' = Some realm" "field t ''nonce'' = Some nonce"
    "field t ''cnonce'' = Some ''00DEADBEEF00''" "field t ''nc'' = Some ''00000001''" "field t ''qop'' = Some ''auth''"
    "field t ''digest-uri'' = Some uri" "field t ''response'' = Some response"
  shows "digest_reply [] t = Some (Some (rfc2831_reply user realm nonce uri response
    (case field t ''charset'' of None \<Rightarrow> [] | Some v \<Rightarrow> v)), [])"
proof -
  have a: "ascii ''realm''" "ascii ''username''" "ascii ''nonce''" "ascii ''cnonce''" "ascii ''nc''" "ascii ''qop''"
    "ascii ''digest-uri''" "ascii ''response''" "ascii ''charset''"
    by simp_all
  show ?thesis
    unfolding digest_reply_def add_key_ok [OF assms(1) a(1)] add_key_ok [OF assms(1) a(2)] add_key_ok [OF assms(1) a(3)]
      add_key_ok [OF assms(1) a(4)] add_key_ok [OF assms(1) a(5)] add_key_ok [OF assms(1) a(6)] add_key_ok [OF assms(1) a(7)]
      add_key_ok [OF assms(1) a(8)] add_key_ok [OF assms(1) a(9)] Let_def Option.bind.bind_lunit prod.case option.case assms(2-9)
    by (simp add: rfc2831_reply_def quoted_def)
qed

subsection \<open>The challenge\<close>

lemma hash_add_key_ok: "hash_add m t k v = Some r \<Longrightarrow> key_ok t k"
  by (auto simp: hash_add_def key_ok_def Option.bind_eq_Some_conv)

lemma challenge_rest_shorter:
  assumes "dropWhile P (dropWhile Q s) \<noteq> []"
  shows "length (snd (challenge_value (tl (dropWhile P (dropWhile Q s))))) < length s"
proof -
  let ?r = "dropWhile P (dropWhile Q s)"
  have "length ?r \<le> length s" by (rule order_trans [OF length_dropWhile_le length_dropWhile_le])
  moreover have "length (snd (challenge_value (tl ?r))) \<le> length (tl ?r)" by (rule length_challenge_value)
  moreover have "length (tl ?r) < length ?r" using assms by (cases ?r) simp_all
  ultimately show ?thesis by simp
qed

lemma challenge_loop_step:
  assumes "challenge_loop m t s = Some (t', m')"
  shows "t' = t \<or> (\<exists>m2 k v rc t1 fr m3 s1. hash_add m2 t k v = Some (rc, t1, fr, m3) \<and>
    challenge_loop m3 t1 s1 = Some (t', m') \<and> length s1 < length s)"
proof -
  define s2 where "s2 = dropWhile (\<lambda>c. c = CHR '','' \<or> c = CHR '' '') s"
  define r where "r = dropWhile (\<lambda>c. c \<noteq> CHR ''='') s2"
  have l: "r \<noteq> [] \<Longrightarrow> length (snd (challenge_value (tl r))) < length s"
    unfolding r_def s2_def by (rule challenge_rest_shorter)
  show ?thesis
    using assms l
    unfolding challenge_loop.simps [of m t s] Let_def s2_def [symmetric] r_def [symmetric]
    by (fastforce split: if_splits option.splits prod.splits)
qed

lemma challenge_loop_ok: "challenge_loop m t s = Some (t', m') \<Longrightarrow> hash_ok t \<Longrightarrow> hash_ok t'"
proof (induction s arbitrary: m t rule: length_induct)
  case (1 s)
  from challenge_loop_step [OF 1(2)] show ?case
  proof (elim disjE exE conjE)
    fix m2 k v rc t1 fr m3 s1
    assume a: "hash_add m2 t k v = Some (rc, t1, fr, m3)" and r: "challenge_loop m3 t1 s1 = Some (t', m')"
      and l: "length s1 < length s"
    have "hash_ok t1" using hash_add_spec [OF 1(3) hash_add_key_ok [OF a], of m2 v] a by auto
    then show "hash_ok t'" using 1(1) l r by blast
  qed (use 1(3) in simp)
qed

lemma parse_digest_challenge_ok:
  assumes "parse_digest_challenge m s = Some (Some t, m')"
  shows "hash_ok t"
proof -
  obtain bs m1 m2 and t0 :: digest_table where "hash_new m1 10 True = (Some t0, m2)" "challenge_loop m2 t0 (cstring bs) = Some (t, m')"
  proof -
    obtain tx m1 where b: "base64_decode m s = Some (tx, m1)"
      using assms by (auto simp: parse_digest_challenge_def c_simps)
    then obtain bs where bs: "tx = Some bs"
      using assms by (cases tx) (simp_all add: parse_digest_challenge_def)
    obtain t0 :: "digest_table option" and m2 where h: "hash_new m1 10 True = (t0, m2)" by (rule prod.exhaust)
    then obtain t1 where "t0 = Some t1"
      using assms b bs by (cases t0) (simp_all add: parse_digest_challenge_def)
    then show thesis
      using that [of m1 t1 m2 bs] assms b bs h by (auto simp: parse_digest_challenge_def c_simps)
  qed
  then show ?thesis using challenge_loop_ok hash_new_ok [of m1 10 True t0 m2] by simp
qed

text \<open>Printing fields the way servers do, and reading them back.\<close>

definition print_field :: "string \<times> string \<Rightarrow> string" where
  "print_field kv = fst kv @ ''='' @ quoted (snd kv)"

fun print_fields :: "(string \<times> string) list \<Rightarrow> string" where
  "print_fields [] = []"
| "print_fields (kv # kvs) = print_field kv @ (if kvs = [] then [] else '','' @ print_fields kvs)"

definition field_ok :: "string \<times> string \<Rightarrow> bool" where
  "field_ok kv \<longleftrightarrow> ascii (fst kv) \<and> CHR ''='' \<notin> set (fst kv) \<and> fst kv \<noteq> [] \<and>
     hd (fst kv) \<noteq> CHR '','' \<and> hd (fst kv) \<noteq> CHR '' '' \<and> CHR 0x22 \<notin> set (snd kv)"

lemma challenge_value_quoted:
  "CHR 0x22 \<notin> set v \<Longrightarrow> challenge_value (quoted v @ r) = (v, r)"
  by (simp add: challenge_value_def quoted_def)

lemma challenge_loop_field:
  assumes "hash_ok t" "field_ok (k, v)" "p \<in> {[], '',''}"
  obtains t1 where "challenge_loop [] t (p @ print_field (k, v) @ r) = challenge_loop [] t1 r" "hash_ok t1"
    "field t1 = (field t)(k := Some v)"
proof -
  have k: "ascii k" "CHR ''='' \<notin> set k" "k \<noteq> []" "hd k \<noteq> CHR '',''" "hd k \<noteq> CHR '' ''" "CHR 0x22 \<notin> set v"
    using assms(2) by (simp_all add: field_ok_def)
  obtain c k' where ck: "k = c # k'" using k(3) by (cases k) auto
  let ?s = "print_field (k, v) @ r"
  have d: "dropWhile (\<lambda>c. c = CHR '','' \<or> c = CHR '' '') (p @ ?s) = ?s"
    using assms(3) k(4,5) ck by (auto simp: print_field_def)
  have t: "takeWhile (\<lambda>c. c \<noteq> CHR ''='') ?s = k" "dropWhile (\<lambda>c. c \<noteq> CHR ''='') ?s = CHR ''='' # quoted v @ r"
    using k(2) by (simp_all add: print_field_def)
  obtain t1 where t1: "digest_put [] t k (Some v) = Some (t1, [])" "hash_ok t1" "field t1 = (field t)(k := Some v)"
    by (rule digest_put_field [OF assms(1) k(1)])
  then obtain rc fr where a: "hash_add [] t k (Some v) = Some (rc, t1, fr, [])"
    by (auto simp: digest_put_def c_simps)
  have "p @ ?s \<noteq> []" using ck by (simp add: print_field_def)
  then have "challenge_loop [] t (p @ ?s) = challenge_loop [] t1 r"
    by (subst challenge_loop.simps)
      (simp only: d t Let_def if_False list.sel list.distinct make_string_def xmpp_alloc.simps prod.case bool.case
        option.case challenge_value_quoted [OF k(6)] fst_conv snd_conv a)
  then show thesis using t1 by (intro that)
qed

lemma challenge_loop_fields:
  assumes "hash_ok t" "\<forall>kv \<in> set kvs. field_ok kv"
  shows "\<exists>t'. challenge_loop [] t (print_fields kvs) = Some (t', []) \<and> hash_ok t' \<and>
    field t' = field t ++ map_of (rev kvs)"
proof -
  have gen: "\<exists>t'. challenge_loop [] t (if kvs = [] then [] else p @ print_fields kvs) = Some (t', []) \<and> hash_ok t' \<and>
      field t' = field t ++ map_of (rev kvs)" if "p \<in> {[], '',''}" for p
    using assms that
  proof (induction kvs arbitrary: t p)
    case Nil
    then show ?case by (subst challenge_loop.simps) simp
  next
    case (Cons kv kvs)
    obtain k v where kv: "kv = (k, v)" by (rule prod.exhaust)
    let ?r = "if kvs = [] then [] else '','' @ print_fields kvs"
    obtain t1 where t1: "challenge_loop [] t (p @ print_field (k, v) @ ?r) = challenge_loop [] t1 ?r" "hash_ok t1"
      "field t1 = (field t)(k := Some v)"
      by (rule challenge_loop_field [of t k v p ?r]) (use Cons(2-4) kv in auto)
    obtain t' where "challenge_loop [] t1 ?r = Some (t', [])" "hash_ok t'" "field t' = field t1 ++ map_of (rev kvs)"
      using Cons(1) [OF t1(2), of "'',''"] Cons(3) by auto
    then show ?case using t1(1,3) kv by (intro exI [of _ t']) simp
  qed
  show ?thesis using gen [of "[]"] by (cases kvs) simp_all
qed

lemma cstring_bytes: "CHR 0x00 \<notin> set s \<Longrightarrow> cstring (bytes_of_string s) = s"
proof -
  assume s: "CHR 0x00 \<notin> set s"
  have "byte_of_char c \<noteq> 0" if "c \<in> set s" for c
  proof
    assume z: "byte_of_char c = 0"
    have "c = char_of_byte (byte_of_char c)" by (rule char_of_byte_of_char [symmetric])
    also have "\<dots> = CHR 0x00" unfolding z by code_simp
    finally have "c = CHR 0x00" .
    then show False using that s by simp
  qed
  then have tw: "takeWhile (\<lambda>b. b \<noteq> 0) (bytes_of_string s) = bytes_of_string s"
    by (simp add: bytes_of_string_def)
  show ?thesis by (simp only: cstring_def tw string_of_bytes_of_string)
qed

subsection \<open>Properties\<close>

text \<open>The message of PLAIN is the Base64 encoding of a zero, the user, a zero and the password, and
  decoding it gives these bytes back.\<close>

theorem sasl_plain_correct:
  assumes "length authid + length password < 2 ^ 29"
  shows "\<exists>s. sasl_plain [] authid password = Some (Some s, []) \<and>
    base64_decode [] s = Some (Some (0 # bytes_of_string authid @ 0 # bytes_of_string password), [])"
proof -
  let ?b = "0 # bytes_of_string authid @ 0 # bytes_of_string password"
  have "2 \<le> length ?b" "length ?b < 2 ^ 30" "?b \<noteq> []" "length ?b < 2 ^ 31" using assms by simp_all
  then have "base64_encode [] ?b = Some (Some (enc_list ?b), [])" "base64_decode [] (enc_list ?b) = Some (Some ?b, [])"
    using base64_encode_ok [of ?b "[]"] base64_decode_enc_list [of ?b "[]" "[]"] by simp_all
  then show ?thesis by (simp add: sasl_plain_def)
qed

theorem sasl_plain_correct_witness:
  "\<exists>s. sasl_plain [] ''tim'' ''tanstaaf'' = Some (Some s, []) \<and>
    base64_decode [] s = Some (Some (0 # bytes_of_string ''tim'' @ 0 # bytes_of_string ''tanstaaf''), [])"
  by (rule sasl_plain_correct) simp

text \<open>Claim C27. A challenge made of quoted fields, encoded as Base64, is parsed into a table that holds, for
  every name, the last value given for it.\<close>

theorem digest_challenge_parsed:
  assumes "kvs \<noteq> []" "\<forall>kv \<in> set kvs. field_ok kv" "CHR 0x00 \<notin> set (print_fields kvs)"
    "length (print_fields kvs) < 2 ^ 30" "ascii k"
  shows "\<exists>t. parse_digest_challenge [] (enc_list (bytes_of_string (print_fields kvs))) = Some (Some t, []) \<and>
    digest_get t k = Some (map_of (rev kvs) k)"
proof -
  let ?b = "bytes_of_string (print_fields kvs)"
  have "print_fields kvs \<noteq> []" using assms(1) by (cases kvs) (simp_all add: print_field_def)
  then have "?b \<noteq> []" by (simp add: bytes_of_string_def)
  then have d: "base64_decode [] (enc_list ?b) = Some (Some ?b, [])"
    using base64_decode_enc_list [of ?b "[]" "[]"] assms(4) by simp
  obtain t0 :: digest_table where t0: "hash_new [] 10 True = (Some t0, [])" by (simp add: hash_new_def)
  then have ok: "hash_ok t0" "field t0 = Map.empty" using hash_new_ok [OF t0] by (simp_all add: field_def fun_eq_iff)
  obtain t where t: "challenge_loop [] t0 (print_fields kvs) = Some (t, [])" "hash_ok t" "field t = map_of (rev kvs)"
    using challenge_loop_fields [OF ok(1) assms(2)] ok(2) by auto
  have "parse_digest_challenge [] (enc_list ?b) = Some (Some t, [])"
    using d t0 t(1) by (simp add: parse_digest_challenge_def cstring_bytes [OF assms(3)])
  moreover have "digest_get t k = Some (map_of (rev kvs) k)"
    using digest_get_field [OF t(2) assms(5)] t(3) by simp
  ultimately show ?thesis by blast
qed

theorem digest_challenge_parsed_witness:
  "\<exists>t. parse_digest_challenge [] ''cmVhbG09InIiLG5vbmNlPSJ4Ig=='' = Some (Some t, []) \<and>
    digest_get t ''nonce'' = Some (Some ''x'')"
proof -
  have "enc_list (bytes_of_string (print_fields [(''realm'', ''r''), (''nonce'', ''x'')])) = ''cmVhbG09InIiLG5vbmNlPSJ4Ig==''"
    by code_simp
  then show ?thesis
    using digest_challenge_parsed [of "[(''realm'', ''r''), (''nonce'', ''x'')]" "''nonce''"]
    by (simp add: field_ok_def print_field_def quoted_def)
qed



end
