(* ===== verification/Stanza_Copy.thy ===== *)
theory Stanza_Copy
  imports Stanza
begin

section \<open>Copying a stanza (stanza.c)\<close>

text \<open>
  Models \<open>xmpp_stanza_copy\<close> on trees.  The attributes are copied into a new table through the
  iterator, so those that the iterator does not deliver are missing in the copy.
\<close>

fun copy_attrs :: "string hash_t \<Rightarrow> string list \<Rightarrow> string hash_t \<Rightarrow> mem \<Rightarrow> (string hash_t option \<times> mem) option" where
  "copy_attrs h [] t m = Some (Some t, m)"
| "copy_attrs h (key # keys) t m = do {
     v \<leftarrow> hash_get h key;
     v \<leftarrow> v;
     (case xmpp_strdup m v of
        (None, m) \<Rightarrow> Some (None, m)
      | (Some v, m) \<Rightarrow> do {
          (rc, t, _, m) \<leftarrow> hash_add m t key v;
          if rc \<noteq> 0 then Some (None, m) else copy_attrs h keys t m }) }"

text \<open>The attributes of the copy, which may be none; the outer \<open>None\<close> of the result is the error.\<close>

definition copy_attributes :: "string hash_t option \<Rightarrow> mem \<Rightarrow> (string hash_t option option \<times> mem) option" where
  "copy_attributes attrs m =
     (case attrs of
        None \<Rightarrow> Some (Some None, m)
      | Some h \<Rightarrow>
          (case hash_new m 8 True of
             (None, m) \<Rightarrow> Some (None, m)
           | (Some t, m) \<Rightarrow>
               (case hash_iter_new m h of
                  (None, _, m) \<Rightarrow> Some (None, m)
                | (Some it, h, m) \<Rightarrow> do {
                    (t, m) \<leftarrow> copy_attrs h (hash_iter_keys h it) t m;
                    Some (map_option Some t, m) })))"

fun xmpp_stanza_copy :: "mem \<Rightarrow> stanza \<Rightarrow> (stanza option \<times> mem) option"
  and copy_kids :: "mem \<Rightarrow> stanza list \<Rightarrow> (stanza list option \<times> mem) option" where
  "xmpp_stanza_copy m (Stanza n kids) =
     (case xmpp_alloc m of
        (False, m) \<Rightarrow> Some (None, m)
      | (True, m) \<Rightarrow>
          (case (case s_data n of None \<Rightarrow> (True, m) | Some _ \<Rightarrow> xmpp_alloc m) of
             (False, m) \<Rightarrow> Some (None, m)
           | (True, m) \<Rightarrow> do {
               (attrs, m) \<leftarrow> copy_attributes (s_attributes n) m;
               (case attrs of
                  None \<Rightarrow> Some (None, m)
                | Some attrs \<Rightarrow> do {
                    (ks, m) \<leftarrow> copy_kids m kids;
                    Some (map_option (Stanza \<lparr> s_type = s_type n, s_data = s_data n, s_attributes = attrs \<rparr>) ks, m) }) }))"
| "copy_kids m [] = Some (Some [], m)"
| "copy_kids m (k # ks) = do {
     (k, m) \<leftarrow> xmpp_stanza_copy m k;
     (case k of
        None \<Rightarrow> Some (None, m)
      | Some k \<Rightarrow> do {
          (ks, m) \<leftarrow> copy_kids m ks;
          Some (map_option (Cons k) ks, m) }) }"

subsection \<open>What is copied\<close>

definition iterated :: "stanza_node \<Rightarrow> string set" where
  "iterated n = (case s_attributes n of None \<Rightarrow> {} | Some h \<Rightarrow> set (hash_keys h))"

definition node_ok :: "stanza_node \<Rightarrow> bool" where
  "node_ok n \<longleftrightarrow> (case s_attributes n of None \<Rightarrow> True
     | Some h \<Rightarrow> hash_ok h \<and> (\<forall>k \<in> dom (hash_map h). ascii k))"

fun stanza_ok :: "stanza \<Rightarrow> bool" where
  "stanza_ok (Stanza n kids) \<longleftrightarrow> node_ok n \<and> (\<forall>k \<in> set kids. stanza_ok k)"

text \<open>The second stanza is the first with the attributes that the iterator delivers.\<close>

fun copied :: "stanza \<Rightarrow> stanza \<Rightarrow> bool" where
  "copied (Stanza n kids) (Stanza n' kids') \<longleftrightarrow>
     s_type n' = s_type n \<and> s_data n' = s_data n \<and> node_ok n' \<and> attr_map n' = attr_map n |` iterated n \<and>
     list_all2 copied kids kids'"

lemma copy_attrs_ok:
  assumes "hash_ok h" "set keys \<subseteq> dom (hash_map h)" "\<forall>k \<in> set keys. ascii k" "hash_ok t"
  shows "\<exists>t'. copy_attrs h keys t [] = Some (Some t', []) \<and> hash_ok t' \<and>
    hash_map t' = hash_map t ++ (hash_map h |` set keys)"
  using assms
proof (induction keys arbitrary: t)
  case (Cons k keys)
  obtain v where v: "hash_map h k = Some v" using Cons(3) by auto
  have k: "ascii k" using Cons(4) by simp
  have g: "hash_get h k = Some (Some v)" using hash_get_map [OF hash_key_ascii [OF Cons(2) k]] v by simp
  obtain rc t1 fr where a: "hash_add [] t k v = Some (rc, t1, fr, [])" "hash_ok t1" "rc = 0"
    "hash_map t1 = (hash_map t)(k \<mapsto> v)"
    using hash_add_spec [OF Cons(5) hash_key_ascii [OF Cons(5) k], of "[]" v] by auto
  obtain t' where t': "copy_attrs h keys t1 [] = Some (Some t', [])" "hash_ok t'"
    "hash_map t' = hash_map t1 ++ (hash_map h |` set keys)"
    using Cons(1) [OF Cons(2) _ _ a(2)] Cons(3,4) by auto
  have "hash_map t ++ (hash_map h |` set (k # keys)) = hash_map t1 ++ (hash_map h |` set keys)"
    using v by (auto simp: a(4) fun_eq_iff map_add_def restrict_map_def split: option.splits)
  then show ?case using g a t' by (intro exI [of _ t']) simp
qed simp

lemma copy_attributes_ok:
  assumes "node_ok n"
  shows "\<exists>as. copy_attributes (s_attributes n) [] = Some (Some as, []) \<and>
    (\<forall>n'. s_attributes n' = as \<longrightarrow> node_ok n' \<and> attr_map n' = attr_map n |` iterated n)"
proof (cases "s_attributes n")
  case None
  then show ?thesis by (auto simp: copy_attributes_def node_ok_def attr_map_def iterated_def)
next
  case (Some h)
  have h: "hash_ok h" "\<forall>k \<in> dom (hash_map h). ascii k" using assms Some by (simp_all add: node_ok_def)
  let ?it = "\<lparr>it_ref = 1, it_entry = [], it_index = - 1\<rparr>"
  have ks: "hash_iter_keys (hash_clone h) ?it = hash_keys h"
    using hash_keys_eq [of h] hash_keys_eq [of "hash_clone h"] h(1) by (simp add: hash_keys_def hash_ok_def)
  have it: "hash_iter_new [] h = (Some ?it, hash_clone h, [])" by (simp add: hash_iter_new_def)
  obtain t :: "string hash_t" where t: "hash_new [] 8 True = (Some t, [])" by (simp add: hash_new_def)
  have tok: "hash_ok t" "hash_map t = Map.empty" using hash_new_ok [OF t] by simp_all
  obtain t' where t': "copy_attrs (hash_clone h) (hash_keys h) t [] = Some (Some t', [])" "hash_ok t'"
    "hash_map t' = hash_map t ++ (hash_map (hash_clone h) |` set (hash_keys h))"
    using copy_attrs_ok [of "hash_clone h" "hash_keys h" t] h hash_keys_dom [OF h(1)] tok(1)
    by (metis hash_clone_simps(1,2) subsetD)
  have "copy_attributes (s_attributes n) [] = Some (Some (Some t'), [])"
    using Some t it ks t'(1) by (simp add: copy_attributes_def)
  moreover have "node_ok n' \<and> attr_map n' = attr_map n |` iterated n" if "s_attributes n' = Some t'" for n'
    using that t'(2,3) tok(2) h(2) Some by (auto simp: node_ok_def attr_map_def iterated_def restrict_map_def split: if_splits)
  ultimately show ?thesis by blast
qed

lemma stanza_copy_copied: "stanza_ok s \<Longrightarrow> \<exists>s'. xmpp_stanza_copy [] s = Some (Some s', []) \<and> copied s s'"
proof (induction s)
  case (Stanza n kids)
  have "\<exists>ks'. copy_kids [] ks = Some (Some ks', []) \<and> list_all2 copied ks ks'" if "set ks \<subseteq> set kids" for ks
    using that
  proof (induction ks)
    case (Cons k ks)
    obtain k' where "xmpp_stanza_copy [] k = Some (Some k', [])" "copied k k'"
      using Stanza Cons(2) by fastforce
    moreover obtain ks' where "copy_kids [] ks = Some (Some ks', [])" "list_all2 copied ks ks'"
      using Cons by auto
    ultimately show ?case by simp
  qed simp
  then obtain ks' where ks': "copy_kids [] kids = Some (Some ks', [])" "list_all2 copied kids ks'" by blast
  obtain attrs where as: "copy_attributes (s_attributes n) [] = Some (Some attrs, [])"
    "\<And>n'. s_attributes n' = attrs \<Longrightarrow> node_ok n' \<and> attr_map n' = attr_map n |` iterated n"
    using copy_attributes_ok [of n] Stanza(2) by auto
  let ?n = "\<lparr> s_type = s_type n, s_data = s_data n, s_attributes = attrs \<rparr> :: stanza_node"
  have "xmpp_stanza_copy [] (Stanza n kids) = Some (Some (Stanza ?n ks'), [])"
    using as(1) ks'(1) by (simp split: option.splits)
  then show ?case using as(2) [of ?n] ks'(2) by simp
qed

subsection \<open>Properties\<close>

text \<open>Without allocation failures a copy has the types, the data and the children of the original, and exactly
  those of its attributes that the iterator of the table delivers.\<close>

theorem stanza_copy_correct:
  assumes "stanza_ok s"
  shows "\<exists>s'. xmpp_stanza_copy [] s = Some (Some s', []) \<and> copied s s'"
  by (rule stanza_copy_copied [OF assms])

theorem stanza_copy_correct_witness:
  "\<exists>s'. xmpp_stanza_copy [] (Stanza tag_with_id [text_node ''x'']) = Some (Some s', []) \<and>
    xmpp_stanza_get_attribute (s_node s') ''id'' = Some (Some ''1'') \<and> map s_data (map s_node (s_kids s')) = [Some ''x'']"
proof -
  have k: "key_ok (fresh_table 8 True :: string hash_t) ''id''"
    by (rule hash_key_ascii [OF fresh_table_ok]) simp_all
  have fm: "hash_map (fresh_table 8 True :: string hash_t) = Map.empty" by (rule fresh_table_map) simp
  obtain r t fr m where a: "hash_add [] (fresh_table 8 True) ''id'' ''1'' = Some (r, t, fr, m)" "hash_ok t"
    "r = 0 \<and> hash_map t = (hash_map (fresh_table 8 True))(''id'' \<mapsto> ''1'') \<or>
      r = - 1 \<and> hash_map t = (hash_map (fresh_table 8 True))(''id'' := None)" "([] :: mem) = [] \<longrightarrow> r = 0 \<and> m = []"
    using hash_add_spec [OF fresh_table_ok [of 8 True] k, of "[]" "''1''"] by fastforce
  have t: "s_attributes tag_with_id = Some t" "hash_ok t" "hash_map t = [''id'' \<mapsto> ''1'']"
  proof -
    show "s_attributes tag_with_id = Some t"
      unfolding tag_with_id_def a(1) by (simp only: option.case prod.case stanza_node.simps)
    show "hash_ok t" "hash_map t = [''id'' \<mapsto> ''1'']" using a(2-4) unfolding fm by simp_all
  qed
  have hk: "iterated tag_with_id = {''id''}" by code_simp
  have "stanza_ok (Stanza tag_with_id [text_node ''x''])"
    using t by (auto simp: node_ok_def text_node_def)
  then obtain s' where s': "xmpp_stanza_copy [] (Stanza tag_with_id [text_node ''x'']) = Some (Some s', [])"
    "copied (Stanza tag_with_id [text_node ''x'']) s'"
    using stanza_copy_correct by blast
  obtain n' ks' where n': "s' = Stanza n' ks'" by (cases s') auto
  have "tag_ok n'" "attr_map n' ''id'' = Some ''1''"
    using s'(2) t hk by (auto simp: n' tag_ok_def node_ok_def tag_with_id_def attr_map_def split: option.splits)
  then have "xmpp_stanza_get_attribute n' ''id'' = Some (Some ''1'')"
    by (simp add: get_attribute_map)
  moreover have "map s_data (map s_node ks') = [Some ''x'']"
    using s'(2) by (auto simp: n' text_node_def list_all2_Cons1 elim!: copied.elims)
  ultimately show ?thesis using s'(1) by (simp add: n')
qed

end
