(* ===== verification/Auth.thy ===== *)
theory Auth
  imports Conn Sasl Stanza_Copy
begin

section \<open>Authentication (auth.c)\<close>

text \<open>
  Models \<open>src/auth.c\<close>: the handlers that negotiate TLS, SASL, resource binding and the session, and the legacy
  authentication, each with every call it makes.  A stanza that is built is a tree: its objects are linked by
  \<open>xmpp_stanza_add_child\<close> and released, which \<open>Stanza_Store\<close> shows to build just that tree.
  The handler functions are dispatched by their identity in \<open>run_stanza\<close> and \<open>run_timed\<close>.
\<close>

definition XMPP_NS_STREAMS_IETF :: string where "XMPP_NS_STREAMS_IETF = ''urn:ietf:params:xml:ns:xmpp-streams''"
definition XMPP_NS_TLS :: string where "XMPP_NS_TLS = ''urn:ietf:params:xml:ns:xmpp-tls''"
definition XMPP_NS_SASL :: string where "XMPP_NS_SASL = ''urn:ietf:params:xml:ns:xmpp-sasl''"
definition XMPP_NS_BIND :: string where "XMPP_NS_BIND = ''urn:ietf:params:xml:ns:xmpp-bind''"
definition XMPP_NS_SESSION :: string where "XMPP_NS_SESSION = ''urn:ietf:params:xml:ns:xmpp-session''"
definition XMPP_NS_AUTH :: string where "XMPP_NS_AUTH = ''jabber:iq:auth''"

definition SASL_MASK_PLAIN :: u32 where "SASL_MASK_PLAIN = 0x01"
definition SASL_MASK_DIGESTMD5 :: u32 where "SASL_MASK_DIGESTMD5 = 0x02"
definition SASL_MASK_ANONYMOUS :: u32 where "SASL_MASK_ANONYMOUS = 0x04"

lemmas sasl_mask_defs = SASL_MASK_PLAIN_def SASL_MASK_DIGESTMD5_def SASL_MASK_ANONYMOUS_def

definition FEATURES_TIMEOUT :: u64 where "FEATURES_TIMEOUT = 15000"
definition BIND_TIMEOUT :: u64 where "BIND_TIMEOUT = 15000"
definition SESSION_TIMEOUT :: u64 where "SESSION_TIMEOUT = 15000"
definition LEGACY_TIMEOUT :: u64 where "LEGACY_TIMEOUT = 15000"

subsection \<open>Building stanzas\<close>

text \<open>\<open>xmpp_stanza_new\<close> for a connection.\<close>

definition new_node :: "conn \<Rightarrow> stanza_node option \<times> conn" where
  "new_node c = (case conn_alloc c of (ok, c) \<Rightarrow> (if ok then Some blank_node else None, c))"

text \<open>\<open>xmpp_stanza_set_name\<close> and the settings of attributes that follow; their results are ignored.\<close>

fun set_attrs :: "(string \<times> string) list \<Rightarrow> stanza_node \<Rightarrow> mem \<Rightarrow> (stanza_node \<times> mem) option" where
  "set_attrs [] n m = Some (n, m)"
| "set_attrs ((k, v) # rest) n m = do {
     (_, n, m) \<leftarrow> xmpp_stanza_set_attribute m n k v;
     set_attrs rest n m }"

definition name_node :: "conn \<Rightarrow> stanza_node \<Rightarrow> string \<Rightarrow> (string \<times> string) list \<Rightarrow> (stanza_node \<times> conn) option" where
  "name_node c n name attrs =
     (case xmpp_stanza_set_name (hc_mem c) n name of (_, n, m) \<Rightarrow> do {
        (n, m) \<leftarrow> set_attrs attrs n m;
        Some (n, c\<lparr>hc_mem := m\<rparr>) })"

definition text_stanza :: "conn \<Rightarrow> stanza_node \<Rightarrow> string \<Rightarrow> stanza \<times> conn" where
  "text_stanza c n t = (case xmpp_stanza_set_text (hc_mem c) n t of (_, n, m) \<Rightarrow> (Stanza n [], c\<lparr>hc_mem := m\<rparr>))"

text \<open>\<open>if (!x) { disconnect_mem_error(conn); return; }\<close>\<close>

definition need :: "'a option \<Rightarrow> conn \<Rightarrow> ('a \<Rightarrow> conn option) \<Rightarrow> conn option" where
  "need x c k = (case x of None \<Rightarrow> disconnect_mem_error c | Some x \<Rightarrow> k x)"

text \<open>A new element, given its name and attributes when it could be allocated.\<close>

definition new_tag ::
    "conn \<Rightarrow> string \<Rightarrow> (string \<times> string) list \<Rightarrow> (stanza_node \<Rightarrow> conn \<Rightarrow> conn option) \<Rightarrow> conn option" where
  "new_tag c name attrs k =
     (case new_node c of (n, c) \<Rightarrow> need n c (\<lambda>n. do {
        (n, c) \<leftarrow> name_node c n name attrs;
        k n c }))"

definition make_starttls :: "conn \<Rightarrow> (stanza option \<times> conn) option" where
  "make_starttls c =
     (case new_node c of
        (None, c) \<Rightarrow> Some (None, c)
      | (Some n, c) \<Rightarrow> do {
          (n, c) \<leftarrow> name_node c n ''starttls'' [(''xmlns'', XMPP_NS_TLS)];
          Some (Some (Stanza n []), c) })"

definition make_sasl_auth :: "conn \<Rightarrow> string \<Rightarrow> (stanza_node option \<times> conn) option" where
  "make_sasl_auth c mechanism =
     (case new_node c of
        (None, c) \<Rightarrow> Some (None, c)
      | (Some n, c) \<Rightarrow> do {
          (n, c) \<leftarrow> name_node c n ''auth'' [(''xmlns'', XMPP_NS_SASL), (''mechanism'', mechanism)];
          Some (Some n, c) })"

definition get_authid :: "conn \<Rightarrow> string option \<times> conn" where
  "get_authid c =
     (if conn_type c = XMPP_CLIENT then
        (case jid c of
           None \<Rightarrow> (None, c)
         | Some j \<Rightarrow> (case xmpp_jid_node (hc_mem c) j of (a, m) \<Rightarrow> (a, c\<lparr>hc_mem := m\<rparr>)))
      else (None, c))"

subsection \<open>The choice of a mechanism\<close>

definition auth_anonymous :: "conn \<Rightarrow> conn option" where
  "auth_anonymous c = do {
     (n, c) \<leftarrow> make_sasl_auth c ''ANONYMOUS'';
     need n c (\<lambda>n. do {
       c \<leftarrow> handler_add c H_sasl_result (Some XMPP_NS_SASL) None None (U_string ''ANONYMOUS'');
       c \<leftarrow> xmpp_send c (Stanza n []);
       Some (c\<lparr>sasl_support := sasl_support c AND NOT SASL_MASK_ANONYMOUS\<rparr>) }) }"

definition auth_digest :: "conn \<Rightarrow> conn option" where
  "auth_digest c = do {
     (n, c) \<leftarrow> make_sasl_auth c ''DIGEST-MD5'';
     need n c (\<lambda>n. do {
       c \<leftarrow> handler_add c H_digestmd5_challenge (Some XMPP_NS_SASL) None None U_null;
       c \<leftarrow> xmpp_send c (Stanza n []);
       Some (c\<lparr>sasl_support := sasl_support c AND NOT SASL_MASK_DIGESTMD5\<rparr>) }) }"

definition auth_plain :: "conn \<Rightarrow> conn option" where
  "auth_plain c = do {
     (n, c) \<leftarrow> make_sasl_auth c ''PLAIN'';
     need n c (\<lambda>n.
       (case new_node c of (d, c) \<Rightarrow> need d c (\<lambda>d.
         (case get_authid c of (authid, c) \<Rightarrow> need authid c (\<lambda>authid. do {
            p \<leftarrow> pass c;
            (str, m) \<leftarrow> sasl_plain (hc_mem c) authid p;
            let c = c\<lparr>hc_mem := m\<rparr>;
            need str c (\<lambda>str.
              (case text_stanza c d str of (d, c) \<Rightarrow> do {
                 c \<leftarrow> handler_add c H_sasl_result (Some XMPP_NS_SASL) None None (U_string ''PLAIN'');
                 c \<leftarrow> xmpp_send c (Stanza n [d]);
                 Some (c\<lparr>sasl_support := sasl_support c AND NOT SASL_MASK_PLAIN\<rparr>) })) }))))) }"

text \<open>Legacy authentication, element by element: the resource is required.\<close>

definition legacy_username :: "conn \<Rightarrow> string \<Rightarrow> (stanza \<Rightarrow> conn \<Rightarrow> conn option) \<Rightarrow> conn option" where
  "legacy_username c j k =
     new_tag c ''username'' [] (\<lambda>user c.
       (case new_node c of (d, c) \<Rightarrow> need d c (\<lambda>d.
         (case xmpp_jid_node (hc_mem c) j of
            (None, m) \<Rightarrow> None
          | (Some str, m) \<Rightarrow>
              (case text_stanza (c\<lparr>hc_mem := m\<rparr>) d str of (d, c) \<Rightarrow> k (Stanza user [d]) c)))))"

definition legacy_password :: "conn \<Rightarrow> (stanza \<Rightarrow> conn \<Rightarrow> conn option) \<Rightarrow> conn option" where
  "legacy_password c k =
     new_tag c ''password'' [] (\<lambda>pw c.
       (case new_node c of (d, c) \<Rightarrow> need d c (\<lambda>d. do {
          p \<leftarrow> pass c;
          (case text_stanza c d p of (d, c) \<Rightarrow> k (Stanza pw [d]) c) })))"

definition legacy_resource :: "conn \<Rightarrow> string \<Rightarrow> (stanza \<Rightarrow> conn \<Rightarrow> conn option) \<Rightarrow> conn option" where
  "legacy_resource c j k =
     new_tag c ''resource'' [] (\<lambda>res c.
       (case new_node c of (d, c) \<Rightarrow> need d c (\<lambda>d.
         (case xmpp_jid_resource (hc_mem c) j of
            (None, m) \<Rightarrow> xmpp_disconnect (c\<lparr>hc_mem := m\<rparr>)
          | (Some r, m) \<Rightarrow>
              (case text_stanza (c\<lparr>hc_mem := m\<rparr>) d r of (d, c) \<Rightarrow> k (Stanza res [d]) c)))))"

definition auth_legacy :: "conn \<Rightarrow> conn option" where
  "auth_legacy c = do {
     j \<leftarrow> jid c;
     new_tag c ''iq'' [(''type'', ''set''), (''id'', ''_xmpp_auth1'')] (\<lambda>iq c.
     new_tag c ''query'' [(''xmlns'', XMPP_NS_AUTH)] (\<lambda>query c.
     legacy_username c j (\<lambda>user c.
     legacy_password c (\<lambda>pw c.
     legacy_resource c j (\<lambda>res c. do {
       c \<leftarrow> handler_add_id c H_legacy ''_xmpp_auth1'' U_null;
       c \<leftarrow> handler_add_timed c H_missing_legacy LEGACY_TIMEOUT U_null;
       xmpp_send c (Stanza iq [Stanza query [user, pw, res]]) }))))) }"

text \<open>\<open>_auth\<close>; it calls itself once when TLS cannot be initialised.\<close>

function auth :: "environ \<Rightarrow> conn \<Rightarrow> conn option" where
  "auth en c =
     (case jid c of
        None \<Rightarrow> None
      | Some j \<Rightarrow>
          (case xmpp_jid_node (hc_mem c) j of (str, m) \<Rightarrow>
           (let c = c\<lparr>hc_mem := m\<rparr>; anonjid = (str = None)
            in if tls_support c then
                 if \<not> en_tls_new en c then auth en (c\<lparr>tls_support := False\<rparr>)
                 else do {
                   (n, c) \<leftarrow> make_starttls c;
                   need n c (\<lambda>n. do {
                     c \<leftarrow> handler_add c H_proceedtls (Some XMPP_NS_TLS) None None U_null;
                     c \<leftarrow> xmpp_send c n;
                     Some (c\<lparr>tls_support := False\<rparr>) }) }
               else if anonjid \<and> sasl_support c AND SASL_MASK_ANONYMOUS \<noteq> 0 then auth_anonymous c
               else if anonjid then xmpp_disconnect c
               else if sasl_support c AND SASL_MASK_DIGESTMD5 \<noteq> 0 then auth_digest c
               else if sasl_support c AND SASL_MASK_PLAIN \<noteq> 0 then auth_plain c
               else if conn_type c = XMPP_CLIENT then auth_legacy c
               else Some c)))"
  by pat_completeness auto
termination by (relation "measure (\<lambda>(en, c). if tls_support c then 1 else 0)") auto

declare auth.simps [simp del]

subsection \<open>Stream errors\<close>

definition error_types :: "(string \<times> xmpp_error_type_t) list" where
  "error_types = [
     (''bad-format'', XMPP_SE_BAD_FORMAT), (''bad-namespace-prefix'', XMPP_SE_BAD_NS_PREFIX),
     (''conflict'', XMPP_SE_CONFLICT), (''connection-timeout'', XMPP_SE_CONN_TIMEOUT),
     (''host-gone'', XMPP_SE_HOST_GONE), (''host-unknown'', XMPP_SE_HOST_UNKNOWN),
     (''improper-addressing'', XMPP_SE_IMPROPER_ADDR), (''internal-server-error'', XMPP_SE_INTERNAL_SERVER_ERROR),
     (''invalid-from'', XMPP_SE_INVALID_FROM), (''invalid-id'', XMPP_SE_INVALID_ID),
     (''invalid-namespace'', XMPP_SE_INVALID_NS), (''invalid-xml'', XMPP_SE_INVALID_XML),
     (''not-authorized'', XMPP_SE_NOT_AUTHORIZED), (''policy-violation'', XMPP_SE_POLICY_VIOLATION),
     (''remote-connection-failed'', XMPP_SE_REMOTE_CONN_FAILED), (''resource-constraint'', XMPP_SE_RESOURCE_CONSTRAINT),
     (''restricted-xml'', XMPP_SE_RESTRICTED_XML), (''see-other-host'', XMPP_SE_SEE_OTHER_HOST),
     (''system-shutdown'', XMPP_SE_SYSTEM_SHUTDOWN), (''undefined-condition'', XMPP_SE_UNDEFINED_CONDITION),
     (''unsupported-encoding'', XMPP_SE_UNSUPPORTED_ENCODING),
     (''unsupported-stanza-type'', XMPP_SE_UNSUPPORTED_STANZA_TYPE),
     (''unsupported-version'', XMPP_SE_UNSUPPORTED_VERSION), (''xml-not-well-formed'', XMPP_SE_XML_NOT_WELL_FORMED)]"

text \<open>The loop over the children of the error stanza.\<close>

fun error_loop :: "mem \<Rightarrow> xmpp_stream_error_t \<Rightarrow> stanza list \<Rightarrow> (xmpp_stream_error_t \<times> mem) option" where
  "error_loop m se [] = Some (se, m)"
| "error_loop m se (child # rest) = do {
     ns \<leftarrow> xmpp_stanza_get_ns (s_node child);
     if ns = Some XMPP_NS_STREAMS_IETF then do {
       name \<leftarrow> xmpp_stanza_get_name (s_node child);
       if name = ''text'' then do {
         (t, m) \<leftarrow> xmpp_stanza_get_text m child;
         error_loop m (se\<lparr>se_text := t\<rparr>) rest }
       else error_loop m
         (case map_of error_types name of None \<Rightarrow> se | Some ty \<Rightarrow> se\<lparr>se_type := ty\<rparr>) rest }
     else error_loop m se rest }"

text \<open>The structure is written to before its allocation is checked, and \<open>get_next\<close> is called on \<open>NULL\<close>
  when the stanza has no children.\<close>

definition handle_error :: "conn \<Rightarrow> stanza \<Rightarrow> (bool \<times> conn) option" where
  "handle_error c s =
     (case conn_alloc c of
        (False, c) \<Rightarrow> None
      | (True, c) \<Rightarrow>
          (if s_kids s = [] then None
           else do {
             (se, m) \<leftarrow> error_loop (hc_mem c)
               \<lparr> se_type = XMPP_SE_UNDEFINED_CONDITION, se_text = None, se_stanza = None \<rparr> (s_kids s);
             Some (True, c\<lparr>stream_error := Some (se\<lparr>se_stanza := Some s\<rparr>), hc_mem := m\<rparr>) }))"

subsection \<open>Stream features\<close>

definition to_lower :: "char \<Rightarrow> char" where
  "to_lower c = (if 65 \<le> (of_char c :: nat) \<and> (of_char c :: nat) \<le> 90 then char_of ((of_char c :: nat) + 32) else c)"

text \<open>\<open>strcasecmp(a, b) == 0\<close>\<close>

definition strcasecmp_eq :: "string option \<Rightarrow> string \<Rightarrow> bool option" where
  "strcasecmp_eq a b = map_option (\<lambda>a. map to_lower a = map to_lower b) a"

fun mechanisms_loop :: "mem \<Rightarrow> u32 \<Rightarrow> stanza list \<Rightarrow> (u32 \<times> mem) option" where
  "mechanisms_loop m mechs [] = Some (mechs, m)"
| "mechanisms_loop m mechs (mech # rest) = do {
     is_mech \<leftarrow> strcmp_eq (xmpp_stanza_get_name (s_node mech)) (Some ''mechanism'');
     if is_mech then do {
       (txt, m) \<leftarrow> xmpp_stanza_get_text m mech;
       plain \<leftarrow> strcasecmp_eq txt ''PLAIN'';
       digest \<leftarrow> strcasecmp_eq txt ''DIGEST-MD5'';
       anon \<leftarrow> strcasecmp_eq txt ''ANONYMOUS'';
       mechanisms_loop m
         (if plain then mechs OR SASL_MASK_PLAIN
          else if digest then mechs OR SASL_MASK_DIGESTMD5
          else if anon then mechs OR SASL_MASK_ANONYMOUS else mechs) rest }
     else mechanisms_loop m mechs rest }"

text \<open>A child with a name and a namespace: \<open>strcmp\<close> is called on its namespace unchecked.\<close>

definition named_child :: "stanza \<Rightarrow> string \<Rightarrow> string \<Rightarrow> (stanza option \<times> bool) option" where
  "named_child s name ns = do {
     child \<leftarrow> xmpp_stanza_get_child_by_name s name;
     case child of
       [] \<Rightarrow> Some (None, False)
     | child # _ \<Rightarrow> do {
         n \<leftarrow> xmpp_stanza_get_ns (s_node child);
         eq \<leftarrow> strcmp_eq n (Some ns);
         Some (Some child, eq) } }"

definition handle_missing_features :: "environ \<Rightarrow> conn \<Rightarrow> (bool \<times> conn) option" where
  "handle_missing_features en c = do { c \<leftarrow> auth en c; Some (False, c) }"

definition handle_features :: "environ \<Rightarrow> conn \<Rightarrow> stanza \<Rightarrow> (bool \<times> conn) option" where
  "handle_features en c s = do {
     c \<leftarrow> xmpp_timed_handler_delete c H_missing_features;
     c \<leftarrow> (if \<not> secured c then
             if \<not> tls_disabled c then do {
               (child, eq) \<leftarrow> named_child s ''starttls'' XMPP_NS_TLS;
               Some (if eq then c\<lparr>tls_support := True\<rparr> else c) }
             else Some (c\<lparr>tls_support := False\<rparr>)
           else Some c);
     (child, eq) \<leftarrow> named_child s ''mechanisms'' XMPP_NS_SASL;
     c \<leftarrow> (case child of
             Some child \<Rightarrow>
               if eq then do {
                 (mechs, m) \<leftarrow> mechanisms_loop (hc_mem c) (sasl_support c) (xmpp_stanza_get_children child);
                 Some (c\<lparr>sasl_support := mechs, hc_mem := m\<rparr>) }
               else Some c
           | None \<Rightarrow> Some c);
     c \<leftarrow> auth en c;
     Some (False, c) }"

subsection \<open>TLS and SASL\<close>

definition auth_handle_open :: "conn \<Rightarrow> conn option" where
  "auth_handle_open c = do {
     c \<leftarrow> handler_reset_timed c False;
     c \<leftarrow> handler_add c H_error None (Some ''stream:error'') None U_null;
     c \<leftarrow> handler_add c H_features None (Some ''stream:features'') None U_null;
     handler_add_timed c H_missing_features FEATURES_TIMEOUT U_null }"

definition handle_open_sasl :: "conn \<Rightarrow> conn option" where
  "handle_open_sasl c = do {
     c \<leftarrow> handler_add c H_features_sasl None (Some ''stream:features'') None U_null;
     handler_add_timed c H_missing_features_sasl FEATURES_TIMEOUT U_null }"

text \<open>A handle that \<open>tls_new\<close> could not make is passed to \<open>tls_start\<close>.\<close>

definition handle_proceedtls_default :: "environ \<Rightarrow> conn \<Rightarrow> stanza \<Rightarrow> (bool \<times> conn) option" where
  "handle_proceedtls_default en c s = do {
     proceed \<leftarrow> strcmp_eq (xmpp_stanza_get_name (s_node s)) (Some ''proceed'');
     if proceed then do {
       let tls = en_tls_new en c;
       started \<leftarrow> en_tls_start en tls (c\<lparr>conn_tls := tls\<rparr>);
       c \<leftarrow> (if \<not> started then xmpp_disconnect (c\<lparr>conn_tls := False, tls_failed := True\<rparr>)
             else conn_open_stream (conn_prepare_reset (c\<lparr>conn_tls := tls, secured := True\<rparr>) Auth_handle_open));
       Some (False, c) }
     else Some (False, c) }"

definition handle_sasl_result :: "environ \<Rightarrow> conn \<Rightarrow> stanza \<Rightarrow> (bool \<times> conn) option" where
  "handle_sasl_result en c s = do {
     name \<leftarrow> xmpp_stanza_get_name (s_node s);
     c \<leftarrow> (if name = ''failure'' then auth en c
           else if name = ''success'' then conn_open_stream (conn_prepare_reset c Handle_open_sasl)
           else xmpp_disconnect c);
     Some (False, c) }"

definition handle_digestmd5_challenge :: "environ \<Rightarrow> conn \<Rightarrow> stanza \<Rightarrow> (bool \<times> conn) option" where
  "handle_digestmd5_challenge en c s = do {
     name \<leftarrow> xmpp_stanza_get_name (s_node s);
     if name = ''challenge'' then do {
       (txt, m) \<leftarrow> xmpp_stanza_get_text (hc_mem c) s;
       txt \<leftarrow> txt;
       (response, m) \<leftarrow> sasl_digest_md5 m txt (jid c) (pass c);
       let c = c\<lparr>hc_mem := m\<rparr>;
       c \<leftarrow> need response c (\<lambda>response.
         new_tag c ''response'' [(''xmlns'', XMPP_NS_SASL)] (\<lambda>n c.
         (case new_node c of (d, c) \<Rightarrow> need d c (\<lambda>d.
         (case text_stanza c d response of (d, c) \<Rightarrow> do {
            c \<leftarrow> handler_add c H_digestmd5_rspauth (Some XMPP_NS_SASL) None None U_null;
            xmpp_send c (Stanza n [d]) })))));
       Some (False, c) }
     else handle_sasl_result en c s }"

text \<open>The handler stays after a challenge that could be answered.\<close>

definition handle_digestmd5_rspauth :: "environ \<Rightarrow> conn \<Rightarrow> stanza \<Rightarrow> (bool \<times> conn) option" where
  "handle_digestmd5_rspauth en c s = do {
     name \<leftarrow> xmpp_stanza_get_name (s_node s);
     if name = ''challenge'' then
       (case new_node c of
          (None, c) \<Rightarrow> do { c \<leftarrow> disconnect_mem_error c; Some (False, c) }
        | (Some n, c) \<Rightarrow> do {
            (n, c) \<leftarrow> name_node c n ''response'' [(''xmlns'', XMPP_NS_SASL)];
            c \<leftarrow> xmpp_send c (Stanza n []);
            Some (True, c) })
     else handle_sasl_result en c s }"

subsection \<open>Binding and session\<close>

definition handle_missing_features_sasl :: "conn \<Rightarrow> (bool \<times> conn) option" where
  "handle_missing_features_sasl c = do { c \<leftarrow> xmpp_disconnect c; Some (False, c) }"

definition handle_missing_bind :: "conn \<Rightarrow> (bool \<times> conn) option" where
  "handle_missing_bind c = do { c \<leftarrow> xmpp_disconnect c; Some (False, c) }"

definition handle_missing_session :: "conn \<Rightarrow> (bool \<times> conn) option" where
  "handle_missing_session c = do { c \<leftarrow> xmpp_disconnect c; Some (False, c) }"

definition handle_missing_legacy :: "conn \<Rightarrow> (bool \<times> conn) option" where
  "handle_missing_legacy c = do { c \<leftarrow> xmpp_disconnect c; Some (False, c) }"

text \<open>The request: the \<open>bind\<close> element of the features is copied, \<open>NULL\<close> included, and gets the
  resource of the JID if it has one.\<close>

definition send_bind :: "conn \<Rightarrow> stanza option \<Rightarrow> conn option" where
  "send_bind c bnd =
     new_tag c ''iq'' [(''type'', ''set''), (''id'', ''_xmpp_bind1'')] (\<lambda>iq c. do {
       b \<leftarrow> bnd;
       (b, m) \<leftarrow> xmpp_stanza_copy (hc_mem c) b;
       let c = c\<lparr>hc_mem := m\<rparr>;
       need b c (\<lambda>b. do {
         j \<leftarrow> jid c;
         (case xmpp_jid_resource (hc_mem c) j of (r, m) \<Rightarrow>
          (let c = c\<lparr>hc_mem := m\<rparr>
           in if r = None \<or> r = Some [] then xmpp_send c (Stanza iq [b])
              else
                new_tag c ''resource'' [] (\<lambda>res c.
                (case new_node c of (d, c) \<Rightarrow> need d c (\<lambda>d.
                (case text_stanza c d (the r) of (d, c) \<Rightarrow>
                   xmpp_send c (Stanza iq [Stanza (s_node b) (s_kids b @ [Stanza res [d]])])))))))
       }) })"

definition handle_features_sasl :: "conn \<Rightarrow> stanza \<Rightarrow> (bool \<times> conn) option" where
  "handle_features_sasl c s = do {
     c \<leftarrow> xmpp_timed_handler_delete c H_missing_features_sasl;
     (bnd, eq) \<leftarrow> named_child s ''bind'' XMPP_NS_BIND;
     let c = (if eq then c\<lparr>bind_required := True\<rparr> else c);
     (_, eq) \<leftarrow> named_child s ''session'' XMPP_NS_SESSION;
     let c = (if eq then c\<lparr>session_required := True\<rparr> else c);
     c \<leftarrow> (if bind_required c then do {
             c \<leftarrow> handler_add_id c H_bind ''_xmpp_bind1'' U_null;
             c \<leftarrow> handler_add_timed c H_missing_bind BIND_TIMEOUT U_null;
             send_bind c bnd }
           else xmpp_disconnect c);
     Some (False, c) }"

text \<open>The session request; a failed allocation of its element is noticed, and the element is used then.\<close>

definition send_session :: "conn \<Rightarrow> conn option" where
  "send_session c =
     new_tag c ''iq'' [(''type'', ''set''), (''id'', ''_xmpp_session1'')] (\<lambda>iq c.
     (case new_node c of (n, c) \<Rightarrow> do {
        n \<leftarrow> n;
        (n, c) \<leftarrow> name_node c n ''session'' [(''xmlns'', XMPP_NS_SESSION)];
        xmpp_send c (Stanza iq [Stanza n []]) }))"

definition handle_bind :: "environ \<Rightarrow> conn \<Rightarrow> stanza \<Rightarrow> (bool \<times> conn) option" where
  "handle_bind en c s = do {
     c \<leftarrow> xmpp_timed_handler_delete c H_missing_bind;
     ty \<leftarrow> xmpp_stanza_get_type (s_node s);
     c \<leftarrow> (if ty = Some ''error'' then xmpp_disconnect c
           else if ty = Some ''result'' then do {
             binding \<leftarrow> xmpp_stanza_get_child_by_name s ''bind'';
             c \<leftarrow> (case binding of
                     [] \<Rightarrow> Some c
                   | b # _ \<Rightarrow> do {
                       js \<leftarrow> xmpp_stanza_get_child_by_name b ''jid'';
                       case js of
                         [] \<Rightarrow> Some c
                       | js # _ \<Rightarrow> do {
                           (t, m) \<leftarrow> xmpp_stanza_get_text (hc_mem c) js;
                           Some (c\<lparr>bound_jid := t, hc_mem := m\<rparr>) } });
             if session_required c then do {
               c \<leftarrow> handler_add_id c H_session ''_xmpp_session1'' U_null;
               c \<leftarrow> handler_add_timed c H_missing_session SESSION_TIMEOUT U_null;
               send_session c }
             else call_conn_handler en XMPP_CONN_CONNECT (c\<lparr>authenticated := True\<rparr>) }
           else xmpp_disconnect c);
     Some (False, c) }"

definition handle_session :: "environ \<Rightarrow> conn \<Rightarrow> stanza \<Rightarrow> (bool \<times> conn) option" where
  "handle_session en c s = do {
     c \<leftarrow> xmpp_timed_handler_delete c H_missing_session;
     ty \<leftarrow> xmpp_stanza_get_type (s_node s);
     c \<leftarrow> (if ty = Some ''result'' then call_conn_handler en XMPP_CONN_CONNECT (c\<lparr>authenticated := True\<rparr>)
           else xmpp_disconnect c);
     Some (False, c) }"

definition handle_legacy :: "environ \<Rightarrow> conn \<Rightarrow> stanza \<Rightarrow> (bool \<times> conn) option" where
  "handle_legacy en c s = do {
     c \<leftarrow> xmpp_timed_handler_delete c H_missing_legacy;
     ty \<leftarrow> xmpp_stanza_get_type (s_node s);
     c \<leftarrow> (case ty of
             None \<Rightarrow> xmpp_disconnect c
           | Some ty \<Rightarrow> do {
               is_iq \<leftarrow> strcmp_eq (xmpp_stanza_get_name (s_node s)) (Some ''iq'');
               if is_iq \<and> ty = ''result''
               then call_conn_handler en XMPP_CONN_CONNECT (c\<lparr>authenticated := True\<rparr>)
               else xmpp_disconnect c });
     Some (False, c) }"

subsection \<open>Dispatch\<close>

text \<open>What the handler functions do; a function of the other kind is never registered as one of these.\<close>

definition run_stanza :: "environ \<Rightarrow> lib_handler \<Rightarrow> stanza \<Rightarrow> udata \<Rightarrow> conn \<Rightarrow> (bool \<times> conn) option" where
  "run_stanza en h s u c =
     (case h of
        H_error \<Rightarrow> handle_error c s
      | H_features \<Rightarrow> handle_features en c s
      | H_proceedtls \<Rightarrow> handle_proceedtls_default en c s
      | H_sasl_result \<Rightarrow> handle_sasl_result en c s
      | H_digestmd5_challenge \<Rightarrow> handle_digestmd5_challenge en c s
      | H_digestmd5_rspauth \<Rightarrow> handle_digestmd5_rspauth en c s
      | H_features_sasl \<Rightarrow> handle_features_sasl c s
      | H_bind \<Rightarrow> handle_bind en c s
      | H_session \<Rightarrow> handle_session en c s
      | H_legacy \<Rightarrow> handle_legacy en c s
      | H_user k \<Rightarrow> en_handler en k s u c
      | _ \<Rightarrow> None)"

definition run_timed :: "environ \<Rightarrow> lib_handler \<Rightarrow> udata \<Rightarrow> conn \<Rightarrow> (bool \<times> conn) option" where
  "run_timed en h u c =
     (case h of
        H_missing_features \<Rightarrow> handle_missing_features en c
      | H_missing_features_sasl \<Rightarrow> handle_missing_features_sasl c
      | H_missing_bind \<Rightarrow> handle_missing_bind c
      | H_missing_session \<Rightarrow> handle_missing_session c
      | H_missing_legacy \<Rightarrow> handle_missing_legacy c
      | H_disconnect_cleanup \<Rightarrow> disconnect_cleanup en c
      | H_user k \<Rightarrow> en_timed en k u c
      | _ \<Rightarrow> None)"

fun run_open :: "open_handler_t \<Rightarrow> conn \<Rightarrow> conn option" where
  "run_open Auth_handle_open c = auth_handle_open c"
| "run_open Handle_open_sasl c = handle_open_sasl c"

end
