(* ===== verification/Event_Loop.thy ===== *)
theory Event_Loop
  imports Auth "HOL-Library.Signed_Division"
begin

section \<open>The event loop (event.c) and its sockets (sock.c)\<close>

text \<open>
  Models \<open>src/event.c\<close> with the socket functions of \<open>src/sock.c\<close> that it calls, and composes all
  components: the callbacks of the parser are the stream handlers of \<open>conn.c\<close>, which fire the handlers of
  \<open>auth.c\<close> and of the user.  System calls, the TLS library and the XML scanner are the functions of a record that is
  a parameter; they work on a state of the outside world, of a type \<open>'n\<close>.  A user function works on its own
  connection.  A session is a connection with its parser.
\<close>

subsection \<open>The outside world\<close>

record ('x, 'n) platform =
  tls_clear_pending_write :: "conn \<Rightarrow> 'n \<Rightarrow> int \<times> 'n"
  tls_write :: "conn \<Rightarrow> string \<Rightarrow> 'n \<Rightarrow> int \<times> 'n"
  tls_read :: "conn \<Rightarrow> nat \<Rightarrow> 'n \<Rightarrow> int \<times> string \<times> 'n"
  tls_error :: "conn \<Rightarrow> 'n \<Rightarrow> int"
  tls_is_recoverable :: "int \<Rightarrow> bool"
  tls_pending :: "conn \<Rightarrow> 'n \<Rightarrow> int"
  sys_send :: "int \<Rightarrow> string \<Rightarrow> 'n \<Rightarrow> int \<times> 'n"
  sys_recv :: "int \<Rightarrow> nat \<Rightarrow> 'n \<Rightarrow> int \<times> string \<times> 'n"
  sys_getpeername :: "int \<Rightarrow> 'n \<Rightarrow> int \<times> 'n"
  sys_errno :: "'n \<Rightarrow> int"
  sys_select :: "int \<Rightarrow> int list \<Rightarrow> int list \<Rightarrow> int \<times> int \<Rightarrow> 'n \<Rightarrow> int \<times> int list \<times> int list \<times> 'n"
  xml_create :: "'x option"
  xml_parse :: "'x \<Rightarrow> string \<Rightarrow> int \<times> 'x \<times> sax_event list"

text \<open>The error numbers are those of Linux.\<close>

definition EINTR :: int where "EINTR = 4"
definition EAGAIN :: int where "EAGAIN = 11"
definition ECONNABORTED :: int where "ECONNABORTED = 103"
definition ECONNRESET :: int where "ECONNRESET = 104"
definition ENOTCONN :: int where "ENOTCONN = 107"
definition ETIMEDOUT :: int where "ETIMEDOUT = 110"

lemmas errno_defs = EINTR_def EAGAIN_def ECONNABORTED_def ECONNRESET_def ENOTCONN_def ETIMEDOUT_def

definition sock_error :: "('x, 'n) platform \<Rightarrow> 'n \<Rightarrow> int" where
  "sock_error pf n = sys_errno pf n"

definition sock_read :: "('x, 'n) platform \<Rightarrow> int \<Rightarrow> nat \<Rightarrow> 'n \<Rightarrow> int \<times> string \<times> 'n" where
  "sock_read pf sock len n = sys_recv pf sock len n"

definition sock_write :: "('x, 'n) platform \<Rightarrow> int \<Rightarrow> string \<Rightarrow> 'n \<Rightarrow> int \<times> 'n" where
  "sock_write pf sock buff n = sys_send pf sock buff n"

definition sock_is_recoverable :: "int \<Rightarrow> bool" where
  "sock_is_recoverable e \<longleftrightarrow> e = EAGAIN \<or> e = EINTR"

definition sock_connect_error :: "('x, 'n) platform \<Rightarrow> int \<Rightarrow> 'n \<Rightarrow> int \<times> 'n" where
  "sock_connect_error pf sock n =
     (case sys_getpeername pf sock n of (r, n) \<Rightarrow>
       if r = 0 then (0, n)
       else if sock_error pf n \<noteq> ENOTCONN then (sock_error pf n, n)
       else (case sys_recv pf sock 1 n of (_, _, n) \<Rightarrow> (sock_error pf n, n)))"

subsection \<open>The context\<close>

record ('x, 'n) xmpp_ctx_t =
  loop_status :: xmpp_loop_status_t
  ctx_mem :: mem
  ctx_clock :: "u64 list"
  ctx_net :: 'n
  connlist :: "'x session list"

definition session_conn :: "'x session \<Rightarrow> conn" where
  "session_conn s = e_userdata (snd s)"

text \<open>A session gets the context's allocator, clock and loop status, and gives them back.\<close>

definition enter :: "('x, 'n) xmpp_ctx_t \<Rightarrow> 'x session \<Rightarrow> 'x session" where
  "enter cx s = (fst s, (snd s)\<lparr>e_mem := ctx_mem cx,
     e_userdata := (session_conn s)\<lparr>hc_mem := ctx_mem cx, hc_clock := ctx_clock cx, ctx_status := loop_status cx\<rparr>\<rparr>)"

definition leave :: "('x, 'n) xmpp_ctx_t \<Rightarrow> 'x session \<Rightarrow> 'n \<Rightarrow> ('x, 'n) xmpp_ctx_t" where
  "leave cx s n = cx\<lparr>ctx_mem := e_mem (snd s), ctx_clock := hc_clock (session_conn s),
     loop_status := ctx_status (session_conn s), ctx_net := n\<rparr>"

text \<open>The loops over the list of connections.\<close>

fun conns_loop ::
    "('a \<Rightarrow> 'x session \<Rightarrow> 'n \<Rightarrow> ('a \<times> 'x session \<times> 'n) option) \<Rightarrow> 'a \<Rightarrow> ('x, 'n) xmpp_ctx_t \<Rightarrow> 'x session list \<Rightarrow>
      ('a \<times> ('x, 'n) xmpp_ctx_t \<times> 'x session list) option" where
  "conns_loop f a cx [] = Some (a, cx, [])"
| "conns_loop f a cx (s # ss) = do {
     (a, s, n) \<leftarrow> f a (enter cx s) (ctx_net cx);
     (a, cx, ss) \<leftarrow> conns_loop f a (leave cx s n) ss;
     Some (a, cx, s # ss) }"

definition each_conn ::
    "('a \<Rightarrow> 'x session \<Rightarrow> 'n \<Rightarrow> ('a \<times> 'x session \<times> 'n) option) \<Rightarrow> 'a \<Rightarrow> ('x, 'n) xmpp_ctx_t \<Rightarrow>
      ('a \<times> ('x, 'n) xmpp_ctx_t) option" where
  "each_conn f a cx = do {
     (a, cx, ss) \<leftarrow> conns_loop f a cx (connlist cx);
     Some (a, cx\<lparr>connlist := ss\<rparr>) }"

text \<open>A function of a connection as one of its parser's environment, and of its session.\<close>

definition on_conn :: "(conn \<Rightarrow> conn option) \<Rightarrow> conn parser_env \<Rightarrow> conn parser_env option" where
  "on_conn f e = do {
     c \<leftarrow> f ((e_userdata e)\<lparr>hc_mem := e_mem e\<rparr>);
     Some (e\<lparr>e_mem := hc_mem c, e_userdata := c\<rparr>) }"

definition on_session :: "(conn \<Rightarrow> conn option) \<Rightarrow> 'x session \<Rightarrow> 'x session option" where
  "on_session f s = map_option (Pair (fst s)) (on_conn f (snd s))"

text \<open>The callbacks that \<open>xmpp_conn_new\<close> gives to the parser.\<close>

definition stream_callbacks :: "environ \<Rightarrow> conn parser_callbacks" where
  "stream_callbacks en = \<lparr>
     startcb = Some (\<lambda>name attrs. on_conn (handle_stream_start en run_open name attrs)),
     endcb = Some (\<lambda>name. on_conn (handle_stream_end en name)),
     stanzacb = Some (\<lambda>p e. do {
       s \<leftarrow> read_tree (e_store e) p;
       on_conn (handle_stream_stanza (run_stanza en) s) e }) \<rparr>"

subsection \<open>Sending queued data\<close>

text \<open>One attempt to write, and the error that it leaves when it failed for good.\<close>

definition write_some :: "('x, 'n) platform \<Rightarrow> conn \<Rightarrow> string \<Rightarrow> 'n \<Rightarrow> int \<times> int option \<times> 'n" where
  "write_some pf c data n =
     (if conn_tls c then
        (case tls_write pf c data n of (ret, n) \<Rightarrow>
          (ret, if ret < 0 \<and> \<not> tls_is_recoverable pf (tls_error pf c n) then Some (tls_error pf c n) else None, n))
      else
        (case sock_write pf (conn_sock c) data n of (ret, n) \<Rightarrow>
          (ret, if ret < 0 \<and> \<not> sock_is_recoverable (sock_error pf n) then Some (sock_error pf n) else None, n)))"

fun send_loop :: "('x, 'n) platform \<Rightarrow> xmpp_send_queue_t list \<Rightarrow> conn \<Rightarrow> 'n \<Rightarrow> conn \<times> 'n" where
  "send_loop pf [] c n = (c\<lparr>send_queue := []\<rparr>, n)"
| "send_loop pf (sq # rest) c n =
     (let towrite = int (length (sq_data sq)) - int (sq_written sq)
      in case write_some pf c (drop (sq_written sq) (sq_data sq)) n of
        (ret, Some err, n) \<Rightarrow> (c\<lparr>conn_error := err, send_queue := sq # rest\<rparr>, n)
      | (ret, None, n) \<Rightarrow>
          if ret < towrite then
            (c\<lparr>send_queue := (if ret \<ge> 0 then sq\<lparr>sq_written := sq_written sq + nat ret\<rparr> else sq) # rest\<rparr>, n)
          else send_loop pf rest c n)"

definition send_conn ::
    "('x, 'n) platform \<Rightarrow> environ \<Rightarrow> conn \<Rightarrow> 'n \<Rightarrow> (conn \<times> 'n) option" where
  "send_conn pf en c n =
     (if conn_state c \<noteq> XMPP_STATE_CONNECTED then Some (c, n)
      else do {
        (c, n) \<leftarrow> (if conn_tls c then
            (case tls_clear_pending_write pf c n of (ret, n) \<Rightarrow>
              if ret < 0 \<and> \<not> tls_is_recoverable pf (tls_error pf c n)
              then map_option (\<lambda>c. (c, n)) (conn_disconnect en (c\<lparr>conn_error := ECONNABORTED\<rparr>))
              else Some (c, n))
          else Some (c, n));
        let (c, n) = send_loop pf (send_queue c) c n;
        c \<leftarrow> (if conn_error c \<noteq> 0 then conn_disconnect en (c\<lparr>conn_error := ECONNABORTED\<rparr>) else Some c);
        Some (c, n) })"

text \<open>A function of the connection that talks to the outside world, on a session.\<close>

definition net_session ::
    "(conn \<Rightarrow> 'n \<Rightarrow> (conn \<times> 'n) option) \<Rightarrow> 'a \<Rightarrow> 'x session \<Rightarrow> 'n \<Rightarrow> ('a \<times> 'x session \<times> 'n) option" where
  "net_session f a s n = do {
     (c, n) \<leftarrow> f ((session_conn s)\<lparr>hc_mem := e_mem (snd s)\<rparr>) n;
     Some (a, (fst s, (snd s)\<lparr>e_mem := hc_mem c, e_userdata := c\<rparr>), n) }"

definition reset_conn ::
    "('x, 'n) platform \<Rightarrow> unit \<Rightarrow> 'x session \<Rightarrow> 'n \<Rightarrow> (unit \<times> 'x session \<times> 'n) option" where
  "reset_conn pf a s n =
     (if reset_parser (session_conn s) then map_option (\<lambda>s. (a, s, n)) (conn_parser_reset (xml_create pf) s)
      else Some (a, s, n))"

subsection \<open>Timed handlers\<close>

definition timed_conn :: "environ \<Rightarrow> u64 \<Rightarrow> 'x session \<Rightarrow> 'n \<Rightarrow> (u64 \<times> 'x session \<times> 'n) option" where
  "timed_conn en mn s n = do {
     (mn, c) \<leftarrow> fire_timed_conn (run_timed en) mn ((session_conn s)\<lparr>hc_mem := e_mem (snd s)\<rparr>);
     Some (mn, (fst s, (snd s)\<lparr>e_mem := hc_mem c, e_userdata := c\<rparr>), n) }"

definition handler_fire_timed :: "environ \<Rightarrow> ('x, 'n) xmpp_ctx_t \<Rightarrow> (u64 \<times> ('x, 'n) xmpp_ctx_t) option" where
  "handler_fire_timed en cx = each_conn (timed_conn en) (- 1) cx"

subsection \<open>Events\<close>

text \<open>\<open>FD_SET\<close> and \<open>FD_ISSET\<close> are defined for descriptors below \<open>FD_SETSIZE\<close>.\<close>

definition fd_set :: "int \<Rightarrow> int list \<Rightarrow> int list option" where
  "fd_set sock fds = (if 0 \<le> sock \<and> sock < 1024 then Some (sock # fds) else None)"

definition fd_isset :: "int \<Rightarrow> int list \<Rightarrow> bool option" where
  "fd_isset sock fds = (if 0 \<le> sock \<and> sock < 1024 then Some (sock \<in> set fds) else None)"

record watch =
  w_rfds :: "int list"
  w_wfds :: "int list"
  w_max :: int
  w_tls_bytes :: int

definition watch_conn ::
    "('x, 'n) platform \<Rightarrow> environ \<Rightarrow> watch \<Rightarrow> 'x session \<Rightarrow> 'n \<Rightarrow> (watch \<times> 'x session \<times> 'n) option" where
  "watch_conn pf en w s n = do {
     let c = (session_conn s)\<lparr>hc_mem := e_mem (snd s)\<rparr>;
     (w, c) \<leftarrow> (case conn_state c of
         XMPP_STATE_CONNECTING \<Rightarrow>
           (case time_stamp c of (now, c) \<Rightarrow>
             if time_elapsed (timeout_stamp c) now \<le> connect_timeout c
             then map_option (\<lambda>fds. (w\<lparr>w_wfds := fds\<rparr>, c)) (fd_set (conn_sock c) (w_wfds w))
             else map_option (Pair w) (conn_disconnect en (c\<lparr>conn_error := ETIMEDOUT\<rparr>)))
       | XMPP_STATE_CONNECTED \<Rightarrow>
           map_option (\<lambda>fds. (w\<lparr>w_rfds := fds\<rparr>, c)) (fd_set (conn_sock c) (w_rfds w))
       | XMPP_STATE_DISCONNECTED \<Rightarrow> Some (w, c));
     let w = (if conn_tls c then w\<lparr>w_tls_bytes := w_tls_bytes w + tls_pending pf c n\<rparr> else w);
     let w = (if conn_sock c > w_max w then w\<lparr>w_max := conn_sock c\<rparr> else w);
     Some (w, (fst s, (snd s)\<lparr>e_mem := hc_mem c, e_userdata := c\<rparr>), n) }"

text \<open>What is done with the result of a read.\<close>

definition process_data ::
    "('x, 'n) platform \<Rightarrow> environ \<Rightarrow> int \<Rightarrow> string \<Rightarrow> 'x session \<Rightarrow> 'n \<Rightarrow> 'x session option" where
  "process_data pf en ret buf s n =
     (if ret > 0 then do {
        (ret, s) \<leftarrow> parser_feed (xml_parse pf) (stream_callbacks en) (take (nat ret) buf) s;
        if ret = 0 then on_session (conn_disconnect en) s else Some s }
      else if conn_tls (session_conn s) then
        (let err = tls_error pf (session_conn s) n
         in if \<not> tls_is_recoverable pf err
            then on_session (\<lambda>c. conn_disconnect en (c\<lparr>conn_error := err\<rparr>)) s
            else Some s)
      else on_session (\<lambda>c. conn_disconnect en (c\<lparr>conn_error := ECONNRESET\<rparr>)) s)"

definition process_conn ::
    "('x, 'n) platform \<Rightarrow> environ \<Rightarrow> watch \<Rightarrow> 'x session \<Rightarrow> 'n \<Rightarrow> (watch \<times> 'x session \<times> 'n) option" where
  "process_conn pf en w s n =
     (let c = session_conn s
      in case conn_state c of
        XMPP_STATE_CONNECTING \<Rightarrow> do {
          ready \<leftarrow> fd_isset (conn_sock c) (w_wfds w);
          if ready then
            (case sock_connect_error pf (conn_sock c) n of (err, n) \<Rightarrow> do {
               s \<leftarrow> (if err \<noteq> 0 then on_session (conn_disconnect en) s
                     else on_session (\<lambda>c. conn_open_stream (c\<lparr>conn_state := XMPP_STATE_CONNECTED\<rparr>)) s);
               Some (w, s, n) })
          else Some (w, s, n) }
      | XMPP_STATE_CONNECTED \<Rightarrow> do {
          ready \<leftarrow> fd_isset (conn_sock c) (w_rfds w);
          if ready \<or> (conn_tls c \<and> tls_pending pf c n \<noteq> 0) then
            (case (if conn_tls c then tls_read pf c 4096 n else sock_read pf (conn_sock c) 4096 n) of
              (ret, buf, n) \<Rightarrow> do {
                s \<leftarrow> process_data pf en ret buf s n;
                Some (w, s, n) })
          else Some (w, s, n) }
      | XMPP_STATE_DISCONNECTED \<Rightarrow> Some (w, s, n))"

subsection \<open>The loop\<close>

definition xmpp_run_once ::
    "('x, 'n) platform \<Rightarrow> environ \<Rightarrow> u64 \<Rightarrow> ('x, 'n) xmpp_ctx_t \<Rightarrow> ('x, 'n) xmpp_ctx_t option" where
  "xmpp_run_once pf en timeout cx =
     (if loop_status cx = XMPP_LOOP_QUIT then Some cx
      else do {
        let cx = cx\<lparr>loop_status := XMPP_LOOP_RUNNING\<rparr>;
        (_, cx) \<leftarrow> each_conn (net_session (send_conn pf en)) () cx;
        (_, cx) \<leftarrow> each_conn (reset_conn pf) () cx;
        (nxt, cx) \<leftarrow> handler_fire_timed en cx;
        let usec = sint ((if nxt < timeout then nxt else timeout) * 1000);
        (w, cx) \<leftarrow> each_conn (watch_conn pf en) \<lparr> w_rfds = [], w_wfds = [], w_max = 0, w_tls_bytes = 0 \<rparr> cx;
        (case sys_select pf (w_max w + 1) (w_rfds w) (w_wfds w) (usec sdiv 1000000, usec smod 1000000) (ctx_net cx) of
          (ret, rfds, wfds, n) \<Rightarrow>
            let cx = cx\<lparr>ctx_net := n\<rparr>
            in if ret < 0 \<or> (ret = 0 \<and> w_tls_bytes w = 0) then Some cx
               else do {
                 (_, cx) \<leftarrow> each_conn (process_conn pf en) (w\<lparr>w_rfds := rfds, w_wfds := wfds\<rparr>) cx;
                 (_, cx) \<leftarrow> handler_fire_timed en cx;
                 Some cx }) })"

definition DEFAULT_TIMEOUT :: u64 where "DEFAULT_TIMEOUT = 1"

partial_function (option) run_loop ::
    "('x, 'n) platform \<Rightarrow> environ \<Rightarrow> ('x, 'n) xmpp_ctx_t \<Rightarrow> ('x, 'n) xmpp_ctx_t option" where
  "run_loop pf en cx =
     (if loop_status cx = XMPP_LOOP_RUNNING
      then Option.bind (xmpp_run_once pf en DEFAULT_TIMEOUT cx) (run_loop pf en)
      else Some cx)"

definition xmpp_run ::
    "('x, 'n) platform \<Rightarrow> environ \<Rightarrow> ('x, 'n) xmpp_ctx_t \<Rightarrow> ('x, 'n) xmpp_ctx_t option" where
  "xmpp_run pf en cx =
     (if loop_status cx \<noteq> XMPP_LOOP_NOTSTARTED then Some cx
      else run_loop pf en (cx\<lparr>loop_status := XMPP_LOOP_RUNNING\<rparr>))"

text \<open>\<open>xmpp_stop\<close>, as a user function calls it, and between two rounds.\<close>

definition stop_status :: "xmpp_loop_status_t \<Rightarrow> xmpp_loop_status_t" where
  "stop_status st = (if st = XMPP_LOOP_RUNNING then XMPP_LOOP_QUIT else st)"

definition xmpp_stop :: "conn \<Rightarrow> conn" where
  "xmpp_stop c = c\<lparr>ctx_status := stop_status (ctx_status c)\<rparr>"

definition ctx_stop :: "('x, 'n) xmpp_ctx_t \<Rightarrow> ('x, 'n) xmpp_ctx_t" where
  "ctx_stop cx = cx\<lparr>loop_status := stop_status (loop_status cx)\<rparr>"

subsection \<open>Contexts and connections\<close>

definition xmpp_ctx_new :: "mem \<Rightarrow> u64 list \<Rightarrow> 'n \<Rightarrow> ('x, 'n) xmpp_ctx_t option \<times> mem" where
  "xmpp_ctx_new m clock n =
     (case xmpp_alloc m of
        (False, m) \<Rightarrow> (None, m)
      | (True, m) \<Rightarrow> (Some \<lparr> loop_status = XMPP_LOOP_NOTSTARTED, ctx_mem = m, ctx_clock = clock, ctx_net = n,
          connlist = [] \<rparr>, m))"

text \<open>A new connection is the last of the list; one without a parser is not a session.\<close>

definition add_conn :: "char \<Rightarrow> ('x, 'n) platform \<Rightarrow> ('x, 'n) xmpp_ctx_t \<Rightarrow> (bool \<times> ('x, 'n) xmpp_ctx_t) option" where
  "add_conn junk pf cx = do {
     (r, m) \<leftarrow> xmpp_conn_new junk (loop_status cx) (ctx_clock cx) (xml_create pf) (ctx_mem cx);
     let cx = cx\<lparr>ctx_mem := m\<rparr>;
     (case r of
        None \<Rightarrow> Some (False, cx)
      | Some (parser, c) \<Rightarrow> do {
          parser \<leftarrow> parser;
          Some (True, cx\<lparr>connlist := connlist cx @
            [(parser, \<lparr> e_store = empty_store, e_mem = m, e_userdata = c \<rparr>)]\<rparr>) }) }"

end
