(* ===== verification/Handler_Lists.thy ===== *)
theory Handler_Lists
  imports Handlers
begin

section \<open>The handler lists as lists\<close>

text \<open>
  The abstraction of a chain of handler items to a list of its addresses and items, the effect of the
  operations of \<open>Handlers\<close> on it, and their properties.  A connection has a stanza list and a
  timed list in one store; \<open>conn_lists\<close> is the invariant that both are proper, disjoint lists in which
  a handler function occurs at most once.
\<close>

subsection \<open>Chains\<close>

type_synonym ('h, 'u) node = "nat \<times> ('h, 'u) handlist"

definition first_of :: "('h, 'u) node list \<Rightarrow> nat option \<Rightarrow> nat option" where
  "first_of xs e = (case xs of [] \<Rightarrow> e | (p, _) # _ \<Rightarrow> Some p)"

definition last_of :: "('h, 'u) node list \<Rightarrow> nat option \<Rightarrow> nat option" where
  "last_of xs e = (if xs = [] then e else Some (fst (last xs)))"

lemma first_of_simps [simp]: "first_of [] e = e" "first_of ((p, i) # xs) e = Some p"
  by (simp_all add: first_of_def)

lemma first_of_append [simp]: "first_of (xs @ ys) e = first_of xs (first_of ys e)"
  by (auto simp: first_of_def split: list.splits)

lemma last_of_simps [simp]:
  "last_of [] e = e" "last_of (xs @ [x]) e = Some (fst x)" "last_of (x # xs) e = last_of xs (Some (fst x))"
  by (auto simp: last_of_def)

fun chain :: "(nat \<Rightarrow> ('h, 'u) handlist option) \<Rightarrow> ('h, 'u) node list \<Rightarrow> nat option \<Rightarrow> bool" where
  "chain it [] e \<longleftrightarrow> True"
| "chain it ((p, i) # xs) e \<longleftrightarrow> it p = Some (i\<lparr>hl_next := first_of xs e\<rparr>) \<and> chain it xs e"

lemma chain_append [simp]: "chain it (xs @ ys) e \<longleftrightarrow> chain it xs (first_of ys e) \<and> chain it ys e"
  by (induction it xs e rule: chain.induct) auto

lemma chain_cong: "(\<And>p. p \<in> fst ` set xs \<Longrightarrow> it' p = it p) \<Longrightarrow> chain it' xs e \<longleftrightarrow> chain it xs e"
  by (induction it xs e rule: chain.induct) auto

lemma chain_upd [simp]: "p \<notin> fst ` set xs \<Longrightarrow> chain (it(p := v)) xs e \<longleftrightarrow> chain it xs e"
  by (rule chain_cong) auto

definition funs :: "('h, 'u) node list \<Rightarrow> 'h list" where
  "funs xs = map (hl_handler \<circ> snd) xs"

lemma funs_simps [simp]:
  "funs [] = []" "funs (x # xs) = hl_handler (snd x) # funs xs" "funs (xs @ ys) = funs xs @ funs ys"
  by (simp_all add: funs_def)

subsection \<open>Searching and appending\<close>

lemma find_handler_absent:
  "chain (hc_items c) xs None \<Longrightarrow> h \<notin> set (funs xs) \<Longrightarrow>
    find_handler c h prev (first_of xs None) = Some (last_of xs prev, None)"
proof (induction xs arbitrary: prev)
  case (Cons x xs)
  then show ?case by (cases x) (subst find_handler.simps, auto)
qed (simp add: find_handler.simps)

lemma find_handler_present:
  "chain (hc_items c) (xs @ (p, i) # ys) e \<Longrightarrow> hl_handler i \<notin> set (funs xs) \<Longrightarrow>
    find_handler c (hl_handler i) prev (first_of (xs @ (p, i) # ys) e) = Some (last_of xs prev, Some p)"
proof (induction xs arbitrary: prev)
  case Nil
  then show ?case by (simp add: find_handler.simps [of c "hl_handler i" _ "Some p"])
next
  case (Cons x xs)
  then show ?case by (cases x) (subst find_handler.simps, auto)
qed

lemma last_item_chain:
  "chain (hc_items c) (xs @ [(p, i)]) None \<Longrightarrow> Option.bind (first_of (xs @ [(p, i)]) None) (last_item c) = Some p"
proof (induction xs)
  case Nil
  then show ?case by (simp add: last_item.simps [of c p])
next
  case (Cons x xs)
  obtain q j where x: "x = (q, j)" by (cases x)
  obtain r where r: "first_of (xs @ [(p, i)]) None = Some r" by (cases xs) auto
  show ?case using Cons r by (simp add: x last_item.simps [of c q])
qed

lemma put_item_simps [simp]:
  "hc_items (put_item c p i) = (hc_items c)(p := Some i)" "hc_fresh (put_item c p i) = hc_fresh c"
  "handlers (put_item c p i) = handlers c" "timed_handlers (put_item c p i) = timed_handlers c"
  "hc_mem (put_item c p i) = hc_mem c" "authenticated (put_item c p i) = authenticated c"
  "id_handlers (put_item c p i) = id_handlers c" "conn_state (put_item c p i) = conn_state c"
  "hconn.more (put_item c p i) = hconn.more c"
  by (simp_all add: put_item_def)

lemma free_item_simps [simp]:
  "hc_items (free_item c p) = (hc_items c)(p := None)" "hc_fresh (free_item c p) = hc_fresh c"
  "handlers (free_item c p) = handlers c" "timed_handlers (free_item c p) = timed_handlers c"
  "hc_mem (free_item c p) = hc_mem c" "authenticated (free_item c p) = authenticated c"
  "id_handlers (free_item c p) = id_handlers c" "conn_state (free_item c p) = conn_state c"
  "hconn.more (free_item c p) = hconn.more c"
  by (simp_all add: free_item_def)

lemma append_item_chain:
  assumes "chain (hc_items c) xs None" "distinct (map fst xs)" "p \<notin> fst ` set xs"
    "hc_items c p = Some (i\<lparr>hl_next := None\<rparr>)"
  shows "\<exists>it. append_item c (first_of xs None) p = Some (first_of (xs @ [(p, i)]) None, c\<lparr>hc_items := it\<rparr>) \<and>
    chain it (xs @ [(p, i)]) None \<and> (\<forall>q. q \<notin> fst ` set xs \<longrightarrow> it q = hc_items c q)"
proof (cases xs rule: rev_cases)
  case Nil
  then show ?thesis using assms by (auto simp: append_item_def intro: exI [of _ "hc_items c"])
next
  case (snoc ys x)
  obtain q j where x: "x = (q, j)" by (cases x)
  obtain r where r: "first_of xs None = Some r" using snoc x by (cases ys) auto
  have l: "last_item c r = Some q" using last_item_chain [of c ys q j] assms(1) r snoc x by simp
  have q: "q \<notin> fst ` set ys" using assms(2) snoc x by simp
  have pq: "p \<noteq> q" using assms(3) snoc x by auto
  have p: "p \<notin> fst ` set ys" using assms(3) snoc by auto
  have r': "first_of ys (Some q) = Some r" using r snoc x by simp
  show ?thesis
    using assms q p pq
    by (intro exI [of _ "(hc_items c)(q := Some (j\<lparr>hl_next := Some p\<rparr>))"])
      (auto simp: append_item_def r' l snoc x put_item_def)
qed

subsection \<open>Unlinking\<close>

lemma unlink_chain:
  assumes "chain (hc_items c) (xs @ (p, i) # ys) None" "distinct (map fst (xs @ (p, i) # ys))"
  shows "\<exists>it. (case last_of xs None of Some q \<Rightarrow> set_next c q (first_of ys None) | None \<Rightarrow> Some c0) =
      Some (if xs = [] then c0 else c\<lparr>hc_items := it\<rparr>) \<and> (xs = [] \<longrightarrow> it = hc_items c) \<and>
    chain (it(p := None)) (xs @ ys) None \<and> it p = hc_items c p \<and> (\<forall>q. q \<notin> fst ` set xs \<longrightarrow> it q = hc_items c q)"
proof (cases xs rule: rev_cases)
  case Nil
  then show ?thesis using assms by (auto intro!: exI [of _ "hc_items c"])
next
  case (snoc zs x)
  obtain q j where x: "x = (q, j)" by (cases x)
  show ?thesis
    using assms snoc
    by (intro exI [of _ "(hc_items c)(q := Some (j\<lparr>hl_next := first_of ys None\<rparr>))"])
      (auto simp: x set_next_def put_item_def)
qed

subsection \<open>The invariant\<close>

text \<open>Two disjoint lists in one store, with their heads; it is symmetric in the lists.\<close>

definition two_lists ::
    "(nat \<Rightarrow> ('h, 'u) handlist option) \<Rightarrow> nat \<Rightarrow> nat option \<Rightarrow> nat option \<Rightarrow>
      ('h, 'u) node list \<Rightarrow> ('h, 'u) node list \<Rightarrow> bool" where
  "two_lists it n a b xs ys \<longleftrightarrow>
     a = first_of xs None \<and> b = first_of ys None \<and> chain it xs None \<and> chain it ys None \<and>
     distinct (map fst xs) \<and> distinct (map fst ys) \<and> fst ` set xs \<inter> fst ` set ys = {} \<and>
     distinct (funs xs) \<and> distinct (funs ys) \<and> (\<forall>p \<in> fst ` set xs \<union> fst ` set ys. p < n)"

definition conn_lists :: "('h, 'u, 'z) hconn_scheme \<Rightarrow> ('h, 'u) node list \<Rightarrow> ('h, 'u) node list \<Rightarrow> bool" where
  "conn_lists c hs ts \<longleftrightarrow> two_lists (hc_items c) (hc_fresh c) (handlers c) (timed_handlers c) hs ts"

text \<open>The item with a handler function is removed from a list.\<close>

definition without :: "'h \<Rightarrow> ('h, 'u) node list \<Rightarrow> ('h, 'u) node list" where
  "without h xs = filter (\<lambda>x. hl_handler (snd x) \<noteq> h) xs"

lemma without_absent [simp]: "h \<notin> set (funs xs) \<Longrightarrow> without h xs = xs"
  by (auto simp: without_def funs_def intro!: filter_True)

lemma without_present:
  "distinct (funs (xs @ (p, i) # ys)) \<Longrightarrow> without (hl_handler i) (xs @ (p, i) # ys) = xs @ ys"
  using without_absent [of "hl_handler i" xs] without_absent [of "hl_handler i" ys]
  by (simp add: without_def)

lemma funs_split: "h \<in> set (funs xs) \<Longrightarrow> \<exists>ys p i zs. xs = ys @ (p, i) # zs \<and> hl_handler i = h \<and> h \<notin> set (funs ys)"
proof (induction xs)
  case (Cons x xs)
  show ?case
  proof (cases "hl_handler (snd x) = h")
    case True
    then have "x # xs = [] @ (fst x, snd x) # xs \<and> hl_handler (snd x) = h \<and> h \<notin> set (funs [])" by simp
    then show ?thesis by blast
  next
    case False
    then obtain ys p i zs where "xs = ys @ (p, i) # zs" "hl_handler i = h" "h \<notin> set (funs ys)"
      using Cons by auto
    then show ?thesis using False by (intro exI [of _ "x # ys"]) auto
  qed
qed simp

lemma two_lists_sym: "two_lists it n a b xs ys \<Longrightarrow> two_lists it n b a ys xs"
  unfolding two_lists_def by auto

lemma chain_other:
  "chain it xs e \<Longrightarrow> \<forall>q. q \<notin> A \<longrightarrow> it' q = it q \<Longrightarrow> fst ` set xs \<inter> A = {} \<Longrightarrow> chain it' xs e"
  by (subst chain_cong [of xs it' it]) auto

lemma two_lists_add:
  assumes "two_lists it n a b xs ys" "hl_handler i \<notin> set (funs xs)" "chain it' (xs @ [(n, i)]) None"
    "\<forall>q. q \<notin> insert n (fst ` set xs) \<longrightarrow> it' q = it q"
  shows "two_lists it' (Suc n) (first_of (xs @ [(n, i)]) None) b (xs @ [(n, i)]) ys"
proof -
  have l: "b = first_of ys None" "chain it ys None" "distinct (map fst xs)" "distinct (map fst ys)"
    "fst ` set xs \<inter> fst ` set ys = {}" "distinct (funs xs)" "distinct (funs ys)"
    "\<forall>q \<in> fst ` set xs \<union> fst ` set ys. q < n"
    using assms(1) unfolding two_lists_def by blast+
  have n: "n \<notin> fst ` set xs" "n \<notin> fst ` set ys" using l(8) by blast+
  have c: "chain it' ys None"
    by (rule chain_other [OF l(2) assms(4)]) (use l(5) n in blast)
  have "distinct (map fst (xs @ [(n, i)]))" "distinct (funs (xs @ [(n, i)]))"
    using l(3,6) n assms(2) by simp_all
  moreover have "fst ` set (xs @ [(n, i)]) \<inter> fst ` set ys = {}" using l(5) n by simp
  moreover have "\<forall>q \<in> fst ` set (xs @ [(n, i)]) \<union> fst ` set ys. q < Suc n" using l(8) less_Suc_eq by auto
  ultimately show ?thesis unfolding two_lists_def using l(1,4,7) c assms(3) by blast
qed

lemma two_lists_del:
  assumes "two_lists it n a b (xs @ (p, i) # zs) ys" "chain it' (xs @ zs) None"
    "\<forall>q. q \<notin> insert p (fst ` set xs) \<longrightarrow> it' q = it q"
  shows "two_lists it' n (first_of (xs @ zs) None) b (xs @ zs) ys"
proof -
  have l: "b = first_of ys None" "chain it ys None" "distinct (map fst (xs @ (p, i) # zs))" "distinct (map fst ys)"
    "fst ` set (xs @ (p, i) # zs) \<inter> fst ` set ys = {}" "distinct (funs (xs @ (p, i) # zs))" "distinct (funs ys)"
    "\<forall>q \<in> fst ` set (xs @ (p, i) # zs) \<union> fst ` set ys. q < n"
    using assms(1) unfolding two_lists_def by blast+
  have c: "chain it' ys None"
  proof (rule chain_other [OF l(2) assms(3)])
    show "fst ` set ys \<inter> insert p (fst ` set xs) = {}" using l(5) by auto
  qed
  have "distinct (map fst (xs @ zs))" "distinct (funs (xs @ zs))" using l(3,6) by simp_all
  moreover have "fst ` set (xs @ zs) \<inter> fst ` set ys = {}" using l(5) by auto
  moreover have "\<forall>q \<in> fst ` set (xs @ zs) \<union> fst ` set ys. q < n" using l(8) by auto
  ultimately show ?thesis unfolding two_lists_def using l(1,4,7) c assms(2) by blast
qed

lemma two_lists_find:
  assumes "two_lists (hc_items c) n a b xs ys"
  obtains (present) us p i zs where "xs = us @ (p, i) # zs" "hl_handler i = h" "h \<notin> set (funs us)"
      "find_handler c h None a = Some (last_of us None, Some p)"
      "hc_items c p = Some (i\<lparr>hl_next := first_of zs None\<rparr>)" "without h xs = us @ zs" "h \<in> set (funs xs)"
    | (absent) "h \<notin> set (funs xs)" "find_handler c h None a = Some (last_of xs None, None)"
proof (cases "h \<in> set (funs xs)")
  case True
  then obtain us p i zs where s: "xs = us @ (p, i) # zs" "hl_handler i = h" "h \<notin> set (funs us)"
    using funs_split by metis
  have l: "a = first_of xs None" "chain (hc_items c) (us @ (p, i) # zs) None" "distinct (funs (us @ (p, i) # zs))"
    using assms unfolding two_lists_def s(1) by blast+
  show ?thesis
  proof (rule present [OF s])
    show "find_handler c h None a = Some (last_of us None, Some p)"
      using find_handler_present [OF l(2)] s(2,3) unfolding l(1) s(1) by blast
    show "hc_items c p = Some (i\<lparr>hl_next := first_of zs None\<rparr>)" using l(2) by simp
    show "without h xs = us @ zs" using without_present [OF l(3)] unfolding s by simp
    show "h \<in> set (funs xs)" by (rule True)
  qed
next
  case False
  show ?thesis
  proof (rule absent [OF False])
    have "a = first_of xs None" "chain (hc_items c) xs None" using assms unfolding two_lists_def by blast+
    then show "find_handler c h None a = Some (last_of xs None, None)" using find_handler_absent [OF _ False] by simp
  qed
qed

definition blank_handler :: "bool \<Rightarrow> 'h \<Rightarrow> 'u \<Rightarrow> handkey \<Rightarrow> ('h, 'u) handlist" where
  "blank_handler user h u k = \<lparr> hl_user_handler = user, hl_handler = h, hl_userdata = u, hl_enabled = False,
     hl_next = None, hl_key = k \<rparr>"

subsection \<open>Adding and deleting\<close>

lemma mem_update [simp]: "hc_mem c = m \<Longrightarrow> c\<lparr>hc_mem := m\<rparr> = c"
  by (cases c) simp

lemma conn_alloc_ok [simp]: "hc_mem c = [] \<Longrightarrow> conn_alloc c = (True, c)"
  by (simp add: conn_alloc_def)

lemma conn_strdup_ok [simp]: "hc_mem c = [] \<Longrightarrow> conn_strdup c s = (True, c)"
  by (simp add: conn_strdup_def split: option.splits)

text \<open>Appending a new item to either list, and unlinking an item from it.\<close>

lemma append_new:
  assumes "two_lists (hc_items c) (hc_fresh c) a b xs ys" "hl_handler i \<notin> set (funs xs)" "hl_next i = None"
  shows "\<exists>it. append_item ((put_item c (hc_fresh c) i)\<lparr>hc_fresh := Suc (hc_fresh c)\<rparr>) a (hc_fresh c) =
      Some (first_of (xs @ [(hc_fresh c, i)]) None, c\<lparr>hc_fresh := Suc (hc_fresh c), hc_items := it\<rparr>) \<and>
    two_lists it (Suc (hc_fresh c)) (first_of (xs @ [(hc_fresh c, i)]) None) b (xs @ [(hc_fresh c, i)]) ys"
proof -
  let ?c = "(put_item c (hc_fresh c) i)\<lparr>hc_fresh := Suc (hc_fresh c)\<rparr>"
  have n: "hc_fresh c \<notin> fst ` set xs" using assms(1) unfolding two_lists_def by blast
  have a: "a = first_of xs None" "chain (hc_items ?c) xs None" "distinct (map fst xs)"
    using assms(1) n unfolding two_lists_def by auto
  have i: "i = i\<lparr>hl_next := None\<rparr>" using assms(3) by (cases i) simp
  then have "hc_items ?c (hc_fresh c) = Some (i\<lparr>hl_next := None\<rparr>)" by simp
  then obtain it where it: "append_item ?c (first_of xs None) (hc_fresh c) =
      Some (first_of (xs @ [(hc_fresh c, i)]) None, ?c\<lparr>hc_items := it\<rparr>)"
    "chain it (xs @ [(hc_fresh c, i)]) None" "\<forall>q. q \<notin> fst ` set xs \<longrightarrow> it q = hc_items ?c q"
    using append_item_chain [OF a(2,3) n] by blast
  have "two_lists it (Suc (hc_fresh c)) (first_of (xs @ [(hc_fresh c, i)]) None) b (xs @ [(hc_fresh c, i)]) ys"
    by (rule two_lists_add [OF assms(1,2) it(2)]) (use it(3) in auto)
  then show ?thesis using it(1) a(1) by (auto simp: put_item_def)
qed

lemma unlink_item:
  assumes "two_lists (hc_items c) n a b (us @ (p, i) # zs) ys"
  shows "\<exists>it. (case last_of us None of Some q \<Rightarrow> set_next c q (first_of zs None) | None \<Rightarrow> Some c0) =
      Some (if us = [] then c0 else c\<lparr>hc_items := it\<rparr>) \<and> (us = [] \<longrightarrow> it = hc_items c) \<and>
    two_lists (it(p := None)) n (first_of (us @ zs) None) b (us @ zs) ys"
proof -
  have "chain (hc_items c) (us @ (p, i) # zs) None" "distinct (map fst (us @ (p, i) # zs))"
    using assms unfolding two_lists_def by blast+
  from unlink_chain [OF this, of c0] obtain it where it:
    "(case last_of us None of Some q \<Rightarrow> set_next c q (first_of zs None) | None \<Rightarrow> Some c0) =
      Some (if us = [] then c0 else c\<lparr>hc_items := it\<rparr>)" "us = [] \<longrightarrow> it = hc_items c"
    "chain (it(p := None)) (us @ zs) None" "\<forall>q. q \<notin> fst ` set us \<longrightarrow> it q = hc_items c q" by blast
  have "two_lists (it(p := None)) n (first_of (us @ zs) None) b (us @ zs) ys"
    by (rule two_lists_del [OF assms it(3)]) (use it(4) in auto)
  then show ?thesis using it by blast
qed

definition same_rest :: "('h, 'u, 'z) hconn_scheme \<Rightarrow> ('h, 'u, 'z) hconn_scheme \<Rightarrow> bool" where
  "same_rest c c' \<longleftrightarrow> hc_mem c' = hc_mem c \<and> authenticated c' = authenticated c \<and> conn_state c' = conn_state c \<and>
     id_handlers c' = id_handlers c \<and> hconn.more c' = hconn.more c"

lemma same_rest_refl [simp]: "same_rest c c"
  by (simp add: same_rest_def)

lemma add_handler_lists:
  assumes "conn_lists c hs ts" "hc_mem c = []"
  shows "\<exists>c'. handler_add_common c h ns name ty u user = Some c' \<and> same_rest c c' \<and>
    conn_lists c' (if h \<in> set (funs hs) then hs
      else hs @ [(hc_fresh c, blank_handler user h u (Filter_key ns name ty))]) ts"
  using assms(1) [unfolded conn_lists_def]
proof (cases rule: two_lists_find [of _ _ _ _ _ _ h])
  case (present us p i zs)
  then show ?thesis using assms by (simp add: handler_add_common_def conn_lists_def)
next
  case absent
  let ?i = "blank_handler user h u (Filter_key ns name ty)"
  obtain it where it: "append_item ((put_item c (hc_fresh c) ?i)\<lparr>hc_fresh := Suc (hc_fresh c)\<rparr>) (handlers c) (hc_fresh c) =
      Some (first_of (hs @ [(hc_fresh c, ?i)]) None, c\<lparr>hc_fresh := Suc (hc_fresh c), hc_items := it\<rparr>)"
    "two_lists it (Suc (hc_fresh c)) (first_of (hs @ [(hc_fresh c, ?i)]) None) (timed_handlers c) (hs @ [(hc_fresh c, ?i)]) ts"
    using append_new [of c "handlers c" "timed_handlers c" hs ts ?i] assms(1) absent
    unfolding conn_lists_def by (auto simp: blank_handler_def)
  then show ?thesis using assms(2) absent
    by (simp add: handler_add_common_def new_item_def conn_lists_def blank_handler_def same_rest_def)
qed

lemma add_timed_lists:
  assumes "conn_lists c hs ts" "hc_mem c = []"
  shows "\<exists>c' now. timed_handler_add_common c h period u user = Some c' \<and> same_rest c c' \<and>
    conn_lists c' hs (if h \<in> set (funs ts) then ts
      else ts @ [(hc_fresh c, blank_handler user h u (Timed_key period now))])"
  using two_lists_sym [OF assms(1) [unfolded conn_lists_def]]
proof (cases rule: two_lists_find [of _ _ _ _ _ _ h])
  case (present us p i zs)
  then show ?thesis using assms by (simp add: timed_handler_add_common_def conn_lists_def)
next
  case absent
  obtain now c1 where ts: "time_stamp c = (now, c1)" by (cases "time_stamp c")
  then have c1: "c1 = c\<lparr>hc_clock := hc_clock c1\<rparr>"
    by (cases c) (auto simp: time_stamp_def split: list.splits)
  let ?i = "blank_handler user h u (Timed_key period now)"
  have l: "two_lists (hc_items c1) (hc_fresh c1) (timed_handlers c1) (handlers c1) ts hs"
    "hc_fresh c1 = hc_fresh c" "timed_handlers c1 = timed_handlers c" "handlers c1 = handlers c" "same_rest c c1"
    using two_lists_sym [OF assms(1) [unfolded conn_lists_def]] by (subst c1, simp add: same_rest_def)+
  obtain it where it: "append_item ((put_item c1 (hc_fresh c1) ?i)\<lparr>hc_fresh := Suc (hc_fresh c1)\<rparr>) (timed_handlers c1) (hc_fresh c1) =
      Some (first_of (ts @ [(hc_fresh c1, ?i)]) None, c1\<lparr>hc_fresh := Suc (hc_fresh c1), hc_items := it\<rparr>)"
    "two_lists it (Suc (hc_fresh c1)) (first_of (ts @ [(hc_fresh c1, ?i)]) None) (handlers c1) (ts @ [(hc_fresh c1, ?i)]) hs"
    using append_new [OF l(1), of ?i] absent by (auto simp: blank_handler_def)
  then show ?thesis using assms(2) absent l(2-5) ts two_lists_sym [OF it(2)]
    by (auto simp: timed_handler_add_common_def new_item_def conn_lists_def blank_handler_def same_rest_def)
qed

lemma delete_handler_lists:
  assumes "conn_lists c hs ts"
  shows "\<exists>c'. xmpp_handler_delete c h = Some c' \<and> same_rest c c' \<and> conn_lists c' (without h hs) ts"
  using assms [unfolded conn_lists_def]
proof (cases rule: two_lists_find [of _ _ _ _ _ _ h])
  case (present us p i zs)
  obtain it where "(case last_of us None of Some q \<Rightarrow> set_next c q (first_of zs None)
      | None \<Rightarrow> Some (c\<lparr>handlers := first_of zs None\<rparr>)) =
      Some (if us = [] then c\<lparr>handlers := first_of zs None\<rparr> else c\<lparr>hc_items := it\<rparr>)" "us = [] \<longrightarrow> it = hc_items c"
    "two_lists (it(p := None)) (hc_fresh c) (first_of (us @ zs) None) (timed_handlers c) (us @ zs) ts"
    using unlink_item [of c "hc_fresh c" "handlers c" "timed_handlers c" us p i zs ts] assms present(1)
    unfolding conn_lists_def by blast
  moreover have "us \<noteq> [] \<Longrightarrow> last_of us None = Some (fst (last us))" by (simp add: last_of_def)
  moreover have "us \<noteq> [] \<Longrightarrow> handlers c = first_of (us @ zs) None"
    using assms present(1) unfolding conn_lists_def two_lists_def by (cases us) auto
  ultimately show ?thesis using present
    by (cases "us = []") (auto simp: xmpp_handler_delete_def conn_lists_def same_rest_def)
next
  case absent
  then show ?thesis using assms by (simp add: xmpp_handler_delete_def)
qed

lemma delete_timed_lists:
  assumes "conn_lists c hs ts"
  shows "\<exists>c'. xmpp_timed_handler_delete c h = Some c' \<and> same_rest c c' \<and> conn_lists c' hs (without h ts)"
  using two_lists_sym [OF assms [unfolded conn_lists_def]]
proof (cases rule: two_lists_find [of _ _ _ _ _ _ h])
  case (present us p i zs)
  obtain it where "(case last_of us None of Some q \<Rightarrow> set_next c q (first_of zs None)
      | None \<Rightarrow> Some (c\<lparr>timed_handlers := first_of zs None\<rparr>)) =
      Some (if us = [] then c\<lparr>timed_handlers := first_of zs None\<rparr> else c\<lparr>hc_items := it\<rparr>)" "us = [] \<longrightarrow> it = hc_items c"
    "two_lists (it(p := None)) (hc_fresh c) (handlers c) (first_of (us @ zs) None) hs (us @ zs)"
    using unlink_item [of c "hc_fresh c" "timed_handlers c" "handlers c" us p i zs hs]
      two_lists_sym [OF assms [unfolded conn_lists_def]] present(1) two_lists_sym by blast
  moreover have "us \<noteq> [] \<Longrightarrow> last_of us None = Some (fst (last us))" by (simp add: last_of_def)
  moreover have "us \<noteq> [] \<Longrightarrow> timed_handlers c = first_of (us @ zs) None"
    using assms present(1) unfolding conn_lists_def two_lists_def by (cases us) auto
  ultimately show ?thesis using present
    by (cases "us = []") (auto simp: xmpp_timed_handler_delete_def conn_lists_def same_rest_def)
next
  case absent
  then show ?thesis using assms by (simp add: xmpp_timed_handler_delete_def)
qed

subsection \<open>The contract of a registry\<close>

text \<open>What both lists promise to their users: at most one item for a function, new ones at the end and disabled.\<close>

datatype ('a, 'h) reg_op = Reg_add 'a | Reg_del 'h

fun reg_run ::
    "('a \<Rightarrow> 'c \<Rightarrow> 'c option) \<Rightarrow> ('h \<Rightarrow> 'c \<Rightarrow> 'c option) \<Rightarrow> ('a, 'h) reg_op list \<Rightarrow> 'c \<Rightarrow> 'c option" where
  "reg_run add del [] c = Some c"
| "reg_run add del (Reg_add a # ops) c = Option.bind (add a c) (reg_run add del ops)"
| "reg_run add del (Reg_del h # ops) c = Option.bind (del h c) (reg_run add del ops)"

text \<open>The handler functions in the list after the operations.\<close>

fun reg_funs :: "('a \<Rightarrow> 'h) \<Rightarrow> ('a, 'h) reg_op list \<Rightarrow> 'h list \<Rightarrow> 'h list" where
  "reg_funs fn [] hs = hs"
| "reg_funs fn (Reg_add a # ops) hs = reg_funs fn ops (if fn a \<in> set hs then hs else hs @ [fn a])"
| "reg_funs fn (Reg_del h # ops) hs = reg_funs fn ops (filter (\<lambda>x. x \<noteq> h) hs)"

lemma funs_without: "funs (without h xs) = filter (\<lambda>x. x \<noteq> h) (funs xs)"
  by (induction xs) (auto simp: funs_def without_def)

locale handler_registry =
  fixes rep :: "'c \<Rightarrow> ('h, 'u) node list \<Rightarrow> bool"
    and add :: "'a \<Rightarrow> 'c \<Rightarrow> 'c option"
    and fn :: "'a \<Rightarrow> 'h"
    and del :: "'h \<Rightarrow> 'c \<Rightarrow> 'c option"
  assumes add: "rep c xs \<Longrightarrow> \<exists>c' p i. add a c = Some c' \<and> hl_handler i = fn a \<and> \<not> hl_enabled i \<and>
      rep c' (if fn a \<in> set (funs xs) then xs else xs @ [(p, i)])"
    and del: "rep c xs \<Longrightarrow> \<exists>c'. del h c = Some c' \<and> rep c' (without h xs)"
    and once: "rep c xs \<Longrightarrow> distinct (funs xs)"
begin

lemma run_names:
  assumes "rep c xs"
  shows "\<exists>c' ys. reg_run add del ops c = Some c' \<and> rep c' ys \<and> funs ys = reg_funs fn ops (funs xs) \<and> distinct (funs ys)"
  using assms
proof (induction ops arbitrary: c xs)
  case Nil
  then show ?case using once by auto
next
  case (Cons op ops)
  show ?case
  proof (cases op)
    case (Reg_add a)
    obtain c' p i where "add a c = Some c'" "hl_handler i = fn a"
      "rep c' (if fn a \<in> set (funs xs) then xs else xs @ [(p, i)])"
      using add [OF Cons.prems] by blast
    then show ?thesis using Cons.IH [of c' "if fn a \<in> set (funs xs) then xs else xs @ [(p, i)]"]
      by (cases "fn a \<in> set (funs xs)") (simp_all add: Reg_add)
  next
    case (Reg_del h)
    obtain c' where "del h c = Some c'" "rep c' (without h xs)" using del [OF Cons.prems] by blast
    then show ?thesis using Cons.IH [of c' "without h xs"] by (simp add: Reg_del funs_without)
  qed
qed

lemma add_then_del:
  assumes "rep c xs" "fn a \<notin> set (funs xs)"
  shows "\<exists>c1 c2. add a c = Some c1 \<and> del (fn a) c1 = Some c2 \<and> rep c2 xs"
proof -
  obtain c1 p i where c1: "add a c = Some c1" "hl_handler i = fn a" "rep c1 (xs @ [(p, i)])"
    using add [OF assms(1), of a] assms(2) by auto
  obtain c2 where "del (fn a) c1 = Some c2" "rep c2 (without (fn a) (xs @ [(p, i)]))"
    using del [OF c1(3)] by blast
  moreover have "without (fn a) (xs @ [(p, i)]) = xs"
    using without_present [of xs p i "[]"] once [OF c1(3)] c1(2) by simp
  ultimately show ?thesis using c1(1) by auto
qed

end

definition stanza_add ::
    "bool \<times> 'h \<times> string option \<times> string option \<times> string option \<times> 'u \<Rightarrow> ('h, 'u, 'z) hconn_scheme \<Rightarrow>
      ('h, 'u, 'z) hconn_scheme option" where
  "stanza_add a c = (case a of (user, h, ns, name, ty, u) \<Rightarrow>
     if user then xmpp_handler_add c h ns name ty u else handler_add c h ns name ty u)"

definition timed_add ::
    "bool \<times> 'h \<times> u64 \<times> 'u \<Rightarrow> ('h, 'u, 'z) hconn_scheme \<Rightarrow> ('h, 'u, 'z) hconn_scheme option" where
  "timed_add a c = (case a of (user, h, period, u) \<Rightarrow>
     if user then xmpp_timed_handler_add c h period u else handler_add_timed c h period u)"

lemma stanza_add_common: "stanza_add (user, h, ns, name, ty, u) c = handler_add_common c h ns name ty u user"
  by (simp add: stanza_add_def xmpp_handler_add_def handler_add_def)

lemma timed_add_common: "timed_add (user, h, period, u) c = timed_handler_add_common c h period u user"
  by (simp add: timed_add_def xmpp_timed_handler_add_def handler_add_timed_def)

interpretation stanza_reg: handler_registry "\<lambda>c hs. conn_lists c hs ts \<and> hc_mem c = []" stanza_add "\<lambda>a. fst (snd a)"
  "\<lambda>h c. xmpp_handler_delete c h"
proof (unfold_locales, goal_cases)
  case (1 c xs a)
  obtain user h ns name ty u where a: "a = (user, h, ns, name, ty, u)" by (cases a)
  obtain c' where c': "handler_add_common c h ns name ty u user = Some c'" "same_rest c c'"
    "conn_lists c' (if h \<in> set (funs xs) then xs
      else xs @ [(hc_fresh c, blank_handler user h u (Filter_key ns name ty))]) ts"
    using add_handler_lists [of c xs ts h ns name ty u user] 1 by blast
  show ?case
    by (intro exI [of _ c'] exI [of _ "hc_fresh c"] exI [of _ "blank_handler user h u (Filter_key ns name ty)"])
      (use c' 1 in \<open>simp add: a stanza_add_common same_rest_def blank_handler_def\<close>)
next
  case (2 c xs h)
  then show ?case using delete_handler_lists [of c xs ts h] by (auto simp: same_rest_def)
next
  case (3 c xs)
  then show ?case unfolding conn_lists_def two_lists_def by blast
qed

interpretation timed_reg: handler_registry "\<lambda>c ts. conn_lists c hs ts \<and> hc_mem c = []" timed_add "\<lambda>a. fst (snd a)"
  "\<lambda>h c. xmpp_timed_handler_delete c h"
proof (unfold_locales, goal_cases)
  case (1 c xs a)
  obtain user h period u where a: "a = (user, h, period, u)" by (cases a)
  obtain c' now where c': "timed_handler_add_common c h period u user = Some c'" "same_rest c c'"
    "conn_lists c' hs (if h \<in> set (funs xs) then xs
      else xs @ [(hc_fresh c, blank_handler user h u (Timed_key period now))])"
    using add_timed_lists [of c hs xs h period u user] 1 by blast
  show ?case
    by (intro exI [of _ c'] exI [of _ "hc_fresh c"] exI [of _ "blank_handler user h u (Timed_key period now)"])
      (use c' 1 in \<open>simp add: a timed_add_common same_rest_def blank_handler_def\<close>)
next
  case (2 c xs h)
  then show ?case using delete_timed_lists [of c hs xs h] by (auto simp: same_rest_def)
next
  case (3 c xs)
  then show ?case unfolding conn_lists_def two_lists_def by blast
qed

subsection \<open>Enabling\<close>

definition enable :: "('h, 'u) node \<Rightarrow> ('h, 'u) node" where
  "enable x = (fst x, (snd x)\<lparr>hl_enabled := True\<rparr>)"

lemma enable_simps [simp]:
  "fst (enable x) = fst x" "hl_handler (snd (enable x)) = hl_handler (snd x)" "hl_enabled (snd (enable x))"
  "hl_user_handler (snd (enable x)) = hl_user_handler (snd x)" "hl_key (snd (enable x)) = hl_key (snd x)"
  "hl_userdata (snd (enable x)) = hl_userdata (snd x)"
  by (simp_all add: enable_def)

lemma first_of_enable [simp]: "first_of (map enable xs) e = first_of xs e"
  by (cases xs) (auto simp: enable_def)

lemma funs_enable [simp]: "funs (map enable xs) = funs xs"
  by (simp add: funs_def)

lemma map_fst_enable [simp]: "map fst (map enable xs) = map fst xs" "fst ` enable ` A = fst ` A"
  by (simp_all add: image_image)

lemma enable_pair [simp]: "enable (p, i) = (p, i\<lparr>hl_enabled := True\<rparr>)"
  by (simp add: enable_def)

lemma enabled_next: "i\<lparr>hl_next := a, hl_enabled := b\<rparr> = i\<lparr>hl_enabled := b, hl_next := a\<rparr>"
  by (cases i) simp

lemma enable_loop_chain:
  assumes "chain (hc_items c) xs None" "distinct (map fst xs)"
  shows "\<exists>it. enable_loop (first_of xs None) c = Some (c\<lparr>hc_items := it\<rparr>) \<and> chain it (map enable xs) None \<and>
    (\<forall>q. q \<notin> fst ` set xs \<longrightarrow> it q = hc_items c q)"
  using assms
proof (induction xs arbitrary: c)
  case Nil
  then show ?case by (auto simp: enable_loop.simps intro: exI [of _ "hc_items c"])
next
  case (Cons x xs)
  obtain p i where x: "x = (p, i)" by (cases x)
  let ?i = "i\<lparr>hl_next := first_of xs None, hl_enabled := True\<rparr>"
  let ?c = "put_item c p ?i"
  have "chain (hc_items ?c) xs None" "distinct (map fst xs)" using Cons.prems x by auto
  from Cons.IH [OF this] obtain it where it: "enable_loop (first_of xs None) ?c = Some (?c\<lparr>hc_items := it\<rparr>)"
    "chain it (map enable xs) None" "\<forall>q. q \<notin> fst ` set xs \<longrightarrow> it q = hc_items ?c q" by blast
  have "hc_items c p = Some (i\<lparr>hl_next := first_of xs None\<rparr>)" using Cons.prems(1) x by simp
  then have "enable_loop (Some p) c = Some (c\<lparr>hc_items := it\<rparr>)"
    using it(1) by (simp add: enable_loop.simps [of "Some p"] put_item_def)
  moreover have "it p = Some ?i" using it(3) Cons.prems x by simp
  ultimately show ?case using it(2,3) x by (intro exI [of _ it]) (auto simp: enabled_next)
qed

lemma enable_lists:
  assumes "conn_lists c hs ts"
  shows "\<exists>c'. enable_loop (handlers c) c = Some c' \<and> conn_lists c' (map enable hs) ts \<and> same_rest c c'"
proof -
  have l: "handlers c = first_of hs None" "chain (hc_items c) hs None" "distinct (map fst hs)"
    "fst ` set hs \<inter> fst ` set ts = {}" "chain (hc_items c) ts None"
    using assms unfolding conn_lists_def two_lists_def by blast+
  obtain it where it: "enable_loop (first_of hs None) c = Some (c\<lparr>hc_items := it\<rparr>)" "chain it (map enable hs) None"
    "\<forall>q. q \<notin> fst ` set hs \<longrightarrow> it q = hc_items c q" using enable_loop_chain [OF l(2,3)] by blast
  have "chain it ts None" by (rule chain_other [OF l(5) it(3)]) (use l(4) in blast)
  then have "conn_lists (c\<lparr>hc_items := it\<rparr>) (map enable hs) ts"
    using assms it(2) unfolding conn_lists_def two_lists_def by (simp del: map_map)
  then show ?thesis using it(1) l(1) by (auto simp: same_rest_def)
qed

subsection \<open>Firing\<close>

text \<open>The specification of a round: the handlers of the list at its start, one after the other, where a one-shot
  handler is deleted by \<open>xmpp_handler_delete\<close>.\<close>

fun call_each ::
    "('h \<Rightarrow> 'u \<Rightarrow> ('h, 'u, 'z) hconn_scheme \<Rightarrow> (bool \<times> ('h, 'u, 'z) hconn_scheme) option) \<Rightarrow>
      (handkey \<Rightarrow> bool option) \<Rightarrow> ('h, 'u) handlist list \<Rightarrow> ('h, 'u, 'z) hconn_scheme \<Rightarrow> ('h, 'u, 'z) hconn_scheme option" where
  "call_each call test [] c = Some c"
| "call_each call test (i # rest) c =
     (if hl_user_handler i \<and> \<not> authenticated c then call_each call test rest c
      else do {
        match \<leftarrow> test (hl_key i);
        if match then do {
          (ret, c) \<leftarrow> call (hl_handler i) (hl_userdata i) c;
          c \<leftarrow> (if ret then Some c else xmpp_handler_delete c (hl_handler i));
          call_each call test rest c }
        else call_each call test rest c })"

text \<open>Handler functions that return, and that may add handlers and change anything but the stanza list otherwise.\<close>

definition additive ::
    "('h \<Rightarrow> 'u \<Rightarrow> ('h, 'u, 'z) hconn_scheme \<Rightarrow> (bool \<times> ('h, 'u, 'z) hconn_scheme) option) \<Rightarrow> bool" where
  "additive call \<longleftrightarrow> (\<forall>h u c hs ts. conn_lists c hs ts \<and> hc_mem c = [] \<longrightarrow>
     (\<exists>ret c' new ts'. call h u c = Some (ret, c') \<and> hc_mem c' = [] \<and> conn_lists c' (hs @ new) ts' \<and>
       (\<forall>x \<in> set new. \<not> hl_enabled (snd x))))"

lemma delete_at:
  assumes "conn_lists c (us @ (p, i) # zs) ts"
  shows "\<exists>c2. xmpp_handler_delete c (hl_handler i) = Some c2 \<and> conn_lists c2 (us @ zs) ts \<and> same_rest c c2 \<and>
    (case last_of us None of
       None \<Rightarrow> c2 = free_item (c\<lparr>handlers := first_of zs None\<rparr>) p
     | Some q \<Rightarrow> (\<exists>c3. set_next c q (first_of zs None) = Some c3 \<and> c2 = free_item c3 p))"
proof -
  have l: "handlers c = first_of (us @ (p, i) # zs) None" "chain (hc_items c) (us @ (p, i) # zs) None"
    "distinct (funs (us @ (p, i) # zs))" using assms unfolding conn_lists_def two_lists_def by blast+
  obtain c2 where c2: "xmpp_handler_delete c (hl_handler i) = Some c2" "same_rest c c2"
    "conn_lists c2 (without (hl_handler i) (us @ (p, i) # zs)) ts"
    using delete_handler_lists [OF assms, of "hl_handler i"] by blast
  have "find_handler c (hl_handler i) None (handlers c) = Some (last_of us None, Some p)"
    unfolding l(1) by (rule find_handler_present [OF l(2)]) (use l(3) in simp)
  then show ?thesis using c2 l(2) without_present [OF l(3)]
    by (auto simp: xmpp_handler_delete_def split: option.splits bind_splits)
qed

lemma fire_loop_disabled:
  "chain (hc_items c) new None \<Longrightarrow> \<forall>x \<in> set new. \<not> hl_enabled (snd x) \<Longrightarrow>
    fire_loop call test prev (first_of new None) c = Some c"
proof (induction new arbitrary: prev)
  case (Cons x new)
  obtain p i where x: "x = (p, i)" by (cases x)
  show ?case using Cons by (simp add: x fire_loop.simps [of call test _ "Some p" c])
qed (simp add: fire_loop.simps)

lemma lists_chain:
  "conn_lists c (us @ (p, i) # zs) ts \<Longrightarrow> hc_items c p = Some (i\<lparr>hl_next := first_of zs None\<rparr>)"
  "conn_lists c hs ts \<Longrightarrow> chain (hc_items c) hs None"
  unfolding conn_lists_def two_lists_def by auto

lemma fire_loop_snapshot:
  assumes "additive call"
  shows "conn_lists c (us @ todo @ new) ts \<Longrightarrow> hc_mem c = [] \<Longrightarrow> \<forall>x \<in> set todo. hl_enabled (snd x) \<Longrightarrow>
    \<forall>x \<in> set new. \<not> hl_enabled (snd x) \<Longrightarrow>
    fire_loop call test (last_of us None) (first_of (todo @ new) None) c = call_each call test (map snd todo) c"
proof (induction todo arbitrary: us new ts c)
  case Nil
  then show ?case using fire_loop_disabled [of c new call test "last_of us None"] lists_chain(2) [OF Nil(1)] by simp
next
  case (Cons x todo)
  obtain p i where x: "x = (p, i)" by (cases x)
  have it: "hc_items c p = Some (i\<lparr>hl_next := first_of (todo @ new) None\<rparr>)"
    using lists_chain(1) [of c us p i "todo @ new"] Cons.prems(1) x by simp
  have en: "hl_enabled i" "\<forall>x \<in> set todo. hl_enabled (snd x)" using Cons.prems(3) x by simp_all
  have skip: "fire_loop call test (Some p) (first_of (todo @ new) None) c = call_each call test (map snd todo) c"
    using Cons.IH [of c "us @ [x]" new ts] Cons.prems en x by simp
  note step = fire_loop.simps [of call test _ "Some p" c]
  show ?case
  proof (cases "hl_user_handler i \<and> \<not> authenticated c \<or> test (hl_key i) \<noteq> Some True")
    case True
    then show ?thesis using it en(1) skip x
      by (cases "test (hl_key i)") (auto simp: step)
  next
    case False
    obtain ret c' new' ts' where c': "call (hl_handler i) (hl_userdata i) c = Some (ret, c')" "hc_mem c' = []"
      "conn_lists c' ((us @ (p, i) # todo @ new) @ new') ts'" "\<forall>x \<in> set new'. \<not> hl_enabled (snd x)"
      using assms Cons.prems(1,2) x unfolding additive_def by force
    have it': "hc_items c' p = Some (i\<lparr>hl_next := first_of (todo @ new @ new') None\<rparr>)"
      using lists_chain(1) [of c' us p i "todo @ new @ new'"] c'(3) by simp
    have nw: "\<forall>x \<in> set (new @ new'). \<not> hl_enabled (snd x)" using Cons.prems(4) c'(4) by auto
    show ?thesis
    proof (cases ret)
      case True
      have "fire_loop call test (Some p) (first_of (todo @ new @ new') None) c' = call_each call test (map snd todo) c'"
        using Cons.IH [of c' "us @ [x]" "new @ new'" ts'] c' en nw x by simp
      then show ?thesis using False True it en(1) c'(1) it' x by (auto simp: step)
    next
      case ret: False
      obtain c2 where c2: "xmpp_handler_delete c' (hl_handler i) = Some c2" "conn_lists c2 (us @ todo @ new @ new') ts'"
        "same_rest c' c2"
        "case last_of us None of
           None \<Rightarrow> c2 = free_item (c'\<lparr>handlers := first_of (todo @ new @ new') None\<rparr>) p
         | Some q \<Rightarrow> (\<exists>c3. set_next c' q (first_of (todo @ new @ new') None) = Some c3 \<and> c2 = free_item c3 p)"
        using delete_at [of c' us p i "todo @ new @ new'" ts'] c'(3) by auto
      have rest: "fire_loop call test (last_of us None) (first_of (todo @ new @ new') None) c2 =
          call_each call test (map snd todo) c2"
        using Cons.IH [of c2 us "new @ new'" ts'] c2 c'(2) en nw by (simp add: same_rest_def)
      show ?thesis
      proof (cases us rule: rev_cases)
        case Nil
        then show ?thesis using False ret it en(1) c'(1) it' x c2 rest by (auto simp: step)
      next
        case (snoc vs y)
        obtain q j where y: "y = (q, j)" by (cases y)
        have "hc_items c2 q = Some (j\<lparr>hl_next := first_of (todo @ new @ new') None\<rparr>)"
          using lists_chain(1) [of c2 vs q j "todo @ new @ new'"] c2(2) snoc y by simp
        then show ?thesis using False ret it en(1) c'(1) it' x c2 rest snoc y by (auto simp: step)
      qed
    qed
  qed
qed

subsection \<open>Properties\<close>

text \<open>
  Claim C11.  Operations on the handler lists never touch a freed item, and implement an ordered set of functions:
  adding a function that is present changes nothing, a new one goes to the end, and a deletion removes it; so it is
  for the stanza handlers and, independently, for the timed ones.
\<close>

theorem handler_ops_refine:
  assumes "conn_lists c hs ts" "hc_mem c = []"
  shows "(\<exists>c' hs'. reg_run stanza_add (\<lambda>h c. xmpp_handler_delete c h) ops c = Some c' \<and> conn_lists c' hs' ts \<and>
      funs hs' = reg_funs (\<lambda>a. fst (snd a)) ops (funs hs)) \<and>
    (\<exists>c' ts'. reg_run timed_add (\<lambda>h c. xmpp_timed_handler_delete c h) tops c = Some c' \<and> conn_lists c' hs ts' \<and>
      funs ts' = reg_funs (\<lambda>a. fst (snd a)) tops (funs ts))"
  using stanza_reg.run_names [of c hs ts ops] timed_reg.run_names [of c hs ts tops] assms by blast

definition sample_conn :: "(nat, unit) hconn" where
  "sample_conn = \<lparr>
     hc_items = (\<lambda>_. None)(0 := Some \<lparr> hl_user_handler = False, hl_handler = 10, hl_userdata = (),
         hl_enabled = False, hl_next = Some 1, hl_key = Filter_key None None None \<rparr>,
       1 := Some \<lparr> hl_user_handler = False, hl_handler = 11, hl_userdata = (),
         hl_enabled = False, hl_next = None, hl_key = Filter_key None None None \<rparr>),
     hc_fresh = 2, hc_mem = [], hc_clock = [], conn_state = XMPP_STATE_CONNECTED, authenticated = True,
     timed_handlers = None, id_handlers = fresh_table 4 False, handlers = Some 0 \<rparr>"

definition sample_nodes :: "(nat, unit) node list" where
  "sample_nodes =
     [(0, blank_handler False 10 () (Filter_key None None None)),
      (1, blank_handler False 11 () (Filter_key None None None))]"

lemma sample_lists: "conn_lists sample_conn sample_nodes []" "hc_mem sample_conn = []"
  by (simp_all add: conn_lists_def two_lists_def sample_conn_def sample_nodes_def blank_handler_def)

theorem handler_ops_refine_witness:
  "(\<exists>c' hs'. reg_run stanza_add (\<lambda>h c. xmpp_handler_delete c h)
      [Reg_add (True, 12, None, None, None, ()), Reg_del 10, Reg_add (False, 11, None, None, None, ())] sample_conn = Some c' \<and>
      conn_lists c' hs' [] \<and> funs hs' = [11, 12]) \<and>
    (\<exists>c' ts'. reg_run timed_add (\<lambda>h c. xmpp_timed_handler_delete c h) [Reg_add (True, 7, 1000, ())] sample_conn = Some c' \<and>
      conn_lists c' sample_nodes ts' \<and> funs ts' = [7])"
  using handler_ops_refine [OF sample_lists,
    of "[Reg_add (True, 12, None, None, None, ()), Reg_del 10, Reg_add (False, 11, None, None, None, ())]"
       "[Reg_add (True, 7, 1000, ())]"]
  by (simp add: sample_nodes_def blank_handler_def funs_def)


text \<open>A handler function that adds another one and stays, and one-shot functions.\<close>

definition sample_run :: "(nat, unit, unit) stanza_run" where
  "sample_run h s u c = (if h = 10 then map_option (Pair True) (handler_add c 12 None None None ()) else Some (False, c))"

lemma sample_run_additive: "additive (\<lambda>h. sample_run h s)"
  unfolding additive_def
proof (intro allI impI, elim conjE)
  fix h and u :: unit and c :: "(nat, unit) hconn" and hs ts :: "(nat, unit) node list"
  assume c: "conn_lists c hs ts" "hc_mem c = []"
  show "\<exists>ret c' new ts'. sample_run h s u c = Some (ret, c') \<and> hc_mem c' = [] \<and> conn_lists c' (hs @ new) ts' \<and>
    (\<forall>x \<in> set new. \<not> hl_enabled (snd x))"
  proof (cases "h = 10")
    case True
    let ?new = "[(hc_fresh c, blank_handler False 12 () (Filter_key None None None))]"
    obtain c' where c': "handler_add c 12 None None None () = Some c'" "same_rest c c'"
      "conn_lists c' (if 12 \<in> set (funs hs) then hs else hs @ ?new) ts"
      using add_handler_lists [OF c, of 12 None None None "()" False] unfolding handler_add_def by blast
    then show ?thesis using True c(2)
      by (intro exI [of _ True] exI [of _ c'] exI [of _ "if 12 \<in> set (funs hs) then [] else ?new"] exI [of _ ts])
        (auto simp: sample_run_def same_rest_def blank_handler_def)
  next
    case False
    then show ?thesis using c
      by (intro exI [of _ False] exI [of _ c] exI [of _ "[]"] exI [of _ ts]) (simp add: sample_run_def)
  qed
qed

definition blank_stanza :: stanza where
  "blank_stanza = Stanza blank_node []"

lemma blank_stanza_simps [simp]:
  "xmpp_stanza_get_id (s_node blank_stanza) = Some None" "xmpp_stanza_get_ns (s_node blank_stanza) = Some None"
  "xmpp_stanza_get_type (s_node blank_stanza) = Some None"
  by (simp_all add: blank_stanza_def blank_node_def xmpp_stanza_get_id_def xmpp_stanza_get_ns_def xmpp_stanza_get_type_def)


lemma call_each_returns:
  assumes "additive call"
  shows "conn_lists c hs ts \<Longrightarrow> hc_mem c = [] \<Longrightarrow> \<forall>i \<in> set is. test (hl_key i) \<noteq> None \<Longrightarrow>
    \<exists>c' hs' ts'. call_each call test is c = Some c' \<and> conn_lists c' hs' ts' \<and> hc_mem c' = []"
proof (induction "is" arbitrary: c hs ts)
  case Nil
  then show ?case by auto
next
  case (Cons i rest)
  show ?case
  proof (cases "hl_user_handler i \<and> \<not> authenticated c \<or> test (hl_key i) \<noteq> Some True")
    case True
    then show ?thesis using Cons by auto
  next
    case False
    obtain ret c' new ts' where c': "call (hl_handler i) (hl_userdata i) c = Some (ret, c')" "hc_mem c' = []"
      "conn_lists c' (hs @ new) ts'" using assms Cons.prems(1,2) unfolding additive_def by blast
    obtain c2 where "xmpp_handler_delete c' (hl_handler i) = Some c2" "same_rest c' c2"
      "conn_lists c2 (without (hl_handler i) (hs @ new)) ts'" using delete_handler_lists [OF c'(3)] by blast
    then show ?thesis using False c' Cons.IH [of c' "hs @ new" ts'] Cons.prems(3)
        Cons.IH [of c2 "without (hl_handler i) (hs @ new)" ts']
      by (cases ret) (auto simp: same_rest_def)
  qed
qed



lemma enable_loop_dangling:
  "chain (hc_items c) xs (Some p) \<Longrightarrow> hc_items c p = None \<Longrightarrow> distinct (map fst xs) \<Longrightarrow>
    enable_loop (first_of xs (Some p)) c = None"
proof (induction xs arbitrary: c)
  case Nil
  then show ?case by (simp add: enable_loop.simps [of "Some p"])
next
  case (Cons x xs)
  obtain q i where x: "x = (q, i)" by (cases x)
  have "hc_items c q = Some (i\<lparr>hl_next := first_of xs (Some p)\<rparr>)" using Cons.prems x by simp
  moreover have "enable_loop (first_of xs (Some p)) (put_item c q j) = None" for j
  proof (rule Cons.IH)
    show "chain (hc_items (put_item c q j)) xs (Some p)" using Cons.prems x by simp
    show "hc_items (put_item c q j) p = None" using Cons.prems(2) calculation by (cases "p = q") auto
    show "distinct (map fst xs)" using Cons.prems(3) by simp
  qed
  ultimately show ?case by (simp add: x enable_loop.simps [of "Some q"])
qed

lemma append_item_dangling:
  assumes "chain (hc_items c) xs None" "distinct (map fst xs)"
  shows "\<exists>it. append_item c (first_of xs None) p = Some (first_of xs (Some p), c\<lparr>hc_items := it\<rparr>) \<and>
    chain it xs (Some p) \<and> (\<forall>q. q \<notin> fst ` set xs \<longrightarrow> it q = hc_items c q)"
proof (cases xs rule: rev_cases)
  case Nil
  then show ?thesis using assms by (auto simp: append_item_def intro: exI [of _ "hc_items c"])
next
  case (snoc ys x)
  obtain q j where x: "x = (q, j)" by (cases x)
  obtain r where r: "first_of ys (Some q) = Some r" using x by (cases ys) auto
  have l: "last_item c r = Some q" using last_item_chain [of c ys q j] assms(1) r snoc x by simp
  show ?thesis
    using assms
    by (intro exI [of _ "(hc_items c)(q := Some (j\<lparr>hl_next := Some p\<rparr>))"])
      (auto simp: append_item_def r l snoc x put_item_def)
qed

text \<open>The answers of the allocator that let only the duplication of the type fail.\<close>

definition type_dup_fails :: "string option \<Rightarrow> string option \<Rightarrow> mem" where
  "type_dup_fails ns name =
     True # (case ns of None \<Rightarrow> [] | Some _ \<Rightarrow> [True]) @ (case name of None \<Rightarrow> [] | Some _ \<Rightarrow> [True]) @ [False]"

text \<open>
  When the duplication of the type of a new handler fails, the item is freed and appended all the
  same: the call returns, and the next stanza without an id makes the library use the freed item.
\<close>

theorem handler_add_dangling:
  assumes "conn_lists c hs ts" "h \<notin> set (funs hs)" "hc_mem c = type_dup_fails ns name"
    "xmpp_stanza_get_id (s_node s) = Some None"
  shows "\<exists>c'. handler_add c h ns name (Some ty) u = Some c' \<and> handler_fire_stanza run c' s = None"
proof -
  let ?i = "blank_handler False h u (Filter_key ns name (Some ty))"
  let ?c = "c\<lparr>hc_mem := []\<rparr>"
  let ?d = "free_item ((put_item ?c (hc_fresh c) ?i)\<lparr>hc_fresh := hc_fresh c + 1\<rparr>) (hc_fresh c)"
  have l: "handlers c = first_of hs None" "chain (hc_items c) hs None" "distinct (map fst hs)"
    "\<forall>q \<in> fst ` set hs \<union> fst ` set ts. q < hc_fresh c"
    using assms(1) unfolding conn_lists_def two_lists_def by blast+
  have n: "hc_fresh c \<notin> fst ` set hs" using l(4) by blast
  have f: "find_handler c h None (handlers c) = Some (last_of hs None, None)"
    unfolding l(1) by (rule find_handler_absent [OF l(2) assms(2)])
  obtain it where it: "append_item ?d (first_of hs None) (hc_fresh c) =
      Some (first_of hs (Some (hc_fresh c)), ?d\<lparr>hc_items := it\<rparr>)"
    "chain it hs (Some (hc_fresh c))" "\<forall>q. q \<notin> fst ` set hs \<longrightarrow> it q = hc_items ?d q"
    using append_item_dangling [of ?d hs "hc_fresh c"] l(2,3) n by auto
  let ?c' = "?d\<lparr>hc_items := it, handlers := first_of hs (Some (hc_fresh c))\<rparr>"
  have "handler_add c h ns name (Some ty) u = Some ?c'"
    using f it(1) assms(3) l(1)
    by (cases ns; cases name)
      (simp_all add: handler_add_def handler_add_common_def conn_alloc_def conn_strdup_def type_dup_fails_def
        new_item_def blank_handler_def put_item_def free_item_def)
  moreover have "enable_loop (handlers ?c') ?c' = None"
    using enable_loop_dangling [of ?c' hs "hc_fresh c"] it(2,3) l(3) n by simp
  ultimately show ?thesis using assms(4)
    by (auto simp: handler_fire_stanza_def split: bind_splits)
qed

theorem handler_add_dangling_witness:
  "\<exists>c'. handler_add (sample_conn\<lparr>hc_mem := [True, True, False]\<rparr>) 12 None (Some ''iq'') (Some ''get'') () = Some c' \<and>
    handler_fire_stanza sample_run c' blank_stanza = None"
proof (rule handler_add_dangling [of _ sample_nodes "[]"])
  show "conn_lists (sample_conn\<lparr>hc_mem := [True, True, False]\<rparr>) sample_nodes []"
    using sample_lists(1) unfolding conn_lists_def by simp
qed (simp_all add: sample_nodes_def blank_handler_def type_dup_fails_def)

lemma id_drop_store_spec:
  assumes "hash_ok (id_handlers c)" "ascii i" "hc_mem c = []"
  shows "\<exists>c'. id_drop_store c i v = Some c' \<and> id_lookup c' i = Some v \<and> hc_items c' = hc_items c"
proof -
  have k: "key_ok (id_handlers c) i" by (rule table.ascii_ok [OF assms(1,2)])
  obtain r t freed where d: "hash_drop (id_handlers c) i = Some (r, t, freed)" "hash_ok t" "key_ok t = key_ok (id_handlers c)"
    using table.del_law [OF assms(1) k] by blast
  obtain t' fr where a: "hash_add [] t i v = Some (0, t', fr, [])" "hash_map t' = (hash_map t)(i \<mapsto> v)"
    "key_ok t' = key_ok t"
    using table.put_law [of t i "[]" v] d k by auto
  have "hash_get t' i = Some (Some v)" using table.get_amap [of t' i] a d(3) k by simp
  then show ?thesis using assms(3) d(1) a(1) by (simp add: id_drop_store_def id_store_def id_lookup_def)
qed

lemma fire_id_skip:
  assumes "\<not> authenticated c"
  shows "chain (hc_items c) us e \<Longrightarrow> \<forall>x \<in> set us. hl_user_handler (snd x) \<Longrightarrow>
    fire_id_loop run s i prev (first_of us e) c = fire_id_loop run s i prev e c"
proof (induction us)
  case (Cons x us)
  obtain p j where x: "x = (p, j)" by (cases x)
  show ?case using Cons assms by (simp add: x fire_id_loop.simps [of run s i prev "Some p" c])
qed simp

text \<open>
  Before authentication the user handlers in the list of an id are skipped, and when a one-shot handler of
  the library follows them, the whole list of the id becomes empty: the user handlers are lost, and their items leaked.
\<close>

theorem fire_id_skip_drops:
  assumes "\<not> authenticated c" "chain (hc_items c) (us @ [(q, b)]) None" "\<forall>x \<in> set us. hl_user_handler (snd x)"
    "\<not> hl_user_handler b" "q \<notin> fst ` set us" "run (hl_handler b) s (hl_userdata b) c = Some (False, c)"
    "hash_ok (id_handlers c)" "ascii i" "hc_mem c = []" "id_lookup c i = Some (first_of (us @ [(q, b)]) None)"
  shows "\<exists>c'. fire_id_loop run s i None (first_of (us @ [(q, b)]) None) c = Some c' \<and> id_lookup c' i = Some None \<and>
    (\<forall>p \<in> fst ` set us. hc_items c' p \<noteq> None)"
proof -
  have ch: "chain (hc_items c) us (Some q)" "hc_items c q = Some (b\<lparr>hl_next := None\<rparr>)" using assms(2) by simp_all
  obtain c' where c': "id_drop_store c i None = Some c'" "id_lookup c' i = Some None" "hc_items c' = hc_items c"
    using id_drop_store_spec [OF assms(7-9)] by blast
  have "fire_id_loop run s i None (first_of (us @ [(q, b)]) None) c = fire_id_loop run s i None (Some q) c"
    using fire_id_skip [OF assms(1) ch(1) assms(3)] by simp
  also have "\<dots> = Some (free_item c' q)"
    using assms(4,6) ch(2) c' by (simp add: fire_id_loop.simps [of run s i None "Some q" c] fire_id_loop.simps [of _ _ _ _ None])
  finally have f: "fire_id_loop run s i None (first_of (us @ [(q, b)]) None) c = Some (free_item c' q)" .
  have "hc_items c p \<noteq> None" if "p \<in> fst ` set us" for p
    using ch(1) that by (induction us) force+
  then show ?thesis using f c' assms(5) by (auto simp: id_lookup_def)
qed

definition sample_id_conn :: "(nat, unit) hconn" where
  "sample_id_conn = \<lparr>
     hc_items = (\<lambda>_. None)(0 := Some \<lparr> hl_user_handler = True, hl_handler = 10, hl_userdata = (),
         hl_enabled = False, hl_next = Some 1, hl_key = Id_key ''a'' \<rparr>,
       1 := Some \<lparr> hl_user_handler = False, hl_handler = 11, hl_userdata = (),
         hl_enabled = False, hl_next = None, hl_key = Id_key ''a'' \<rparr>),
     hc_fresh = 2, hc_mem = [], hc_clock = [], conn_state = XMPP_STATE_CONNECTED, authenticated = False,
     timed_handlers = None,
     id_handlers = \<lparr> h_ref = 1, h_free = False, h_length = 1, h_num_keys = 1, h_entries = [[(''a'', Some 0)]] \<rparr>,
     handlers = None \<rparr>"

theorem fire_id_skip_drops_witness:
  "\<exists>c'. fire_id_loop sample_run blank_stanza ''a'' None (Some 0) sample_id_conn = Some c' \<and> id_lookup c' ''a'' = Some None \<and>
    hc_items c' 0 \<noteq> None"
proof -
  let ?us = "[(0, blank_handler True 10 () (Id_key ''a''))] :: (nat, unit) node list"
  have ok: "hash_ok (id_handlers sample_id_conn)"
    by (simp add: sample_id_conn_def hash_ok_def bucket_index_def hash_key_def schar_def c_rem_def Let_def)
  have "hash_get (id_handlers sample_id_conn) ''a'' = Some (Some (Some 0))"
    by (simp add: sample_id_conn_def hash_get_def bucket_index_def hash_key_def schar_def c_rem_def Let_def)
  then show ?thesis
    using fire_id_skip_drops [of sample_id_conn ?us 1 "blank_handler False 11 () (Id_key ''a'')" sample_run blank_stanza "''a''"] ok
    by (simp add: sample_id_conn_def blank_handler_def sample_run_def id_lookup_def ascii_def)
qed

end
