(* ===== verification/Conn_Facts.thy ===== *)
theory Conn_Facts
  imports Conn Handler_Lists
begin

section \<open>Properties of connections\<close>

text \<open>
  What the operations of \<open>Conn\<close> queue and change, the bounds of the buffer that logs the open tag of the
  stream, and the life of the stream id.
\<close>

subsection \<open>The log of the open tag\<close>

lemma dopr_log_formats:
  "dopr_text ''<stream:stream'' [] = Some ''<stream:stream''"
  "dopr_text ('' %s='' @ [CHR 0x27] @ ''%s'' @ [CHR 0x27]) [VStr (Some k), VStr (Some v)] =
    Some ('' '' @ k @ ''='' @ [CHR 0x27] @ v @ [CHR 0x27])"
  by (simp_all add: dopr_text_def dopr_conv_def fmtstr_def no_flags_def is_digit_def Let_def)

lemma log_put_fits:
  assumes "dopr_text fmt args = Some text" "length buf = 4096" "off < 4096"
  shows "\<exists>b. log_put buf off fmt args = Some (b, off + length text) \<and> length b = 4096"
proof -
  have c: "nat ((4096 - int off) mod 2 ^ 64) = 4096 - off" using assms(3) by simp
  have "xmpp_snprintf (Some (drop off buf)) (4096 - off) fmt args =
      Some (int (length text), Some (snprintf_buffer (drop off buf) (4096 - off) text))"
    by (rule xmpp_snprintf_buffer [OF assms(1)]) (use assms(2,3) in auto)
  then show ?thesis using assms(2,3) length_snprintf_buffer [of "drop off buf" "4096 - off" "text"]
    unfolding log_put_def c by simp
qed

lemma log_put_beyond: "length buf = 4096 \<Longrightarrow> 4096 \<le> off \<Longrightarrow> log_put buf off fmt args = None"
  by (simp add: log_put_def xmpp_snprintf_def xmpp_vsnprintf_def wr_def)

fun attrs_size :: "xml_attrs \<Rightarrow> nat" where
  "attrs_size [] = 0"
| "attrs_size ((k, v) # attrs) = length k + length v + 4 + attrs_size attrs"

lemma log_attrs_size:
  "length buf = 4096 \<Longrightarrow> off + attrs_size attrs < 4096 \<Longrightarrow>
    \<exists>b. log_attrs attrs buf off = Some (b, off + attrs_size attrs) \<and> length b = 4096"
proof (induction attrs arbitrary: buf off)
  case (Cons a attrs)
  obtain k v where a: "a = (k, v)" by (cases a)
  obtain b where b: "log_put buf off ('' %s='' @ [CHR 0x27] @ ''%s'' @ [CHR 0x27]) [VStr (Some k), VStr (Some v)] =
      Some (b, off + (length k + length v + 4))" "length b = 4096"
    using log_put_fits [OF dopr_log_formats(2) Cons.prems(1), of off k v] Cons.prems(2) a by auto
  show ?case using Cons.IH [OF b(2), of "off + (length k + length v + 4)"] Cons.prems(2) b(1)
    by (simp add: a add.assoc)
qed simp

lemma log_attrs_beyond:
  "length buf = 4096 \<Longrightarrow> 4096 \<le> off + attrs_size attrs \<Longrightarrow>
    log_attrs attrs buf off = None \<or> (\<exists>b off'. log_attrs attrs buf off = Some (b, off') \<and> length b = 4096 \<and> 4096 \<le> off')"
proof (induction attrs arbitrary: buf off)
  case (Cons a attrs)
  obtain k v where a: "a = (k, v)" by (cases a)
  show ?case
  proof (cases "off < 4096")
    case True
    obtain b where b: "log_put buf off ('' %s='' @ [CHR 0x27] @ ''%s'' @ [CHR 0x27]) [VStr (Some k), VStr (Some v)] =
        Some (b, off + (length k + length v + 4))" "length b = 4096"
      using log_put_fits [OF dopr_log_formats(2) Cons.prems(1) True, of k v] by auto
    show ?thesis using Cons.IH [OF b(2), of "off + (length k + length v + 4)"] Cons.prems(2) b(1)
      by (simp add: a add.assoc)
  next
    case False
    then show ?thesis using log_put_beyond [OF Cons.prems(1), of off] by (simp add: a)
  qed
qed simp

lemma log_begin:
  "\<exists>b. log_put (replicate 4096 junk) 0 ''<stream:stream'' [] = Some (b, 14) \<and> length b = 4096"
  using log_put_fits [OF dopr_log_formats(1), of "replicate 4096 junk" 0] by auto

lemma log_open_tag_fits:
  assumes "14 + attrs_size attrs < 4096"
  shows "\<exists>b. log_open_tag junk (Some attrs) = Some b"
proof -
  obtain b0 where b0: "log_put (replicate 4096 junk) 0 ''<stream:stream'' [] = Some (b0, 14)" "length b0 = 4096"
    using log_begin by blast
  obtain b where b: "log_attrs attrs b0 14 = Some (b, 14 + attrs_size attrs)" "length b = 4096"
    using log_attrs_size [OF b0(2) assms] by blast
  show ?thesis using log_put_fits [OF dopr_formats(5) b(2) assms] by (auto simp: log_open_tag_def b0(1) b(1))
qed

text \<open>
  Claim C29.  Logging the open tag of the stream leaves its buffer of 4096 bytes exactly when the text of
  the tag, which the server chooses, has 4096 characters or more before its closing bracket: the room left is
  computed by an unsigned subtraction.
\<close>

theorem log_open_tag_overflow_iff:
  "log_open_tag junk (Some attrs) = None \<longleftrightarrow> 4096 \<le> 14 + attrs_size attrs"
proof (cases "4096 \<le> 14 + attrs_size attrs")
  case True
  obtain b0 where b0: "log_put (replicate 4096 junk) 0 ''<stream:stream'' [] = Some (b0, 14)" "length b0 = 4096"
    using log_begin by blast
  show ?thesis using log_attrs_beyond [OF b0(2) True] log_put_beyond True
    by (auto simp: log_open_tag_def b0(1))
next
  case False
  then show ?thesis using log_open_tag_fits [of attrs junk] by auto
qed

subsection \<open>The stream id\<close>

text \<open>
  A stream that is opened again without an id leaves the pointer to the freed id of the stream before it;
  the next open tag frees it a second time.
\<close>

theorem stream_id_double_free:
  assumes "stream_id c = Live_ptr i" "get_stream_attribute (Some attrs) ''id'' = None" "14 + attrs_size attrs < 4096"
  shows "handle_stream_start en opn ''stream:stream'' (Some attrs) c = opn (open_handler c) (c\<lparr>stream_id := Freed_ptr\<rparr>) \<and>
    (\<forall>c' attrs'. stream_id c' = Freed_ptr \<longrightarrow> handle_stream_start en opn ''stream:stream'' (Some attrs') c' = None)"
proof -
  obtain b where "log_open_tag (fresh_byte c) (Some attrs) = Some b" using log_open_tag_fits [OF assms(3)] by blast
  then show ?thesis
    using assms(1,2) by (auto simp: handle_stream_start_def split: bind_splits)
qed

definition sample_xmpp_conn :: conn where
  "sample_xmpp_conn = (conn_blank CHR ''x'' XMPP_LOOP_RUNNING [5] [] (Some ''en'') (fresh_table 32 False))\<lparr>
     conn_state := XMPP_STATE_CONNECTED, conn_type := XMPP_CLIENT, domain := Some ''d.org'', jid := Some ''u@d.org/r'',
     pass := Some ''pw'', stream_id := Live_ptr ''s1'', conn_handler := Some 0 \<rparr>"

text \<open>User code that does nothing, and a TLS library that works.\<close>

definition sample_environ :: environ where
  "sample_environ = \<lparr> en_handler = (\<lambda>k s u c. Some (True, c)), en_timed = (\<lambda>k u c. Some (True, c)),
     en_conn = (\<lambda>k ev c. Some c), en_tls_new = (\<lambda>c. True), en_tls_start = (\<lambda>h c. Some True) \<rparr>"

lemmas sample_xmpp_simps = sample_xmpp_conn_def conn_blank_def

theorem stream_id_double_free_witness:
  "\<exists>c'. handle_stream_start sample_environ (\<lambda>h c. Some c) ''stream:stream'' (Some [(''from'', ''d.org'')]) sample_xmpp_conn = Some c' \<and>
    handle_stream_start sample_environ (\<lambda>h c. Some c) ''stream:stream'' (Some [(''id'', ''s2'')]) c' = None"
  using stream_id_double_free [of sample_xmpp_conn "''s1''" "[(''from'', ''d.org'')]" sample_environ "\<lambda>h c. Some c"]
  by (simp add: sample_xmpp_simps get_stream_attribute_def)

subsection \<open>Sending\<close>

lemma xmpp_send_raw_queues:
  "conn_state c = XMPP_STATE_CONNECTED \<Longrightarrow> hc_mem c = [] \<Longrightarrow>
    xmpp_send_raw c data = c\<lparr>send_queue := send_queue c @ [\<lparr> sq_data = data, sq_written = 0 \<rparr>],
      send_queue_len := send_queue_len c + 1\<rparr>"
  by (simp add: xmpp_send_raw_def)

lemma snprintf_take:
  assumes "dopr_text fmt args = Some text" "length text < count" "count \<le> length buf"
  shows "\<exists>b. xmpp_vsnprintf (Some buf) count fmt args = Some (int (length text), Some b) \<and> take (length text) b = text"
proof -
  have "buf \<noteq> []" "count \<noteq> 0" using assms(2,3) by auto
  then show ?thesis using xmpp_snprintf_buffer [OF assms(1), of buf count] assms(2,3)
    by (simp add: xmpp_snprintf_def snprintf_buffer_def)
qed

text \<open>A formatted text is queued whole, however long it is.\<close>

lemma send_raw_string_queues:
  assumes "dopr_text fmt args = Some text" "conn_state c = XMPP_STATE_CONNECTED" "hc_mem c = []"
  shows "xmpp_send_raw_string c fmt args = Some (xmpp_send_raw c text)"
proof (cases "length text < 1024")
  case True
  then show ?thesis
    using snprintf_take [OF assms(1) True, of "replicate 1024 (fresh_byte c)"]
    by (auto simp: xmpp_send_raw_string_def)
next
  case False
  obtain b where b: "xmpp_vsnprintf (Some (replicate 1024 (fresh_byte c))) 1024 fmt args = Some (int (length text), Some b)"
    using xmpp_snprintf_buffer [OF assms(1), of "replicate 1024 (fresh_byte c)" 1024] by (auto simp: xmpp_snprintf_def)
  obtain b' where "xmpp_vsnprintf (Some (replicate (length text + 1) (fresh_byte c))) (length text + 1) fmt args =
      Some (int (length text), Some b')" "take (length text) b' = text"
    using snprintf_take [OF assms(1), of "length text + 1" "replicate (length text + 1) (fresh_byte c)"] by auto
  then show ?thesis using False b assms(3) by (simp add: xmpp_send_raw_string_def)
qed

definition stream_header :: "string \<Rightarrow> string \<Rightarrow> string \<Rightarrow> string" where
  "stream_header to lng ns =
     ''<?xml version=\"1.0\"?><stream:stream to=\"'' @ to @ ''\" xml:lang=\"'' @ lng @ ''\" version=\"1.0\" xmlns=\"'' @ ns @
     ''\" xmlns:stream=\"http://etherx.jabber.org/streams\">''"

lemma stream_header_text:
  "dopr_text (''<?xml version=\"1.0\"?><stream:stream to=\"%s\" xml:lang=\"%s\" version=\"1.0\" '' @
      ''xmlns=\"%s\" xmlns:stream=\"%s\">'') [VStr (Some d), VStr (Some l), VStr (Some n), VStr (Some XMPP_NS_STREAMS)] =
    Some (stream_header d l n)"
  by (simp add: dopr_text_def dopr_conv_def fmtstr_def no_flags_def is_digit_def Let_def stream_header_def XMPP_NS_STREAMS_def)

lemma more_send_queue: "hconn.more (c :: conn) = hconn.more (c' :: conn) \<Longrightarrow> send_queue c = send_queue c'"
  by (cases c; cases c') simp

lemma send_raw_lists:
  "conn_lists c hs ts \<Longrightarrow> conn_state c = XMPP_STATE_CONNECTED \<Longrightarrow> hc_mem c = [] \<Longrightarrow>
    conn_lists (xmpp_send_raw c data) hs ts \<and> hc_mem (xmpp_send_raw c data) = [] \<and>
    hc_fresh (xmpp_send_raw c data) = hc_fresh c \<and> conn_state (xmpp_send_raw c data) = XMPP_STATE_CONNECTED"
  by (simp add: xmpp_send_raw_queues conn_lists_def)

lemma disconnect_connected:
  assumes "hc_mem c = []" "conn_lists c hs ts" "conn_state c = XMPP_STATE_CONNECTED"
  shows "\<exists>c' now. xmpp_disconnect c = Some c' \<and>
    send_queue c' = send_queue c @ [\<lparr> sq_data = ''</stream:stream>'', sq_written = 0 \<rparr>] \<and>
    conn_state c' = XMPP_STATE_CONNECTED \<and>
    conn_lists c' hs (if H_disconnect_cleanup \<in> set (funs ts) then ts else ts @
      [(hc_fresh c, blank_handler False H_disconnect_cleanup U_null (Timed_key DISCONNECT_TIMEOUT now))])"
proof -
  let ?c = "xmpp_send_raw c ''</stream:stream>''"
  have "dopr_text ''</stream:stream>'' [] = Some ''</stream:stream>''"
    by (simp add: dopr_text_def dopr_conv_def no_flags_def is_digit_def Let_def)
  then have s: "xmpp_send_raw_string c ''</stream:stream>'' [] = Some ?c"
    by (rule send_raw_string_queues [OF _ assms(3,1)])
  have l: "conn_lists ?c hs ts" "hc_mem ?c = []" "hc_fresh ?c = hc_fresh c" "conn_state ?c = XMPP_STATE_CONNECTED"
    using send_raw_lists [OF assms(2,3,1)] by simp_all
  obtain c' now where c': "handler_add_timed ?c H_disconnect_cleanup DISCONNECT_TIMEOUT U_null = Some c'" "same_rest ?c c'"
    "conn_lists c' hs (if H_disconnect_cleanup \<in> set (funs ts) then ts else ts @
      [(hc_fresh c, blank_handler False H_disconnect_cleanup U_null (Timed_key DISCONNECT_TIMEOUT now))])"
    using add_timed_lists [OF l(1,2), of H_disconnect_cleanup DISCONNECT_TIMEOUT U_null False]
    unfolding handler_add_timed_def l(3) by blast
  moreover have "send_queue c' = send_queue ?c" using c'(2) more_send_queue unfolding same_rest_def by blast
  ultimately show ?thesis using s l(4) assms
    by (auto simp: xmpp_disconnect_def same_rest_def xmpp_send_raw_queues)
qed

text \<open>
  Opening the stream and closing it queue exactly the stream header for the domain, language and kind of the
  connection, and the closing tag; a request to disconnect also starts the cleanup timer, once, and is
  ignored when the connection is already closed.
\<close>

theorem open_and_close_queue:
  assumes "hc_mem c = []" "domain c = Some d" "lang c = Some l" "conn_lists c hs ts"
  shows "(conn_state c = XMPP_STATE_DISCONNECTED \<longrightarrow> xmpp_disconnect c = Some c) \<and>
    (conn_state c = XMPP_STATE_CONNECTED \<longrightarrow>
      conn_open_stream c = Some (c\<lparr>send_queue := send_queue c @
          [\<lparr> sq_data = stream_header d l (if conn_type c = XMPP_CLIENT then XMPP_NS_CLIENT else XMPP_NS_COMPONENT),
            sq_written = 0 \<rparr>], send_queue_len := send_queue_len c + 1\<rparr>) \<and>
      (\<exists>c' now. xmpp_disconnect c = Some c' \<and>
        send_queue c' = send_queue c @ [\<lparr> sq_data = ''</stream:stream>'', sq_written = 0 \<rparr>] \<and>
        conn_state c' = XMPP_STATE_CONNECTED \<and>
        conn_lists c' hs (if H_disconnect_cleanup \<in> set (funs ts) then ts else ts @
          [(hc_fresh c, blank_handler False H_disconnect_cleanup U_null (Timed_key DISCONNECT_TIMEOUT now))])))"
proof (intro conjI impI)
  assume "conn_state c = XMPP_STATE_CONNECTED"
  then show "conn_open_stream c = Some (c\<lparr>send_queue := send_queue c @
        [\<lparr> sq_data = stream_header d l (if conn_type c = XMPP_CLIENT then XMPP_NS_CLIENT else XMPP_NS_COMPONENT),
          sq_written = 0 \<rparr>], send_queue_len := send_queue_len c + 1\<rparr>)"
    unfolding conn_open_stream_def assms(2,3)
    using send_raw_string_queues [OF stream_header_text _ assms(1)] xmpp_send_raw_queues [OF _ assms(1)] by simp
qed (use disconnect_connected [OF assms(1,4)] in \<open>auto simp: xmpp_disconnect_def\<close>)

theorem open_and_close_queue_witness:
  "(\<exists>c'. conn_open_stream sample_xmpp_conn = Some c' \<and> map sq_data (send_queue c') = [stream_header ''d.org'' ''en'' ''jabber:client'']) \<and>
    (\<exists>c'. xmpp_disconnect sample_xmpp_conn = Some c' \<and> map sq_data (send_queue c') = [''</stream:stream>''])"
proof -
  have l: "conn_lists sample_xmpp_conn [] []" "hc_mem sample_xmpp_conn = []" "domain sample_xmpp_conn = Some ''d.org''"
    "lang sample_xmpp_conn = Some ''en''" by (simp_all add: sample_xmpp_simps conn_lists_def two_lists_def)
  show ?thesis using open_and_close_queue [OF l(2-4) l(1)]
    by (auto simp: sample_xmpp_simps XMPP_NS_CLIENT_def)
qed

end
