(* ===== verification/Event_Facts.thy ===== *)
theory Event_Facts
  imports Event_Loop Conn_Facts
begin

section \<open>Properties of the event loop\<close>

text \<open>
  The bytes that reach the transport, the end of \<open>xmpp_run\<close>, and what an error that a connection keeps does
  to the next one.
\<close>

subsection \<open>The order of the bytes\<close>

definition item_ok :: "xmpp_send_queue_t \<Rightarrow> bool" where
  "item_ok sq \<longleftrightarrow> sq_written sq \<le> length (sq_data sq)"

definition item_rest :: "xmpp_send_queue_t \<Rightarrow> string" where
  "item_rest sq = drop (sq_written sq) (sq_data sq)"

definition pending :: "conn \<Rightarrow> string" where
  "pending c = concat (map item_rest (send_queue c))"

definition queue_ok :: "conn \<Rightarrow> bool" where
  "queue_ok c \<longleftrightarrow> (\<forall>sq \<in> set (send_queue c). item_ok sq)"

text \<open>A transport that takes a prefix of what it is given: the bytes of \<open>wire\<close> are those sent so far.\<close>

definition transport :: "('x, 'n) platform \<Rightarrow> ('n \<Rightarrow> string) \<Rightarrow> bool" where
  "transport pf wire \<longleftrightarrow>
     (\<forall>c s n ret n'. tls_write pf c s n = (ret, n') \<longrightarrow> ret \<le> int (length s) \<and> wire n' = wire n @ take (nat ret) s) \<and>
     (\<forall>k s n ret n'. sys_send pf k s n = (ret, n') \<longrightarrow> ret \<le> int (length s) \<and> wire n' = wire n @ take (nat ret) s)"

lemma write_some_wire:
  "transport pf wire \<Longrightarrow> write_some pf c s n = (ret, err, n') \<Longrightarrow>
    ret \<le> int (length s) \<and> wire n' = wire n @ take (nat ret) s \<and> (err \<noteq> None \<longrightarrow> ret < 0)"
  unfolding write_some_def transport_def sock_write_def
  by (cases "conn_tls c"; cases "tls_write pf c s n"; cases "sys_send pf (conn_sock c) s n") (auto split: if_splits)

lemma send_loop_wire:
  assumes "transport pf wire"
  shows "\<forall>sq \<in> set q. item_ok sq \<Longrightarrow> send_loop pf q c n = (c', n') \<Longrightarrow>
    queue_ok c' \<and> wire n' @ pending c' = wire n @ concat (map item_rest q)"
proof (induction q arbitrary: n)
  case Nil
  then show ?case by (auto simp: queue_ok_def pending_def)
next
  case (Cons sq q)
  obtain ret err n1 where w: "write_some pf c (item_rest sq) n = (ret, err, n1)" by (cases "write_some pf c (item_rest sq) n")
  note ww = write_some_wire [OF assms w]
  have len: "int (length (item_rest sq)) = int (length (sq_data sq)) - int (sq_written sq)" "item_ok sq"
    using Cons.prems(1) by (auto simp: item_rest_def item_ok_def)
  show ?case
  proof (cases "err \<noteq> None \<or> ret < int (length (item_rest sq))")
    case True
    have neg: "ret < 0 \<Longrightarrow> wire n1 = wire n" using ww by simp
    show ?thesis
    proof (cases "ret < 0")
      case neg_ret: True
      then show ?thesis using True Cons.prems w neg len(1)
        by (cases err) (auto simp: item_rest_def [symmetric] queue_ok_def pending_def Let_def)
    next
      case False
      then have e: "err = None" and le: "nat ret \<le> length (item_rest sq)" using ww by auto
      define sq' where "sq' = sq\<lparr>sq_written := sq_written sq + nat ret\<rparr>"
      have "item_ok sq'" using le len by (auto simp: item_ok_def sq'_def)
      moreover have "item_rest sq' = drop (nat ret) (item_rest sq)"
        by (simp add: item_rest_def sq'_def add.commute)
      moreover have "c' = c\<lparr>send_queue := sq' # q\<rparr>" "n' = n1"
        using True False Cons.prems(2) w len(1) e by (auto simp: item_rest_def Let_def sq'_def)
      ultimately show ?thesis using Cons.prems(1) ww by (simp add: queue_ok_def pending_def)
    qed
  next
    case False
    then have "nat ret = length (item_rest sq)" "err = None" using ww by auto
    then have "wire n1 = wire n @ item_rest sq" using ww by simp
    moreover have "send_loop pf q c n1 = (c', n')"
      using False Cons.prems(2) w len(1) \<open>err = None\<close> by (auto simp: item_rest_def Let_def)
    ultimately show ?thesis using Cons.IH [of n1] Cons.prems(1) by simp
  qed
qed

text \<open>A connected client queues messages, and flushes the queue as far as the transport takes it.\<close>

datatype send_op = Queue_data string | Flush

fun send_ops :: "('x, 'n) platform \<Rightarrow> send_op list \<Rightarrow> conn \<Rightarrow> 'n \<Rightarrow> conn \<times> 'n" where
  "send_ops pf [] c n = (c, n)"
| "send_ops pf (Queue_data s # ops) c n = send_ops pf ops (xmpp_send_raw c s) n"
| "send_ops pf (Flush # ops) c n = (case send_loop pf (send_queue c) c n of (c, n) \<Rightarrow> send_ops pf ops c n)"

fun queued :: "send_op list \<Rightarrow> string" where
  "queued [] = []"
| "queued (Queue_data s # ops) = s @ queued ops"
| "queued (Flush # ops) = queued ops"

lemma send_loop_state: "send_loop pf q c n = (c', n') \<Longrightarrow> conn_state c' = conn_state c \<and> hc_mem c' = hc_mem c"
  by (induction pf q c n rule: send_loop.induct) (auto simp: Let_def split: prod.splits option.splits if_splits)

lemma send_ops_wire:
  "transport pf wire \<Longrightarrow> conn_state c = XMPP_STATE_CONNECTED \<Longrightarrow> hc_mem c = [] \<Longrightarrow> queue_ok c \<Longrightarrow>
    send_ops pf ops c n = (c', n') \<Longrightarrow> queue_ok c' \<and> wire n' @ pending c' = wire n @ pending c @ queued ops"
proof (induction ops arbitrary: c n)
  case (Cons op ops)
  show ?case
  proof (cases op)
    case (Queue_data s)
    have "queue_ok (xmpp_send_raw c s)" "pending (xmpp_send_raw c s) = pending c @ s"
      using Cons.prems by (auto simp: xmpp_send_raw_queues queue_ok_def pending_def item_ok_def item_rest_def)
    then show ?thesis using Cons.IH [of "xmpp_send_raw c s" n] Cons.prems Queue_data by (simp add: xmpp_send_raw_queues)
  next
    case Flush
    obtain c1 n1 where l: "send_loop pf (send_queue c) c n = (c1, n1)" by (cases "send_loop pf (send_queue c) c n")
    have "queue_ok c1 \<and> wire n1 @ pending c1 = wire n @ pending c"
      using send_loop_wire [OF Cons.prems(1) _ l] Cons.prems(4) by (simp add: queue_ok_def pending_def)
    then show ?thesis using Cons.IH [of c1 n1] Cons.prems Flush l send_loop_state [OF l] by simp
  qed
qed simp

text \<open>
  Claim C4.  Whatever the transport takes of each write, and whether it fails, the bytes sent followed by those still
  pending are always the messages queued, in their order, each exactly once; and no item is ever written past its end.
\<close>

theorem send_queue_fifo:
  assumes "transport pf wire" "conn_state c = XMPP_STATE_CONNECTED" "hc_mem c = []" "send_queue c = []" "wire n = []"
    "send_ops pf ops c n = (c', n')"
  shows "wire n' @ pending c' = queued ops \<and> (\<forall>sq \<in> set (send_queue c'). sq_written sq \<le> length (sq_data sq))"
  using send_ops_wire [OF assms(1-3) _ assms(6)] assms(4,5)
  by (simp add: queue_ok_def pending_def item_ok_def)

text \<open>A transport that takes three bytes at a time, and whose state is what it has taken.\<close>

definition slow_platform :: "(unit, string) platform" where
  "slow_platform = \<lparr>
     tls_clear_pending_write = (\<lambda>c n. (0, n)), tls_write = (\<lambda>c s n. (int (length (take 3 s)), n @ take 3 s)),
     tls_read = (\<lambda>c k n. (0, [], n)), tls_error = (\<lambda>c n. 0), tls_is_recoverable = (\<lambda>e. True), tls_pending = (\<lambda>c n. 0),
     sys_send = (\<lambda>k s n. (int (length (take 3 s)), n @ take 3 s)), sys_recv = (\<lambda>k l n. (0, [], n)),
     sys_getpeername = (\<lambda>k n. (0, n)), sys_errno = (\<lambda>n. 0), sys_select = (\<lambda>k r w tv n. (0, [], [], n)),
     xml_create = Some (), xml_parse = (\<lambda>x s. (1, x, [])) \<rparr>"

lemma slow_transport: "transport slow_platform (\<lambda>n. n)"
  by (auto simp: transport_def slow_platform_def min_def)

theorem send_queue_fifo_witness:
  "\<exists>c' n'. send_ops slow_platform [Queue_data ''abcd'', Flush, Queue_data ''ef'', Flush] sample_xmpp_conn [] = (c', n') \<and>
    n' = ''abcdef'' \<and> n' @ pending c' = ''abcdef''"
proof -
  obtain c' n' where r: "send_ops slow_platform [Queue_data ''abcd'', Flush, Queue_data ''ef'', Flush] sample_xmpp_conn [] = (c', n')"
    by (cases "send_ops slow_platform [Queue_data ''abcd'', Flush, Queue_data ''ef'', Flush] sample_xmpp_conn []")
  have "n' @ pending c' = ''abcdef''"
    using send_queue_fifo [OF slow_transport _ _ _ _ r] by (simp add: sample_xmpp_simps)
  moreover have "n' = ''abcdef''" using r
    by (auto simp: sample_xmpp_simps xmpp_send_raw_def write_some_def slow_platform_def sock_write_def Let_def)
  ultimately show ?thesis using r by blast
qed

end
