(* ===== verification/Run_Facts.thy ===== *)
theory Run_Facts
  imports Event_Facts
begin

section \<open>The end of the event loop, and errors that stay\<close>

text \<open>
  The rounds of \<open>xmpp_run\<close> for a connection that waits for its peer, up to its timeout, and what an error that a
  connection keeps does to the next attempt to connect.
\<close>

subsection \<open>One connection in the list\<close>

lemma each_conn_one:
  "connlist cx = [s] \<Longrightarrow> f a (enter cx s) (ctx_net cx) = Some (a', s', n) \<Longrightarrow>
    each_conn f a cx = Some (a', (leave cx s' n)\<lparr>connlist := [s']\<rparr>)"
  by (simp add: each_conn_def)

text \<open>A connection that waits for the peer, with no element open in its parser.\<close>

definition waiting :: "nat \<Rightarrow> u64 \<Rightarrow> u64 \<Rightarrow> 'x session \<Rightarrow> bool" where
  "waiting h stamp limit s \<longleftrightarrow> p_stanza (fst s) = None \<and>
     conn_state (session_conn s) = XMPP_STATE_CONNECTING \<and> conn_handler (session_conn s) = Some h \<and>
     \<not> conn_tls (session_conn s) \<and> 0 \<le> conn_sock (session_conn s) \<and> conn_sock (session_conn s) < 1024 \<and>
     timeout_stamp (session_conn s) = stamp \<and> connect_timeout (session_conn s) = limit"

definition waits :: "nat \<Rightarrow> u64 \<Rightarrow> u64 \<Rightarrow> u64 list \<Rightarrow> ('x, 'n) xmpp_ctx_t \<Rightarrow> bool" where
  "waits h stamp limit clock cx \<longleftrightarrow>
     (\<exists>s. connlist cx = [s] \<and> waiting h stamp limit s) \<and> ctx_clock cx = clock \<and> loop_status cx = XMPP_LOOP_RUNNING"

lemma waits_each:
  assumes "waits h stamp limit clock cx"
    "\<And>s n. waiting h stamp limit s \<Longrightarrow> hc_clock (session_conn s) = clock \<Longrightarrow>
      ctx_status (session_conn s) = XMPP_LOOP_RUNNING \<Longrightarrow>
      \<exists>s' n'. f a s n = Some (a', s', n') \<and> waiting h stamp limit s' \<and> hc_clock (session_conn s') = clock' \<and>
        ctx_status (session_conn s') = XMPP_LOOP_RUNNING"
  shows "\<exists>cx'. each_conn f a cx = Some (a', cx') \<and> waits h stamp limit clock' cx'"
proof -
  obtain s where s: "connlist cx = [s]" "waiting h stamp limit s" "ctx_clock cx = clock" "loop_status cx = XMPP_LOOP_RUNNING"
    using assms(1) by (auto simp: waits_def)
  have "waiting h stamp limit (enter cx s)" "hc_clock (session_conn (enter cx s)) = clock"
    "ctx_status (session_conn (enter cx s)) = XMPP_LOOP_RUNNING"
    using s by (simp_all add: waiting_def enter_def session_conn_def)
  from assms(2) [OF this, of "ctx_net cx"] obtain s' n' where s': "f a (enter cx s) (ctx_net cx) = Some (a', s', n')"
    "waiting h stamp limit s'" "hc_clock (session_conn s') = clock'" "ctx_status (session_conn s') = XMPP_LOOP_RUNNING"
    by blast
  show ?thesis using each_conn_one [OF s(1), of f a a' s' n'] s' by (cases s') (simp add: waits_def leave_def)
qed

lemma waits_send: "waits h stamp limit clock cx \<Longrightarrow>
    \<exists>cx'. each_conn (net_session (send_conn pf en)) () cx = Some ((), cx') \<and> waits h stamp limit clock cx'"
  by (rule waits_each, assumption) (auto simp: net_session_def send_conn_def waiting_def session_conn_def)

lemma waits_reset: "waits h stamp limit clock cx \<Longrightarrow>
    \<exists>cx'. each_conn (reset_conn pf) () cx = Some ((), cx') \<and> waits h stamp limit clock cx'"
  by (rule waits_each, assumption)
    (auto simp: reset_conn_def conn_parser_reset_def parser_reset_def waiting_def session_conn_def Let_def
      split: option.splits)

lemma waits_timed: "waits h stamp limit clock cx \<Longrightarrow>
    \<exists>cx'. handler_fire_timed en cx = Some (- 1, cx') \<and> waits h stamp limit clock cx'"
  unfolding handler_fire_timed_def
  by (rule waits_each, assumption) (auto simp: timed_conn_def fire_timed_conn_def waiting_def session_conn_def)

lemma waits_watch:
  assumes "waits h stamp limit (t # t' # ts) cx" "time_elapsed stamp t \<le> limit"
  shows "\<exists>w cx'. each_conn (watch_conn pf en) \<lparr> w_rfds = [], w_wfds = [], w_max = 0, w_tls_bytes = 0 \<rparr> cx = Some (w, cx') \<and>
    waits h stamp limit (t' # ts) cx' \<and> w_tls_bytes w = 0"
proof -
  obtain s where s: "connlist cx = [s]" "waiting h stamp limit s" "ctx_clock cx = t # t' # ts" "loop_status cx = XMPP_LOOP_RUNNING"
    using assms(1) by (auto simp: waits_def)
  then show ?thesis using assms(2)
    by (auto simp: each_conn_def watch_conn_def waits_def waiting_def session_conn_def enter_def leave_def time_stamp_def
        fd_set_def Let_def)
qed

lemma watch_timeout:
  assumes "waits h stamp limit (t # ts) cx" "\<not> time_elapsed stamp t \<le> limit"
    "\<And>c. en_conn en h XMPP_CONN_DISCONNECT c = Some (xmpp_stop c)"
  shows "\<exists>w cx' s. each_conn (watch_conn pf en) \<lparr> w_rfds = [], w_wfds = [], w_max = 0, w_tls_bytes = 0 \<rparr> cx = Some (w, cx') \<and>
    connlist cx' = [s] \<and> conn_state (session_conn s) = XMPP_STATE_DISCONNECTED \<and>
    conn_error (session_conn s) = ETIMEDOUT \<and> loop_status cx' = XMPP_LOOP_QUIT \<and> w_tls_bytes w = 0"
proof -
  obtain s where s: "connlist cx = [s]" "waiting h stamp limit s" "ctx_clock cx = t # ts" "loop_status cx = XMPP_LOOP_RUNNING"
    using assms(1) by (auto simp: waits_def)
  then show ?thesis using assms(2)
    by (cases ts) (auto simp: each_conn_def watch_conn_def waiting_def session_conn_def enter_def leave_def
        time_stamp_def fd_set_def conn_disconnect_def call_conn_handler_def assms(3) xmpp_stop_def stop_status_def Let_def)
qed

subsection \<open>Rounds\<close>

text \<open>\<open>select\<close> reports no event.\<close>

definition silent :: "('x, 'n) platform \<Rightarrow> bool" where
  "silent pf \<longleftrightarrow> (\<forall>k r w tv n. fst (sys_select pf k r w tv n) \<le> 0)"

lemma quiet_round:
  assumes "silent pf" "loop_status cx \<noteq> XMPP_LOOP_QUIT"
    "each_conn (net_session (send_conn pf en)) () (cx\<lparr>loop_status := XMPP_LOOP_RUNNING\<rparr>) = Some ((), c1)"
    "each_conn (reset_conn pf) () c1 = Some ((), c2)" "handler_fire_timed en c2 = Some (m, c3)"
    "each_conn (watch_conn pf en) \<lparr> w_rfds = [], w_wfds = [], w_max = 0, w_tls_bytes = 0 \<rparr> c3 = Some (w, c4)"
    "w_tls_bytes w = 0"
  shows "\<exists>n. xmpp_run_once pf en timeout cx = Some (c4\<lparr>ctx_net := n\<rparr>)"
proof -
  define usec where "usec = sint ((if m < timeout then m else timeout) * 1000)"
  obtain ret rfds wfds n where sel: "sys_select pf (w_max w + 1) (w_rfds w) (w_wfds w)
      (usec sdiv 1000000, usec smod 1000000) (ctx_net c4) = (ret, rfds, wfds, n)"
    using prod_cases4 by blast
  then have "ret \<le> 0" using assms(1) unfolding silent_def by (metis fst_conv)
  then have "ret < 0 \<or> (ret = 0 \<and> w_tls_bytes w = 0)" using assms(7) by linarith
  then have "xmpp_run_once pf en timeout cx = Some (c4\<lparr>ctx_net := n\<rparr>)"
    unfolding xmpp_run_once_def using assms(2-6) sel by (simp add: Let_def usec_def)
  then show ?thesis by blast
qed

lemma waits_start:
  assumes "waits h stamp limit clock cx"
  shows "\<exists>c1 c2 c3. each_conn (net_session (send_conn pf en)) () (cx\<lparr>loop_status := XMPP_LOOP_RUNNING\<rparr>) = Some ((), c1) \<and>
    each_conn (reset_conn pf) () c1 = Some ((), c2) \<and> handler_fire_timed en c2 = Some (- 1, c3) \<and> waits h stamp limit clock c3"
proof -
  have "cx\<lparr>loop_status := XMPP_LOOP_RUNNING\<rparr> = cx" using assms by (simp add: waits_def)
  then show ?thesis using waits_send [OF assms] waits_reset waits_timed by metis
qed

lemma round_waits:
  assumes "silent pf" "waits h stamp limit (t # t' # ts) cx" "time_elapsed stamp t \<le> limit"
  shows "\<exists>cx'. xmpp_run_once pf en timeout cx = Some cx' \<and> waits h stamp limit (t' # ts) cx'"
proof -
  obtain c1 c2 c3 where c: "each_conn (net_session (send_conn pf en)) () (cx\<lparr>loop_status := XMPP_LOOP_RUNNING\<rparr>) = Some ((), c1)"
    "each_conn (reset_conn pf) () c1 = Some ((), c2)" "handler_fire_timed en c2 = Some (- 1, c3)"
    "waits h stamp limit (t # t' # ts) c3"
    using waits_start [OF assms(2)] by blast
  obtain w c4 where c4: "each_conn (watch_conn pf en) \<lparr> w_rfds = [], w_wfds = [], w_max = 0, w_tls_bytes = 0 \<rparr> c3 = Some (w, c4)"
    "waits h stamp limit (t' # ts) c4" "w_tls_bytes w = 0"
    using waits_watch [OF c(4) assms(3)] by blast
  have "waits h stamp limit (t' # ts) (c4\<lparr>ctx_net := n\<rparr>)" for n using c4(2) by (simp add: waits_def)
  moreover have "loop_status cx \<noteq> XMPP_LOOP_QUIT" using assms(2) by (simp add: waits_def)
  ultimately show ?thesis using quiet_round [OF assms(1) _ c(1-3) c4(1,3)] by blast
qed

lemma round_timeout:
  assumes "silent pf" "waits h stamp limit (t # ts) cx" "\<not> time_elapsed stamp t \<le> limit"
    "\<And>c. en_conn en h XMPP_CONN_DISCONNECT c = Some (xmpp_stop c)"
  shows "\<exists>cx' s. xmpp_run_once pf en timeout cx = Some cx' \<and> connlist cx' = [s] \<and>
    conn_state (session_conn s) = XMPP_STATE_DISCONNECTED \<and> conn_error (session_conn s) = ETIMEDOUT \<and>
    loop_status cx' = XMPP_LOOP_QUIT"
proof -
  obtain c1 c2 c3 where c: "each_conn (net_session (send_conn pf en)) () (cx\<lparr>loop_status := XMPP_LOOP_RUNNING\<rparr>) = Some ((), c1)"
    "each_conn (reset_conn pf) () c1 = Some ((), c2)" "handler_fire_timed en c2 = Some (- 1, c3)"
    "waits h stamp limit (t # ts) c3"
    using waits_start [OF assms(2)] by blast
  obtain w c4 s where c4: "each_conn (watch_conn pf en) \<lparr> w_rfds = [], w_wfds = [], w_max = 0, w_tls_bytes = 0 \<rparr> c3 = Some (w, c4)"
    "w_tls_bytes w = 0" "connlist c4 = [s] \<and> conn_state (session_conn s) = XMPP_STATE_DISCONNECTED \<and>
      conn_error (session_conn s) = ETIMEDOUT \<and> loop_status c4 = XMPP_LOOP_QUIT"
    using watch_timeout [OF c(4) assms(3,4)] by blast
  have "loop_status cx \<noteq> XMPP_LOOP_QUIT" using assms(2) by (simp add: waits_def)
  then show ?thesis using quiet_round [OF assms(1) _ c(1-3) c4(1,2)] c4(3)
    by (metis xmpp_ctx_t.select_convs(1,5) xmpp_ctx_t.surjective xmpp_ctx_t.update_convs(4))
qed

lemma run_loop_round: "loop_status cx = XMPP_LOOP_RUNNING \<Longrightarrow> xmpp_run_once pf en DEFAULT_TIMEOUT cx = Some cx' \<Longrightarrow>
    run_loop pf en cx = run_loop pf en cx'"
  by (simp add: run_loop.simps [of pf en cx])

lemma run_loop_timeout:
  assumes "silent pf" "\<not> time_elapsed stamp t \<le> limit" "\<And>c. en_conn en h XMPP_CONN_DISCONNECT c = Some (xmpp_stop c)"
  shows "waits h stamp limit (ticks @ t # ts) cx \<Longrightarrow> \<forall>x \<in> set ticks. time_elapsed stamp x \<le> limit \<Longrightarrow>
    \<exists>cx' s. run_loop pf en cx = Some cx' \<and> connlist cx' = [s] \<and>
      conn_state (session_conn s) = XMPP_STATE_DISCONNECTED \<and> conn_error (session_conn s) = ETIMEDOUT \<and>
      loop_status cx' = XMPP_LOOP_QUIT"
proof (induction ticks arbitrary: cx)
  case Nil
  then have r: "loop_status cx = XMPP_LOOP_RUNNING" by (simp add: waits_def)
  obtain cx' s where c: "xmpp_run_once pf en DEFAULT_TIMEOUT cx = Some cx'" "loop_status cx' = XMPP_LOOP_QUIT"
    "connlist cx' = [s] \<and> conn_state (session_conn s) = XMPP_STATE_DISCONNECTED \<and> conn_error (session_conn s) = ETIMEDOUT"
    using round_timeout [OF assms(1) _ assms(2,3), of ts cx] Nil.prems(1) by fastforce
  have "run_loop pf en cx' = Some cx'" using c(2) by (simp add: run_loop.simps [of pf en cx'])
  then have "run_loop pf en cx = Some cx'" using run_loop_round [OF r c(1)] by simp
  then show ?case using c(2,3) by blast
next
  case (Cons x ticks)
  have r: "loop_status cx = XMPP_LOOP_RUNNING" using Cons.prems(1) by (simp add: waits_def)
  obtain y ys where y: "ticks @ t # ts = y # ys" by (cases ticks) auto
  obtain cx' where c: "xmpp_run_once pf en DEFAULT_TIMEOUT cx = Some cx'" "waits h stamp limit (ticks @ t # ts) cx'"
    using round_waits [OF assms(1), of h stamp limit x y ys cx en DEFAULT_TIMEOUT] Cons.prems y
    by (metis append_Cons list.set_intros(1))
  show ?case using Cons.IH [OF c(2)] Cons.prems(2) run_loop_round [OF r c(1)] by simp
qed

text \<open>
  Claim C12.  When the peer never answers, and the connection handler stops the loop when the connection is lost,
  \<open>xmpp_run\<close> returns: in the first round in which the time since the attempt exceeds the connection timeout, with the
  connection disconnected and the timeout as its error.
\<close>

theorem connect_timeout_ends_run:
  assumes "silent pf" "loop_status cx = XMPP_LOOP_NOTSTARTED" "connlist cx = [s]" "waiting h stamp limit s"
    "ctx_clock cx = ticks @ t # ts" "\<forall>x \<in> set ticks. time_elapsed stamp x \<le> limit" "limit < time_elapsed stamp t"
    "\<And>c. en_conn en h XMPP_CONN_DISCONNECT c = Some (xmpp_stop c)"
  shows "\<exists>cx' s'. xmpp_run pf en cx = Some cx' \<and> loop_status cx' = XMPP_LOOP_QUIT \<and> connlist cx' = [s'] \<and>
    conn_state (session_conn s') = XMPP_STATE_DISCONNECTED \<and> conn_error (session_conn s') = ETIMEDOUT"
proof -
  have "waits h stamp limit (ticks @ t # ts) (cx\<lparr>loop_status := XMPP_LOOP_RUNNING\<rparr>)"
    using assms(3-5) by (cases s) (simp add: waits_def)
  moreover have "\<not> time_elapsed stamp t \<le> limit" using assms(7) by simp
  ultimately show ?thesis using run_loop_timeout [OF assms(1) _ assms(8) _ assms(6)] assms(2)
    unfolding xmpp_run_def by (metis xmpp_loop_status_t.distinct(1))
qed

definition sample_ctx :: "(unit, string) xmpp_ctx_t" where
  "sample_ctx = \<lparr> loop_status = XMPP_LOOP_NOTSTARTED, ctx_mem = [], ctx_clock = [100, 5000, 5001], ctx_net = [],
     connlist = [(\<lparr> p_expat = Some (), p_depth = 0, p_stanza = None \<rparr>,
       \<lparr> e_store = empty_store, e_mem = [], e_userdata =
         sample_xmpp_conn\<lparr>conn_state := XMPP_STATE_CONNECTING, conn_sock := 3\<rparr> \<rparr>)] \<rparr>"

theorem connect_timeout_ends_run_witness:
  "\<exists>cx'. xmpp_run slow_platform (sample_environ\<lparr>en_conn := (\<lambda>h ev c. Some (xmpp_stop c))\<rparr>) sample_ctx = Some cx' \<and>
    loop_status cx' = XMPP_LOOP_QUIT"
proof -
  have "silent slow_platform" by (simp add: silent_def slow_platform_def)
  from connect_timeout_ends_run [OF this, of sample_ctx _ 0 0 5000 "[100, 5000]" 5001 "[]"
      "sample_environ\<lparr>en_conn := (\<lambda>h ev c. Some (xmpp_stop c))\<rparr>"]
  show ?thesis
    by (fastforce simp: sample_ctx_def waiting_def session_conn_def sample_xmpp_simps time_elapsed_def)
qed

subsection \<open>An error that stays\<close>

lemma connect_client_keeps:
  "xmpp_connect_client srv connect c altdomain altport callback = Some (0, c') \<Longrightarrow>
    conn_error c' = conn_error c \<and> conn_handler c' = callback \<and> conn_tls c' = conn_tls c"
  by (auto simp: xmpp_connect_client_def time_stamp_def Let_def split: option.splits prod.splits list.splits if_splits
      bind_splits)

lemma send_raw_keeps:
  "conn_error (xmpp_send_raw c s) = conn_error c" "conn_handler (xmpp_send_raw c s) = conn_handler c"
  "conn_tls (xmpp_send_raw c s) = conn_tls c" "conn_state (xmpp_send_raw c s) = conn_state c"
  by (simp_all add: xmpp_send_raw_def conn_alloc_def split: prod.splits bool.splits)

lemma send_raw_string_keeps:
  "xmpp_send_raw_string c fmt args = Some c' \<Longrightarrow>
    conn_error c' = conn_error c \<and> conn_handler c' = conn_handler c \<and> conn_tls c' = conn_tls c \<and> conn_state c' = conn_state c"
  by (auto simp: xmpp_send_raw_string_def conn_alloc_def Let_def send_raw_keeps
      split: prod.splits bool.splits if_splits bind_splits)

lemma send_loop_keeps:
  "(\<And>k s n. 0 \<le> fst (sys_send pf k s n)) \<Longrightarrow> \<not> conn_tls c \<Longrightarrow> send_loop pf q c n = (c', n') \<Longrightarrow>
    conn_error c' = conn_error c \<and> conn_handler c' = conn_handler c \<and> conn_tls c' = conn_tls c"
proof (induction pf q c n rule: send_loop.induct)
  case (2 pf sq rest c n)
  obtain ret n1 where w: "sys_send pf (conn_sock c) (drop (sq_written sq) (sq_data sq)) n = (ret, n1)"
    by (cases "sys_send pf (conn_sock c) (drop (sq_written sq) (sq_data sq)) n")
  then have "0 \<le> ret" using 2(2) by (metis fst_conv)
  then have s: "write_some pf c (drop (sq_written sq) (sq_data sq)) n = (ret, None, n1)"
    using 2(3) w by (simp add: write_some_def sock_write_def)
  show ?case
  proof (cases "ret < int (length (sq_data sq)) - int (sq_written sq)")
    case True
    then show ?thesis using 2(4) s by (auto simp: Let_def)
  next
    case False
    then show ?thesis using 2(1) [OF refl s [symmetric] refl] 2(2-4) s by (simp add: Let_def)
  qed
qed auto

text \<open>
  Claim C31.  \<open>xmpp_connect_client\<close> keeps the error of the connection's last life, and the first round that sends on
  the new, healthy stream takes it for an error of its own: the connection handler is told that the connection is
  lost, although every write succeeds.
\<close>

theorem reconnect_keeps_error:
  assumes "conn_error c \<noteq> 0" "\<not> conn_tls c" "\<And>k s n. 0 \<le> fst (sys_send pf k s n)"
    "xmpp_connect_client srv connect c altdomain altport (Some h) = Some (0, c1)"
    "conn_open_stream (c1\<lparr>conn_state := XMPP_STATE_CONNECTED\<rparr>) = Some c2"
  shows "\<exists>c3 n'. send_conn pf en c2 n = map_option (\<lambda>c. (c, n')) (en_conn en h XMPP_CONN_DISCONNECT c3) \<and>
    conn_state c3 = XMPP_STATE_DISCONNECTED \<and> conn_error c3 = ECONNABORTED"
proof -
  have c2: "conn_error c2 \<noteq> 0" "conn_handler c2 = Some h" "\<not> conn_tls c2" "conn_state c2 = XMPP_STATE_CONNECTED"
    using connect_client_keeps [OF assms(4)] send_raw_string_keeps [OF assms(5) [unfolded conn_open_stream_def]] assms(1,2)
    by simp_all
  obtain c3 n' where l: "send_loop pf (send_queue c2) c2 n = (c3, n')" by (cases "send_loop pf (send_queue c2) c2 n")
  have "conn_error c3 \<noteq> 0" "conn_handler c3 = Some h"
    using send_loop_keeps [OF assms(3) c2(3) l] c2(1,2) by simp_all
  then have "send_conn pf en c2 n = map_option (\<lambda>c. (c, n')) (en_conn en h XMPP_CONN_DISCONNECT
      (c3\<lparr>conn_error := ECONNABORTED, conn_state := XMPP_STATE_DISCONNECTED, conn_tls := False\<rparr>))"
    using c2 l by (simp add: send_conn_def conn_disconnect_def call_conn_handler_def map_option_case bind_map_option
        split: option.split)
  then show ?thesis by fastforce
qed

theorem reconnect_keeps_error_witness:
  "\<exists>c1 c2 c3 n'. xmpp_connect_client (\<lambda>d. None) (\<lambda>d p. 3) (sample_xmpp_conn\<lparr>conn_error := ECONNRESET\<rparr>) None 0 (Some 0) = Some (0, c1) \<and>
    conn_open_stream (c1\<lparr>conn_state := XMPP_STATE_CONNECTED\<rparr>) = Some c2 \<and>
    send_conn slow_platform sample_environ c2 [] = Some (c3, n') \<and> conn_state c3 = XMPP_STATE_DISCONNECTED"
proof -
  let ?c = "sample_xmpp_conn\<lparr>conn_error := ECONNRESET\<rparr>"
  obtain c1 where c1: "xmpp_connect_client (\<lambda>d. None) (\<lambda>d p. 3) ?c None 0 (Some 0) = Some (0, c1)" "hc_mem c1 = []"
    "domain c1 = Some ''d.org''" "lang c1 = Some ''en''"
    by (simp add: xmpp_connect_client_def sample_xmpp_simps xmpp_jid_domain_def strchr_def time_stamp_def Let_def)
  obtain c2 where c2: "conn_open_stream (c1\<lparr>conn_state := XMPP_STATE_CONNECTED\<rparr>) = Some c2"
    unfolding conn_open_stream_def using send_raw_string_queues [OF stream_header_text] c1(2-4) by simp
  have "\<exists>c3 n'. send_conn slow_platform sample_environ c2 [] =
      map_option (\<lambda>c. (c, n')) (en_conn sample_environ 0 XMPP_CONN_DISCONNECT c3) \<and>
      conn_state c3 = XMPP_STATE_DISCONNECTED \<and> conn_error c3 = ECONNABORTED"
    by (rule reconnect_keeps_error [OF _ _ _ c1(1) c2])
      (simp_all add: sample_xmpp_simps errno_defs slow_platform_def)
  then show ?thesis using c1(1) c2 by (fastforce simp: sample_environ_def)
qed

end
