(* ===== verification/Timed_Facts.thy ===== *)
theory Timed_Facts
  imports Handler_Lists
begin

section \<open>Firing timed handlers\<close>

text \<open>
  What one round of the timed handlers of a connection does, over the list of the handlers at its start, and the
  waiting time that it computes.
\<close>

subsection \<open>The round\<close>

text \<open>The time of the call is stored in the item before the call.\<close>

definition stamp_item :: "('h, 'u, 'z) hconn_scheme \<Rightarrow> nat \<Rightarrow> u64 \<Rightarrow> ('h, 'u, 'z) hconn_scheme option" where
  "stamp_item c p now = map_option
     (\<lambda>i. put_item c p (i\<lparr>hl_key := Timed_key (hk_period (hl_key i)) now\<rparr>)) (hc_items c p)"

text \<open>The specification: every handler that may run is called when its period is over, and deleted by its function when
  it is one-shot; the others make the waiting time smaller.\<close>

fun timed_each ::
    "('h \<Rightarrow> 'u \<Rightarrow> ('h, 'u, 'z) hconn_scheme \<Rightarrow> (bool \<times> ('h, 'u, 'z) hconn_scheme) option) \<Rightarrow>
      ('h, 'u) node list \<Rightarrow> u64 \<Rightarrow> ('h, 'u, 'z) hconn_scheme \<Rightarrow> (u64 \<times> ('h, 'u, 'z) hconn_scheme) option" where
  "timed_each call [] mn c = Some (mn, c)"
| "timed_each call ((p, i) # rest) mn c =
     (if hl_user_handler i \<and> \<not> authenticated c then timed_each call rest mn c
      else (case time_stamp c of (now, c) \<Rightarrow>
        let elapsed = time_elapsed (hk_last_stamp (hl_key i)) now; period = hk_period (hl_key i)
        in if elapsed \<ge> period then
             (case time_stamp c of (now, c) \<Rightarrow> do {
               c \<leftarrow> stamp_item c p now;
               (ret, c) \<leftarrow> call (hl_handler i) (hl_userdata i) c;
               c \<leftarrow> (if ret then Some c else xmpp_timed_handler_delete c (hl_handler i));
               timed_each call rest mn c })
           else timed_each call rest (if mn > period - elapsed then period - elapsed else mn) c))"

text \<open>Timed handler functions that return, and that may add handlers but not delete timed ones.\<close>

definition timed_additive ::
    "('h \<Rightarrow> 'u \<Rightarrow> ('h, 'u, 'z) hconn_scheme \<Rightarrow> (bool \<times> ('h, 'u, 'z) hconn_scheme) option) \<Rightarrow> bool" where
  "timed_additive call \<longleftrightarrow> (\<forall>h u c hs ts. conn_lists c hs ts \<and> hc_mem c = [] \<longrightarrow>
     (\<exists>ret c' hs' new. call h u c = Some (ret, c') \<and> hc_mem c' = [] \<and> conn_lists c' hs' (ts @ new) \<and>
       (\<forall>x \<in> set new. \<not> hl_enabled (snd x))))"

lemma time_stamp_frame:
  "time_stamp c = (now, c') \<Longrightarrow> hc_items c' = hc_items c \<and> hc_mem c' = hc_mem c \<and> authenticated c' = authenticated c \<and>
    (conn_lists c' hs ts \<longleftrightarrow> conn_lists c hs ts)"
  by (auto simp: time_stamp_def conn_lists_def split: list.splits)

lemma timed_chain:
  "conn_lists c hs (us @ (p, i) # zs) \<Longrightarrow> hc_items c p = Some (i\<lparr>hl_next := first_of zs None\<rparr>)"
  "conn_lists c hs ts \<Longrightarrow> chain (hc_items c) ts None"
  unfolding conn_lists_def two_lists_def by auto

lemma two_lists_replace:
  assumes "two_lists it n a b xs (us @ (p, i) # zs)" "hl_handler j = hl_handler i"
  shows "two_lists (it(p := Some (j\<lparr>hl_next := first_of zs None\<rparr>))) n a b xs (us @ (p, j) # zs)"
proof -
  have l: "a = first_of xs None" "b = first_of (us @ (p, i) # zs) None" "chain it xs None" "chain it (us @ (p, i) # zs) None"
    "distinct (map fst xs)" "distinct (map fst (us @ (p, i) # zs))" "fst ` set xs \<inter> fst ` set (us @ (p, i) # zs) = {}"
    "distinct (funs xs)" "distinct (funs (us @ (p, i) # zs))" "\<forall>q \<in> fst ` set xs \<union> fst ` set (us @ (p, i) # zs). q < n"
    using assms(1) unfolding two_lists_def by blast+
  let ?it = "it(p := Some (j\<lparr>hl_next := first_of zs None\<rparr>))"
  have p: "p \<notin> fst ` set us" "p \<notin> fst ` set zs" "p \<notin> fst ` set xs" using l(6,7) by auto
  have "chain ?it xs None" using l(3) p by simp
  moreover have "chain ?it (us @ (p, j) # zs) None" using l(4) p by simp
  moreover have "b = first_of (us @ (p, j) # zs) None" using l(2) by simp
  moreover have "distinct (map fst (us @ (p, j) # zs))" "distinct (funs (us @ (p, j) # zs))" using l(6,9) assms(2) by simp_all
  moreover have "fst ` set xs \<inter> fst ` set (us @ (p, j) # zs) = {}" using l(7) by simp
  moreover have "\<forall>q \<in> fst ` set xs \<union> fst ` set (us @ (p, j) # zs). q < n" using l(10) by simp
  ultimately show ?thesis unfolding two_lists_def using l(1,5,8) by blast
qed

lemma stamp_lists:
  assumes "conn_lists c hs (us @ (p, i) # zs)"
  shows "\<exists>c' j. stamp_item c p now = Some c' \<and> conn_lists c' hs (us @ (p, j) # zs) \<and> hl_handler j = hl_handler i \<and>
    hc_mem c' = hc_mem c \<and> c' = put_item c p (i\<lparr>hl_next := first_of zs None, hl_key := Timed_key (hk_period (hl_key i)) now\<rparr>)"
proof -
  let ?j = "i\<lparr>hl_key := Timed_key (hk_period (hl_key i)) now\<rparr>"
  have "conn_lists (put_item c p (?j\<lparr>hl_next := first_of zs None\<rparr>)) hs (us @ (p, ?j) # zs)"
    using two_lists_replace [OF assms [unfolded conn_lists_def], of ?j] by (simp add: conn_lists_def)
  moreover have "?j\<lparr>hl_next := first_of zs None\<rparr> = i\<lparr>hl_next := first_of zs None, hl_key := Timed_key (hk_period (hl_key i)) now\<rparr>"
    by (cases i) simp
  ultimately have "conn_lists (put_item c p (i\<lparr>hl_next := first_of zs None, hl_key := Timed_key (hk_period (hl_key i)) now\<rparr>)) hs
      (us @ (p, ?j) # zs)" by simp
  then show ?thesis using timed_chain(1) [OF assms]
    by (intro exI [of _ "put_item c p (i\<lparr>hl_next := first_of zs None, hl_key := Timed_key (hk_period (hl_key i)) now\<rparr>)"]
        exI [of _ ?j]) (simp add: stamp_item_def)
qed

lemma fire_timed_disabled:
  "chain (hc_items c) new None \<Longrightarrow> \<forall>x \<in> set new. \<not> hl_enabled (snd x) \<Longrightarrow>
    fire_timed_loop call (first_of new None) mn c = Some (mn, c)"
proof (induction new)
  case (Cons x new)
  obtain p i where x: "x = (p, i)" by (cases x)
  show ?case using Cons by (simp add: x fire_timed_loop.simps [of call "Some p" mn c])
qed (simp add: fire_timed_loop.simps)

lemma fire_timed_snapshot:
  assumes "timed_additive call"
  shows "conn_lists c hs (us @ todo @ new) \<Longrightarrow> hc_mem c = [] \<Longrightarrow> \<forall>x \<in> set todo. hl_enabled (snd x) \<Longrightarrow>
    \<forall>x \<in> set new. \<not> hl_enabled (snd x) \<Longrightarrow>
    fire_timed_loop call (first_of (todo @ new) None) mn c = timed_each call todo mn c"
proof (induction todo arbitrary: us new hs c mn)
  case Nil
  then show ?case using fire_timed_disabled [of c new] timed_chain(2) [OF Nil(1)] by simp
next
  case (Cons x todo)
  obtain p i where x: "x = (p, i)" by (cases x)
  have it: "hc_items c p = Some (i\<lparr>hl_next := first_of (todo @ new) None\<rparr>)"
    using timed_chain(1) [of c hs us p i "todo @ new"] Cons.prems(1) x by simp
  have en: "hl_enabled i" "\<forall>x \<in> set todo. hl_enabled (snd x)" using Cons.prems(3) x by simp_all
  have skip: "fire_timed_loop call (first_of (todo @ new) None) m c1 = timed_each call todo m c1"
    if "conn_lists c1 hs ((us @ [x]) @ todo @ new)" "hc_mem c1 = []" for c1 m
    using Cons.IH [of c1 hs "us @ [x]" new m] that Cons.prems(4) en by blast
  obtain now c1 where t1: "time_stamp c = (now, c1)" by (cases "time_stamp c")
  obtain now2 c2 where t2: "time_stamp c1 = (now2, c2)" by (cases "time_stamp c1")
  note f1 = time_stamp_frame [OF t1] and f2 = time_stamp_frame [OF t2]
  have l2: "conn_lists c2 hs (us @ (p, i) # (todo @ new))" using Cons.prems(1) f1 f2 x by simp
  note step = fire_timed_loop.simps [of call "Some p" mn c]
  let ?elapsed = "time_elapsed (hk_last_stamp (hl_key i)) now" and ?period = "hk_period (hl_key i)"
  show ?case
  proof (cases "hl_user_handler i \<and> \<not> authenticated c \<or> ?elapsed < ?period")
    case True
    then show ?thesis using it en(1) skip [of c] skip [of c1] f1 Cons.prems(1,2) t1 x
      by (auto simp: step Let_def)
  next
    case False
    obtain c3 j where c3: "stamp_item c2 p now2 = Some c3" "conn_lists c3 hs (us @ (p, j) # (todo @ new))"
      "hl_handler j = hl_handler i" "hc_mem c3 = hc_mem c2"
      "c3 = put_item c2 p (i\<lparr>hl_next := first_of (todo @ new) None, hl_key := Timed_key ?period now2\<rparr>)"
      using stamp_lists [OF l2, of now2] by blast
    obtain ret c4 hs' new' where c4: "call (hl_handler i) (hl_userdata i) c3 = Some (ret, c4)" "hc_mem c4 = []"
      "conn_lists c4 hs' ((us @ (p, j) # todo @ new) @ new')" "\<forall>x \<in> set new'. \<not> hl_enabled (snd x)"
      using assms c3(2,4) f1 f2 Cons.prems(2) unfolding timed_additive_def by (metis append_assoc append_Cons)
    have it4: "hc_items c4 p = Some (j\<lparr>hl_next := first_of (todo @ new @ new') None\<rparr>)"
      using timed_chain(1) [of c4 hs' us p j "todo @ new @ new'"] c4(3) by simp
    have nw: "\<forall>x \<in> set (new @ new'). \<not> hl_enabled (snd x)" using Cons.prems(4) c4(4) by auto
    have red: "fire_timed_loop call (first_of (x # todo @ new) None) mn c =
        Option.bind (if ret then Some c4 else xmpp_timed_handler_delete c4 (hl_handler i))
          (fire_timed_loop call (first_of (todo @ new @ new') None) mn)"
      using False it en(1) t1 t2 c3(5) c4(1) it4 c3(3) x by (auto simp: step Let_def)
    have red': "timed_each call (x # todo) mn c =
        Option.bind (if ret then Some c4 else xmpp_timed_handler_delete c4 (hl_handler i)) (timed_each call todo mn)"
      using False t1 t2 c3(1) c4(1) x by (auto simp: Let_def)
    show ?thesis
    proof (cases ret)
      case True
      have "fire_timed_loop call (first_of (todo @ new @ new') None) mn c4 = timed_each call todo mn c4"
        using Cons.IH [of c4 hs' "us @ [(p, j)]" "new @ new'" mn] c4(2,3) en(2) nw by simp
      then show ?thesis using red red' True by simp
    next
      case ret: False
      obtain c5 where c5: "xmpp_timed_handler_delete c4 (hl_handler j) = Some c5" "same_rest c4 c5"
        "conn_lists c5 hs' (without (hl_handler j) ((us @ (p, j) # todo @ new) @ new'))"
        using delete_timed_lists [OF c4(3), of "hl_handler j"] by blast
      have "distinct (funs (us @ (p, j) # todo @ new @ new'))"
        using c4(3) unfolding conn_lists_def two_lists_def by simp
      then have "conn_lists c5 hs' (us @ todo @ new @ new')" using c5(3) without_present [of us p j "todo @ new @ new'"] by simp
      then have "fire_timed_loop call (first_of (todo @ new @ new') None) mn c5 = timed_each call todo mn c5"
        using Cons.IH [of c5 hs' us "new @ new'" mn] c5(2) c4(2) en(2) nw by (simp add: same_rest_def)
      then show ?thesis using red red' ret c5(1) c3(3) by simp
    qed
  qed
qed

lemma enable_timed_lists:
  assumes "conn_lists c hs ts"
  shows "\<exists>c'. enable_loop (timed_handlers c) c = Some c' \<and> conn_lists c' hs (map enable ts) \<and> same_rest c c' \<and> hc_clock c' = hc_clock c"
proof -
  have l: "timed_handlers c = first_of ts None" "chain (hc_items c) ts None" "distinct (map fst ts)"
    "fst ` set hs \<inter> fst ` set ts = {}" "chain (hc_items c) hs None"
    using assms unfolding conn_lists_def two_lists_def by blast+
  obtain it where it: "enable_loop (first_of ts None) c = Some (c\<lparr>hc_items := it\<rparr>)" "chain it (map enable ts) None"
    "\<forall>q. q \<notin> fst ` set ts \<longrightarrow> it q = hc_items c q" using enable_loop_chain [OF l(2,3)] by blast
  have "chain it hs None" by (rule chain_other [OF l(5) it(3)]) (use l(4) in blast)
  then have "conn_lists (c\<lparr>hc_items := it\<rparr>) hs (map enable ts)"
    using assms it(2) unfolding conn_lists_def two_lists_def by (simp del: map_map)
  then show ?thesis using it(1) l(1) by (auto simp: same_rest_def)
qed


definition sample_timed_nodes :: "(nat, unit) node list" where
  "sample_timed_nodes = [(0, blank_handler False 10 () (Timed_key 5 0)), (1, blank_handler False 11 () (Timed_key 50 0)),
     (2, blank_handler True 13 () (Timed_key 1 0))]"

definition sample_timed_conn :: "(nat, unit) hconn" where
  "sample_timed_conn = \<lparr>
     hc_items = (\<lambda>_. None)(0 := Some ((blank_handler False 10 () (Timed_key 5 0))\<lparr>hl_next := Some 1\<rparr>),
       1 := Some ((blank_handler False 11 () (Timed_key 50 0))\<lparr>hl_next := Some 2\<rparr>),
       2 := Some (blank_handler True 13 () (Timed_key 1 0))),
     hc_fresh = 3, hc_mem = [], hc_clock = [20], conn_state = XMPP_STATE_CONNECTED, authenticated = False,
     timed_handlers = Some 0, id_handlers = fresh_table 32 False, handlers = None \<rparr>"

lemma sample_timed_lists: "conn_lists sample_timed_conn [] sample_timed_nodes"
  by (auto simp: conn_lists_def two_lists_def sample_timed_conn_def sample_timed_nodes_def blank_handler_def)

text \<open>The handler 10 adds another one and stays; the others are one-shot.\<close>

definition sample_timed_call :: "nat \<Rightarrow> unit \<Rightarrow> (nat, unit) hconn \<Rightarrow> (bool \<times> (nat, unit) hconn) option" where
  "sample_timed_call h u c = (if h = 10 then map_option (Pair True) (handler_add_timed c 12 7 ()) else Some (False, c))"

lemma sample_timed_additive: "timed_additive sample_timed_call"
  unfolding timed_additive_def
proof (intro allI impI, elim conjE)
  fix h and u :: unit and c :: "(nat, unit) hconn" and hs ts :: "(nat, unit) node list"
  assume c: "conn_lists c hs ts" "hc_mem c = []"
  show "\<exists>ret c' hs' new. sample_timed_call h u c = Some (ret, c') \<and> hc_mem c' = [] \<and> conn_lists c' hs' (ts @ new) \<and>
    (\<forall>x \<in> set new. \<not> hl_enabled (snd x))"
  proof (cases "h = 10")
    case True
    obtain c' now where c': "handler_add_timed c 12 7 () = Some c'" "same_rest c c'"
      "conn_lists c' hs (if 12 \<in> set (funs ts) then ts else ts @ [(hc_fresh c, blank_handler False 12 () (Timed_key 7 now))])"
      using add_timed_lists [OF c, of 12 7 "()" False] unfolding handler_add_timed_def by blast
    then show ?thesis using True c(2)
      by (intro exI [of _ True] exI [of _ c'] exI [of _ hs] exI [of _ "if 12 \<in> set (funs ts) then []
          else [(hc_fresh c, blank_handler False 12 () (Timed_key 7 now))]"])
        (auto simp: sample_timed_call_def same_rest_def blank_handler_def)
  next
    case False
    then show ?thesis using c
      by (intro exI [of _ False] exI [of _ c] exI [of _ hs] exI [of _ "[]"]) (simp add: sample_timed_call_def)
  qed
qed


subsection \<open>The waiting time\<close>

text \<open>What is left of the period of a handler at a time.\<close>

definition time_left :: "u64 \<Rightarrow> ('h, 'u) handlist \<Rightarrow> u64" where
  "time_left now i = hk_period (hl_key i) - time_elapsed (hk_last_stamp (hl_key i)) now"

definition may_run :: "('h, 'u, 'z) hconn_scheme \<Rightarrow> ('h, 'u) handlist \<Rightarrow> bool" where
  "may_run c i \<longleftrightarrow> \<not> hl_user_handler i \<or> authenticated c"

lemma time_stamp_still: "hc_clock c = [now] \<Longrightarrow> time_stamp c = (now, c)"
  by (simp add: time_stamp_def)

lemma timed_each_idle:
  assumes "hc_clock c = [now]"
    "\<forall>x \<in> set xs. may_run c (snd x) \<longrightarrow> time_elapsed (hk_last_stamp (hl_key (snd x))) now < hk_period (hl_key (snd x))"
  shows "\<exists>w. timed_each call xs mn c = Some (w, c) \<and> w \<le> mn \<and> (\<forall>x \<in> set xs. may_run c (snd x) \<longrightarrow> w \<le> time_left now (snd x)) \<and>
    (w = mn \<or> (\<exists>x \<in> set xs. may_run c (snd x) \<and> w = time_left now (snd x)))"
  using assms(2)
proof (induction xs arbitrary: mn)
  case (Cons x xs)
  obtain p i where x: "x = (p, i)" by (cases x)
  show ?case
  proof (cases "may_run c i")
    case False
    then show ?thesis using Cons.IH [of mn] Cons.prems x by (auto simp: may_run_def)
  next
    case True
    let ?mn = "if mn > time_left now i then time_left now i else mn"
    obtain w where w: "timed_each call xs ?mn c = Some (w, c)" "w \<le> ?mn"
      "\<forall>x \<in> set xs. may_run c (snd x) \<longrightarrow> w \<le> time_left now (snd x)"
      "w = ?mn \<or> (\<exists>x \<in> set xs. may_run c (snd x) \<and> w = time_left now (snd x))"
      using Cons.IH [of ?mn] Cons.prems by auto
    have "timed_each call (x # xs) mn c = timed_each call xs ?mn c"
      using True Cons.prems x time_stamp_still [OF assms(1)] by (auto simp: may_run_def time_left_def Let_def)
    moreover have "w \<le> mn" "w \<le> time_left now i" using w(2) by (auto split: if_splits)
    ultimately show ?thesis using w True x by (auto split: if_splits)
  qed
qed simp

text \<open>
  While no period is over, a round of the timed handlers calls nobody, and the waiting time that it computes is
  exact: it is no longer than what is left of any handler that may run, and equals what is left of one of them, unless the
  bound it started with is smaller.
\<close>

theorem fire_timed_waits:
  assumes "conn_lists c hs ts" "conn_state c = XMPP_STATE_CONNECTED" "hc_mem c = []" "hc_clock c = [now]" "timed_additive call"
    "\<forall>x \<in> set ts. may_run c (snd x) \<longrightarrow> time_elapsed (hk_last_stamp (hl_key (snd x))) now < hk_period (hl_key (snd x))"
  shows "\<exists>w c1. fire_timed_conn call mn c = Some (w, c1) \<and> conn_lists c1 hs (map enable ts) \<and> same_rest c c1 \<and> w \<le> mn \<and>
    (\<forall>x \<in> set ts. may_run c (snd x) \<longrightarrow> w \<le> time_left now (snd x)) \<and>
    (w = mn \<or> (\<exists>x \<in> set ts. may_run c (snd x) \<and> w = time_left now (snd x)))"
proof -
  obtain c1 where c1: "enable_loop (timed_handlers c) c = Some c1" "conn_lists c1 hs (map enable ts)" "same_rest c c1"
    "hc_clock c1 = hc_clock c" using enable_timed_lists [OF assms(1)] by blast
  have "timed_handlers c1 = first_of (map enable ts @ []) None" using c1(2) unfolding conn_lists_def two_lists_def by simp
  moreover have "fire_timed_loop call (first_of (map enable ts @ []) None) mn c1 = timed_each call (map enable ts) mn c1"
    using fire_timed_snapshot [OF assms(5), of c1 hs "[]" "map enable ts" "[]" mn] c1(2,3) assms(3) by (simp add: same_rest_def)
  ultimately have "fire_timed_conn call mn c = timed_each call (map enable ts) mn c1"
    using c1(1) assms(2) by (simp add: fire_timed_conn_def)
  moreover have m: "may_run c1 i = may_run c i" "may_run c (snd (enable x)) = may_run c (snd x)"
      "time_left now (snd (enable x)) = time_left now (snd x)" for i x
    using c1(3) by (simp_all add: may_run_def same_rest_def time_left_def)
  ultimately show ?thesis
    using timed_each_idle [of c1 now "map enable ts" call mn] c1(2-4) assms(4,6) by (auto simp: m)
qed

theorem fire_timed_waits_witness:
  "\<exists>w c1. fire_timed_conn sample_timed_call 100 (sample_timed_conn\<lparr>hc_clock := [3]\<rparr>) = Some (w, c1) \<and> w = 2"
proof -
  have "conn_lists (sample_timed_conn\<lparr>hc_clock := [3]\<rparr>) [] sample_timed_nodes"
    using sample_timed_lists by (simp add: conn_lists_def)
  from fire_timed_waits [OF this _ _ _ sample_timed_additive, of 3 100] show ?thesis
    by (auto simp: sample_timed_conn_def sample_timed_nodes_def blank_handler_def may_run_def time_elapsed_def time_left_def)
qed

end
