(* ===== verification/Dns.thy ===== *)
theory Dns
  imports Prelude
begin

section \<open>DNS messages and the SRV lookup (sock.c)\<close>

text \<open>
  Models the reader and writer of DNS messages in \<open>src/sock.c\<close> and \<open>sock_srv_lookup\<close> as it is built outside
  Windows.  A message buffer is a list of bytes, an access outside it is undefined; \<open>buflen\<close> is never used by
  the code and left out.  The name buffers of the structs are arrays of bytes, too.
\<close>

subsection \<open>Numbers\<close>

definition netbuf_add_32bitnum :: "u8 list \<Rightarrow> nat \<Rightarrow> u32 \<Rightarrow> (u8 list \<times> nat) option" where
  "netbuf_add_32bitnum buf off num = do {
     buf \<leftarrow> wr buf off (ucast (drop_bit 24 num AND 0xff));
     buf \<leftarrow> wr buf (off + 1) (ucast (drop_bit 16 num AND 0xff));
     buf \<leftarrow> wr buf (off + 2) (ucast (drop_bit 8 num AND 0xff));
     buf \<leftarrow> wr buf (off + 3) (ucast (num AND 0xff));
     Some (buf, off + 4) }"

definition netbuf_get_32bitnum :: "u8 list \<Rightarrow> nat \<Rightarrow> (u32 \<times> nat) option" where
  "netbuf_get_32bitnum buf off = do {
     a \<leftarrow> rd buf off;
     b \<leftarrow> rd buf (off + 1);
     c \<leftarrow> rd buf (off + 2);
     d \<leftarrow> rd buf (off + 3);
     Some (push_bit 24 (ucast a) OR (push_bit 16 (ucast b) OR (push_bit 8 (ucast c) OR ucast d)), off + 4) }"

definition netbuf_add_16bitnum :: "u8 list \<Rightarrow> nat \<Rightarrow> u16 \<Rightarrow> (u8 list \<times> nat) option" where
  "netbuf_add_16bitnum buf off num = do {
     buf \<leftarrow> wr buf off (ucast (drop_bit 8 num AND 0xff));
     buf \<leftarrow> wr buf (off + 1) (ucast (num AND 0xff));
     Some (buf, off + 2) }"

definition netbuf_get_16bitnum :: "u8 list \<Rightarrow> nat \<Rightarrow> (u16 \<times> nat) option" where
  "netbuf_get_16bitnum buf off = do {
     a \<leftarrow> rd buf off;
     b \<leftarrow> rd buf (off + 1);
     Some (push_bit 8 (ucast a) OR ucast b, off + 2) }"

subsection \<open>Names\<close>

text \<open>The length byte of a label is cut to 63, the label is not.\<close>

function add_labels :: "string \<Rightarrow> u8 list \<Rightarrow> nat \<Rightarrow> (u8 list \<times> nat) option" where
  "add_labels name buf p =
     (if name = [] then Some (buf, p)
      else do {
        let label = takeWhile (\<lambda>c. c \<noteq> CHR ''.'') name;
        let len = (if length label > 0x3F then 0x3F else length label);
        buf \<leftarrow> wr buf p (word_of_nat len);
        buf \<leftarrow> blit buf (p + 1) (bytes_of_string label);
        add_labels (drop (length label + 1) name) buf (p + 1 + length label) })"
  by pat_completeness auto
termination by (relation "measure (\<lambda>(name, _). length name)") auto

declare add_labels.simps [simp del]

definition netbuf_add_domain_name :: "u8 list \<Rightarrow> nat \<Rightarrow> string \<Rightarrow> (u8 list \<times> nat) option" where
  "netbuf_add_domain_name buf off name = do {
     (buf, p) \<leftarrow> add_labels name buf off;
     buf \<leftarrow> wr buf p 0;
     Some (buf, p + 1) }"

text \<open>The target of a compression pointer whose bytes are \<open>a\<close> and \<open>b\<close>.\<close>

definition pointer_target :: "u8 \<Rightarrow> u8 \<Rightarrow> nat" where
  "pointer_target a b = unat (push_bit 8 (ucast (a AND 0x3F)) OR ucast b :: u32)"

definition is_pointer :: "u8 \<Rightarrow> bool" where
  "is_pointer a \<longleftrightarrow> a AND 0xC0 = 0xC0"

partial_function (option) calc_name_loop :: "u8 list \<Rightarrow> nat \<Rightarrow> nat \<Rightarrow> nat option" where
  "calc_name_loop buf p len = Option.bind (rd buf p) (\<lambda>a.
     if a = 0 then Some len
     else if is_pointer a then Option.bind (rd buf (p + 1)) (\<lambda>b. calc_name_loop buf (pointer_target a b) len)
     else calc_name_loop buf (p + unat a + 1) ((if len \<noteq> 0 then len + 1 else len) + unat a))"

definition calc_domain_name_size :: "u8 list \<Rightarrow> nat \<Rightarrow> nat option" where
  "calc_domain_name_size buf off = calc_name_loop buf off 0"

text \<open>The loop that measures a name.\<close>

partial_function (option) name_length :: "u8 list \<Rightarrow> nat \<Rightarrow> nat \<Rightarrow> nat option" where
  "name_length buf p len = Option.bind (rd buf p) (\<lambda>a.
     if a = 0 then Some len
     else if is_pointer a then Option.bind (rd buf (p + 1)) (\<lambda>b. name_length buf (pointer_target a b) len)
     else name_length buf (p + unat a + 1) (len + unat a))"

definition rd_bytes :: "u8 list \<Rightarrow> nat \<Rightarrow> nat \<Rightarrow> u8 list option" where
  "rd_bytes buf i n = (if i + n \<le> length buf then Some (take n (drop i buf)) else None)"

text \<open>The loop that copies it: \<open>q\<close> is the index of \<open>p2\<close>, and \<open>cur\<close> the new offset once it is known.
  The result is the last \<open>p\<close>, \<open>cur\<close>, \<open>q\<close> and the name buffer.\<close>

partial_function (option) name_copy ::
    "u8 list \<Rightarrow> nat \<Rightarrow> nat option \<Rightarrow> nat \<Rightarrow> u8 list \<Rightarrow> (nat \<times> nat option \<times> nat \<times> u8 list) option" where
  "name_copy buf p cur q nb = Option.bind (rd buf p) (\<lambda>a.
     if a = 0 then Some (p, cur, q, nb)
     else if is_pointer a then Option.bind (rd buf (p + 1)) (\<lambda>b.
       name_copy buf (pointer_target a b) (Some (case cur of None \<Rightarrow> p + 2 | Some off \<Rightarrow> off)) q nb)
     else Option.bind (rd nb 0) (\<lambda>f.
       Option.bind (if f \<noteq> 0 then wr nb q 46 else Some nb) (\<lambda>nb.
       Option.bind (rd_bytes buf (p + 1) (unat a)) (\<lambda>bytes.
       Option.bind (blit nb (if f \<noteq> 0 then q + 1 else q) bytes) (\<lambda>nb.
         name_copy buf (p + 1 + unat a) cur ((if f \<noteq> 0 then q + 1 else q) + unat a) nb)))))"

text \<open>The result, the offset and the name buffer.  A name that is too long leaves the offset as it is.\<close>

definition netbuf_get_domain_name ::
    "u8 list \<Rightarrow> nat \<Rightarrow> u8 list \<Rightarrow> nat \<Rightarrow> (nat \<times> nat \<times> u8 list) option" where
  "netbuf_get_domain_name buf off namebuf namebuflen = do {
     namebuf \<leftarrow> wr namebuf 0 0;
     len \<leftarrow> name_length buf off 0;
     if namebuflen < len then Some (len, off, namebuf)
     else do {
       (p, cur, q, namebuf) \<leftarrow> name_copy buf off None 0 namebuf;
       namebuf \<leftarrow> wr namebuf q 0;
       Some (0, (case cur of None \<Rightarrow> p + 1 | Some off \<Rightarrow> off), namebuf) } }"

subsection \<open>Messages\<close>

record dnsquery_header =
  dh_id :: u16
  dh_qr :: u8
  dh_opcode :: u8
  dh_aa :: u8
  dh_tc :: u8
  dh_rd :: u8
  dh_ra :: u8
  dh_z :: u8
  dh_rcode :: u8
  dh_qdcount :: u16
  dh_ancount :: u16
  dh_nscount :: u16
  dh_arcount :: u16

record dnsquery_question =
  dq_qname :: "u8 list"
  dq_qtype :: u16
  dq_qclass :: u16

record dnsquery_srvrdata =
  ds_priority :: u16
  ds_weight :: u16
  ds_port :: u16
  ds_target :: "u8 list"

record dnsquery_resourcerecord =
  rr_name :: "u8 list"
  rr_type :: u16
  rr_class :: u16
  rr_ttl :: u32
  rr_rdlength :: u16
  rr_rdata :: dnsquery_srvrdata

definition netbuf_add_dnsquery_header :: "u8 list \<Rightarrow> nat \<Rightarrow> dnsquery_header \<Rightarrow> (u8 list \<times> nat) option" where
  "netbuf_add_dnsquery_header buf off h = do {
     (buf, off) \<leftarrow> netbuf_add_16bitnum buf off (dh_id h);
     buf \<leftarrow> wr buf off (push_bit 7 (dh_qr h AND 0x01) OR (push_bit 3 (dh_opcode h AND 0x0F) OR
       (push_bit 2 (dh_aa h AND 0x01) OR (push_bit 1 (dh_tc h AND 0x01) OR (dh_rd h AND 0x01)))));
     buf \<leftarrow> wr buf (off + 1) (push_bit 7 (dh_ra h AND 0x01) OR (push_bit 4 (dh_z h AND 0x07) OR (dh_rcode h AND 0x0F)));
     (buf, off) \<leftarrow> netbuf_add_16bitnum buf (off + 2) (dh_qdcount h);
     (buf, off) \<leftarrow> netbuf_add_16bitnum buf off (dh_ancount h);
     (buf, off) \<leftarrow> netbuf_add_16bitnum buf off (dh_nscount h);
     netbuf_add_16bitnum buf off (dh_arcount h) }"

definition netbuf_get_dnsquery_header :: "u8 list \<Rightarrow> nat \<Rightarrow> (dnsquery_header \<times> nat) option" where
  "netbuf_get_dnsquery_header buf off = do {
     (i, off) \<leftarrow> netbuf_get_16bitnum buf off;
     p \<leftarrow> rd buf off;
     q \<leftarrow> rd buf (off + 1);
     (qd, off) \<leftarrow> netbuf_get_16bitnum buf (off + 2);
     (an, off) \<leftarrow> netbuf_get_16bitnum buf off;
     (ns, off) \<leftarrow> netbuf_get_16bitnum buf off;
     (ar, off) \<leftarrow> netbuf_get_16bitnum buf off;
     Some (\<lparr> dh_id = i, dh_qr = drop_bit 7 p AND 0x01, dh_opcode = drop_bit 3 p AND 0x0F,
       dh_aa = drop_bit 2 p AND 0x01, dh_tc = drop_bit 1 p AND 0x01, dh_rd = p AND 0x01,
       dh_ra = drop_bit 7 q AND 0x01, dh_z = drop_bit 4 q AND 0x07, dh_rcode = q AND 0x0F,
       dh_qdcount = qd, dh_ancount = an, dh_nscount = ns, dh_arcount = ar \<rparr>, off) }"

definition netbuf_add_dnsquery_question :: "u8 list \<Rightarrow> nat \<Rightarrow> dnsquery_question \<Rightarrow> (u8 list \<times> nat) option" where
  "netbuf_add_dnsquery_question buf off question = do {
     (buf, off) \<leftarrow> netbuf_add_domain_name buf off (cstring (dq_qname question));
     (buf, off) \<leftarrow> netbuf_add_16bitnum buf off (dq_qtype question);
     netbuf_add_16bitnum buf off (dq_qclass question) }"

definition netbuf_get_dnsquery_question ::
    "u8 list \<Rightarrow> nat \<Rightarrow> dnsquery_question \<Rightarrow> (dnsquery_question \<times> nat) option" where
  "netbuf_get_dnsquery_question buf off question = do {
     (_, off, name) \<leftarrow> netbuf_get_domain_name buf off (dq_qname question) 1024;
     (t, off) \<leftarrow> netbuf_get_16bitnum buf off;
     (k, off) \<leftarrow> netbuf_get_16bitnum buf off;
     Some (\<lparr> dq_qname = name, dq_qtype = t, dq_qclass = k \<rparr>, off) }"

definition netbuf_get_dnsquery_srvrdata ::
    "u8 list \<Rightarrow> nat \<Rightarrow> dnsquery_srvrdata \<Rightarrow> (dnsquery_srvrdata \<times> nat) option" where
  "netbuf_get_dnsquery_srvrdata buf off srvrdata = do {
     (priority, off) \<leftarrow> netbuf_get_16bitnum buf off;
     (weight, off) \<leftarrow> netbuf_get_16bitnum buf off;
     (port, off) \<leftarrow> netbuf_get_16bitnum buf off;
     (_, off, target) \<leftarrow> netbuf_get_domain_name buf off (ds_target srvrdata) 1024;
     Some (\<lparr> ds_priority = priority, ds_weight = weight, ds_port = port, ds_target = target \<rparr>, off) }"

definition netbuf_get_dnsquery_resourcerecord ::
    "u8 list \<Rightarrow> nat \<Rightarrow> dnsquery_resourcerecord \<Rightarrow> (dnsquery_resourcerecord \<times> nat) option" where
  "netbuf_get_dnsquery_resourcerecord buf off rr = do {
     (_, off, name) \<leftarrow> netbuf_get_domain_name buf off (rr_name rr) 1024;
     (t, off) \<leftarrow> netbuf_get_16bitnum buf off;
     (k, off) \<leftarrow> netbuf_get_16bitnum buf off;
     (ttl, off) \<leftarrow> netbuf_get_32bitnum buf off;
     (rdlength, off) \<leftarrow> netbuf_get_16bitnum buf off;
     rdata \<leftarrow> (if t = 33 then map_option fst (netbuf_get_dnsquery_srvrdata buf off (rr_rdata rr))
               else Some (rr_rdata rr));
     Some (\<lparr> rr_name = name, rr_type = t, rr_class = k, rr_ttl = ttl, rr_rdlength = rdlength, rr_rdata = rdata \<rparr>,
       off + unat rdlength) }"

subsection \<open>The lookup\<close>

text \<open>The loops over the questions and the answers; the last SRV record is the result.\<close>

fun read_questions :: "u8 list \<Rightarrow> nat \<Rightarrow> nat \<Rightarrow> dnsquery_question \<Rightarrow> nat option" where
  "read_questions buf 0 off question = Some off"
| "read_questions buf (Suc n) off question = do {
     (question, off) \<leftarrow> netbuf_get_dnsquery_question buf off question;
     read_questions buf n off question }"

fun read_answers ::
    "u8 list \<Rightarrow> nat \<Rightarrow> nat \<Rightarrow> dnsquery_resourcerecord \<Rightarrow> (string \<times> u16) option \<Rightarrow>
      (nat \<times> dnsquery_resourcerecord \<times> (string \<times> u16) option) option" where
  "read_answers buf 0 off rr result = Some (off, rr, result)"
| "read_answers buf (Suc n) off rr result = do {
     (rr, off) \<leftarrow> netbuf_get_dnsquery_resourcerecord buf off rr;
     read_answers buf n off rr
       (if rr_type rr = 33 then Some (cstring (ds_target (rr_rdata rr)), ds_port (rr_rdata rr)) else result) }"

text \<open>\<open>query\<close> is \<open>res_query\<close>: its result and the 65535 bytes of the buffer after it; the structs are
  uninitialised before.  \<open>snprintf\<close> of the C library cuts its result to the buffer.  The result is the returned
  flag, the target and the port.\<close>

definition sock_srv_lookup ::
    "(string \<Rightarrow> int \<times> u8 list) \<Rightarrow> dnsquery_question \<Rightarrow> dnsquery_resourcerecord \<Rightarrow>
      string \<Rightarrow> string \<Rightarrow> string \<Rightarrow> nat \<Rightarrow> (int \<times> string \<times> int) option" where
  "sock_srv_lookup query question rr service proto domain resulttargetlength = do {
     let fulldomain = take 2047 (''_'' @ service @ ''._'' @ proto @ ''.'' @ domain);
     let (len, buf) = query fulldomain;
     result \<leftarrow>
       (if len > 0 then do {
          (header, off) \<leftarrow> netbuf_get_dnsquery_header buf 0;
          off \<leftarrow> read_questions buf (unat (dh_qdcount header)) off question;
          (off, rr, result) \<leftarrow> read_answers buf (unat (dh_ancount header)) off rr None;
          _ \<leftarrow> read_answers buf (unat (dh_ancount header)) off rr None;
          Some result }
        else Some None);
     (case result of
        Some (target, port) \<Rightarrow> Some (1, take (resulttargetlength - 1) target, uint port)
      | None \<Rightarrow> Some (0, take (resulttargetlength - 1) domain, 5222)) }"

declare calc_name_loop.simps [code] name_length.simps [code] name_copy.simps [code]

end
