(* ===== verification/Dns_Facts.thy ===== *)
theory Dns_Facts
  imports Dns
begin

section \<open>Properties of the DNS reader\<close>

text \<open>
  A relation for the names of RFC 1035 in a message, with compression, and what the reader makes of them: exactly when it
  is defined and what it returns; then the same for the answers to an SRV query.
\<close>

subsection \<open>Numbers\<close>

lemma unat_byte: "unat (b::u8) < 256"
  using unsigned_less [of b, where 'a = nat] by simp

lemma or_shift_nat: "n < 2 ^ k \<Longrightarrow> push_bit k m OR n = 2 ^ k * m + (n::nat)"
proof -
  assume "n < 2 ^ k"
  then have n: "n = take_bit k n" by (simp add: take_bit_nat_eq_self)
  have "push_bit k m OR take_bit k n = push_bit k m + take_bit k n"
    by (rule disjunctive_add_eq_or [symmetric]) (auto simp: bit_eq_iff bit_simps)
  then show ?thesis using n by (simp add: push_bit_eq_mult mult.commute)
qed

lemma unat_pair: "unat (push_bit 8 (ucast (a::u8)) OR ucast (b::u8) :: u16) = 256 * unat a + unat b"
proof -
  have "unat (push_bit 8 (ucast a) OR ucast b :: u16) = take_bit 16 (push_bit 8 (unat a)) OR take_bit 16 (unat b)"
    by (simp add: unsigned_or_eq unsigned_push_bit_eq unsigned_ucast_eq take_bit_push_bit)
  also have "take_bit 16 (unat b) = unat b"
    using unat_byte [of b] by (simp add: take_bit_nat_eq_self)
  also have "take_bit 16 (push_bit 8 (unat a)) = push_bit 8 (unat a)"
    using unat_byte [of a] by (simp add: take_bit_nat_eq_self push_bit_eq_mult)
  finally show ?thesis using or_shift_nat [of "unat b" 8 "unat a"] unat_byte [of b] by simp
qed

definition u16_at :: "u8 list \<Rightarrow> nat \<Rightarrow> u16 \<Rightarrow> bool" where
  "u16_at buf p n \<longleftrightarrow> p + 1 < length buf \<and> unat n = 256 * unat (buf ! p) + unat (buf ! (p + 1))"

lemma get16_eq: "netbuf_get_16bitnum buf off = (if off + 1 < length buf
    then Some (push_bit 8 (ucast (buf ! off)) OR ucast (buf ! (off + 1)), off + 2) else None)"
  by (auto simp: netbuf_get_16bitnum_def rd_def)

lemma get16_iff: "netbuf_get_16bitnum buf off = Some (n, e) \<longleftrightarrow> u16_at buf off n \<and> e = off + 2"
  by (auto simp: get16_eq u16_at_def word_unat_eq_iff unat_pair)

lemma get16_ex: "(\<exists>n. u16_at buf off n) \<longleftrightarrow> off + 1 < length buf"
proof -
  have "(\<exists>n. u16_at buf off n) \<longleftrightarrow> (\<exists>n. netbuf_get_16bitnum buf off = Some (n, off + 2))" by (simp add: get16_iff)
  then show ?thesis by (simp add: get16_eq)
qed

lemma u16_at_fun: "u16_at buf p n \<Longrightarrow> u16_at buf p n' \<Longrightarrow> n = n'"
  by (simp add: u16_at_def word_unat_eq_iff)

lemma get32_defined: "(\<exists>n. netbuf_get_32bitnum buf off = Some (n, e)) \<longleftrightarrow> off + 3 < length buf \<and> e = off + 4"
  by (auto simp: netbuf_get_32bitnum_def rd_Some_iff bind_eq_Some_conv)

subsection \<open>Names\<close>

text \<open>The labels of the name at an offset, and the offset behind it.\<close>

inductive name_at :: "u8 list \<Rightarrow> nat \<Rightarrow> u8 list list \<Rightarrow> nat \<Rightarrow> bool" for buf where
  name_end: "p < length buf \<Longrightarrow> buf ! p = 0 \<Longrightarrow> name_at buf p [] (p + 1)"
| name_label: "p + unat (buf ! p) < length buf \<Longrightarrow> buf ! p \<noteq> 0 \<Longrightarrow> \<not> is_pointer (buf ! p) \<Longrightarrow>
    l = take (unat (buf ! p)) (drop (p + 1) buf) \<Longrightarrow> name_at buf (p + unat (buf ! p) + 1) ls e \<Longrightarrow> name_at buf p (l # ls) e"
| name_pointer: "p + 1 < length buf \<Longrightarrow> is_pointer (buf ! p) \<Longrightarrow>
    name_at buf (pointer_target (buf ! p) (buf ! (p + 1))) ls e \<Longrightarrow> name_at buf p ls (p + 2)"

lemma is_pointer_0 [simp]: "\<not> is_pointer 0"
  by (simp add: is_pointer_def)

lemma name_at_end: "buf ! p = 0 \<Longrightarrow> name_at buf p ls e \<longleftrightarrow> p < length buf \<and> ls = [] \<and> e = p + 1"
  by (subst name_at.simps) auto

lemma name_at_pointer: "is_pointer (buf ! p) \<Longrightarrow> name_at buf p ls e \<longleftrightarrow>
    p + 1 < length buf \<and> e = p + 2 \<and> (\<exists>e'. name_at buf (pointer_target (buf ! p) (buf ! (p + 1))) ls e')"
  by (subst name_at.simps) auto

lemma name_at_label: "buf ! p \<noteq> 0 \<Longrightarrow> \<not> is_pointer (buf ! p) \<Longrightarrow> name_at buf p ls e \<longleftrightarrow>
    p + unat (buf ! p) < length buf \<and> (\<exists>ls'. ls = take (unat (buf ! p)) (drop (p + 1) buf) # ls' \<and>
      name_at buf (p + unat (buf ! p) + 1) ls' e)"
  by (subst name_at.simps) auto

lemma name_at_fun: "name_at buf p ls e \<Longrightarrow> name_at buf p ls' e' \<Longrightarrow> ls = ls' \<and> e = e'"
proof (induction arbitrary: ls' e' rule: name_at.induct)
  case (name_label p l ls e)
  then show ?case unfolding name_at_label [OF name_label(2,3)] by blast
next
  case (name_pointer p ls e)
  then show ?case unfolding name_at_pointer [OF name_pointer(2)] by blast
qed (simp add: name_at_end)

definition total :: "u8 list list \<Rightarrow> nat" where
  "total ls = sum_list (map length ls)"

lemma name_length_end: "p < length buf \<Longrightarrow> buf ! p = 0 \<Longrightarrow> name_length buf p len = Some len"
  by (subst name_length.simps) simp

lemma name_length_label: "p < length buf \<Longrightarrow> buf ! p \<noteq> 0 \<Longrightarrow> \<not> is_pointer (buf ! p) \<Longrightarrow>
    name_length buf p len = name_length buf (p + unat (buf ! p) + 1) (len + unat (buf ! p))"
  by (subst name_length.simps) simp

lemma name_length_pointer: "p + 1 < length buf \<Longrightarrow> is_pointer (buf ! p) \<Longrightarrow>
    name_length buf p len = name_length buf (pointer_target (buf ! p) (buf ! (p + 1))) len"
  by (subst name_length.simps) auto

lemma name_length_at: "name_at buf p ls e \<Longrightarrow> name_length buf p len = Some (len + total ls)"
proof (induction arbitrary: len rule: name_at.induct)
  case (name_label p l ls e)
  then have "length l = unat (buf ! p)" by simp
  then show ?case using name_label by (simp add: name_length_label total_def add.assoc)
qed (simp_all add: name_length_end name_length_pointer total_def)

lemma name_length_defined:
  assumes "name_length buf p len = Some n"
  shows "\<exists>ls e. name_at buf p ls e"
proof (rule name_length.raw_induct [where P = "\<lambda>buf p len n. \<exists>ls e. name_at buf p ls e", OF _ assms])
  fix f :: "u8 list \<Rightarrow> nat \<Rightarrow> nat \<Rightarrow> nat option" and buf :: "u8 list" and p len n :: nat
  assume IH: "\<And>p len b y. f p len b = Some y \<Longrightarrow> \<exists>ls e. name_at p len ls e"
    and body: "rd buf p \<bind> (\<lambda>a. if a = 0 then Some len
      else if is_pointer a then rd buf (p + 1) \<bind> (\<lambda>b. f buf (pointer_target a b) len)
      else f buf (p + unat a + 1) (len + unat a)) = Some n"
  have p: "p < length buf" using body by (simp add: rd_def split: if_splits)
  consider "buf ! p = 0" | "is_pointer (buf ! p)" "buf ! p \<noteq> 0" | "buf ! p \<noteq> 0" "\<not> is_pointer (buf ! p)" by blast
  then show "\<exists>ls e. name_at buf p ls e"
  proof cases
    case 1
    then show ?thesis using name_at_end p by blast
  next
    case 2
    then have "p + 1 < length buf" "f buf (pointer_target (buf ! p) (buf ! (p + 1))) len = Some n"
      using body p by (simp_all add: rd_def split: if_splits)
    then show ?thesis using IH name_at_pointer [OF 2(1)] by blast
  next
    case 3
    then have "f buf (p + unat (buf ! p) + 1) (len + unat (buf ! p)) = Some n" using body p by simp
    then obtain ls e where n: "name_at buf (p + unat (buf ! p) + 1) ls e" using IH by blast
    then have "p + unat (buf ! p) < length buf" by (cases rule: name_at.cases) auto
    then show ?thesis using n name_at_label [OF 3] by blast
  qed
qed

subsection \<open>Copying a name\<close>

text \<open>The text of a name: a dot is put before a label when the first byte of the text so far is not zero.\<close>

definition add_label :: "u8 list \<Rightarrow> u8 list \<Rightarrow> u8 list" where
  "add_label t l = (if t = [] \<or> hd t = 0 then t @ l else t @ 46 # l)"

definition dotted :: "u8 list \<Rightarrow> u8 list list \<Rightarrow> u8 list" where
  "dotted t ls = foldl add_label t ls"

lemma dotted_simps [simp]: "dotted t [] = t" "dotted t (l # ls) = dotted (add_label t l) ls"
  by (simp_all add: dotted_def)

lemma dotted_longer: "length t \<le> length (dotted t ls)"
proof (induction ls arbitrary: t)
  case (Cons l ls)
  have "length t \<le> length (add_label t l)" by (simp add: add_label_def)
  then show ?case using Cons [of "add_label t l"] by simp
qed simp

text \<open>A name buffer that holds a text so far.\<close>

definition holds :: "u8 list \<Rightarrow> u8 list \<Rightarrow> bool" where
  "holds nb t \<longleftrightarrow> nb \<noteq> [] \<and> length t \<le> length nb \<and> take (length t) nb = t \<and> (t = [] \<longrightarrow> nb ! 0 = 0)"

lemma holds_first: "holds nb t \<Longrightarrow> nb ! 0 = (if t = [] then 0 else hd t)"
  unfolding holds_def by (metis hd_conv_nth length_greater_0_conv nth_take)

lemma put_label:
  assumes "holds nb t" "l \<noteq> []"
  shows "Option.bind (if nb ! 0 \<noteq> 0 then wr nb (length t) 46 else Some nb)
      (\<lambda>nb'. blit nb' (if nb ! 0 \<noteq> 0 then length t + 1 else length t) l) =
    (if length (add_label t l) \<le> length nb then Some (add_label t l @ drop (length (add_label t l)) nb) else None)"
proof -
  show ?thesis
  proof (cases "nb ! 0 = 0")
    case True
    then have "add_label t l = t @ l" using holds_first [OF assms(1)] by (auto simp: add_label_def split: if_splits)
    then show ?thesis using True assms(1) by (auto simp: blit_def holds_def)
  next
    case False
    then have a: "add_label t l = t @ 46 # l" using holds_first [OF assms(1)] by (auto simp: add_label_def split: if_splits)
    show ?thesis
    proof (cases "length t < length nb")
      case True
      have "nb[length t := 46] = t @ 46 # drop (length t + 1) nb"
        using True assms(1) by (simp add: upd_conv_take_nth_drop holds_def)
      then show ?thesis using True False a by (auto simp: blit_def add.commute)
    qed (use False a in simp)
  qed
qed

lemma holds_label: "holds nb t \<Longrightarrow> l \<noteq> [] \<Longrightarrow> length (add_label t l) \<le> length nb \<Longrightarrow>
    holds (add_label t l @ drop (length (add_label t l)) nb) (add_label t l)"
  by (auto simp: holds_def add_label_def)

lemma name_copy_label:
  assumes "p < length buf" "buf ! p \<noteq> 0" "\<not> is_pointer (buf ! p)" "nb \<noteq> []" "p + unat (buf ! p) < length buf"
  shows "name_copy buf p cur q nb =
    Option.bind (if nb ! 0 \<noteq> 0 then wr nb q 46 else Some nb) (\<lambda>nb'.
      Option.bind (blit nb' (if nb ! 0 \<noteq> 0 then q + 1 else q) (take (unat (buf ! p)) (drop (p + 1) buf))) (\<lambda>nb'.
        name_copy buf (p + unat (buf ! p) + 1) cur ((if nb ! 0 \<noteq> 0 then q + 1 else q) + unat (buf ! p)) nb'))"
  using assms by (subst name_copy.simps) (simp add: rd_bytes_def)

lemma name_copy_end: "p < length buf \<Longrightarrow> buf ! p = 0 \<Longrightarrow> name_copy buf p cur q nb = Some (p, cur, q, nb)"
  by (subst name_copy.simps) simp

lemma name_copy_pointer: "p + 1 < length buf \<Longrightarrow> is_pointer (buf ! p) \<Longrightarrow> name_copy buf p cur q nb =
    name_copy buf (pointer_target (buf ! p) (buf ! (p + 1))) (Some (case cur of None \<Rightarrow> p + 2 | Some off \<Rightarrow> off)) q nb"
  by (subst name_copy.simps) auto

lemma name_copy_at:
  "name_at buf p ls e \<Longrightarrow> holds nb t \<Longrightarrow>
    (if length (dotted t ls) \<le> length nb
     then \<exists>p' cur' nb'. name_copy buf p cur (length t) nb = Some (p', cur', length (dotted t ls), nb') \<and>
       length nb' = length nb \<and> take (length (dotted t ls)) nb' = dotted t ls \<and>
       (case cur' of None \<Rightarrow> p' + 1 | Some off \<Rightarrow> off) = (case cur of None \<Rightarrow> e | Some off \<Rightarrow> off)
     else name_copy buf p cur (length t) nb = None)"
proof (induction arbitrary: nb t cur rule: name_at.induct)
  case (name_end p)
  then show ?case by (auto simp: name_copy_end holds_def split: option.split)
next
  case (name_label p l ls e)
  let ?t = "add_label t l"
  have l: "length l = unat (buf ! p)" using name_label(1,4) by simp
  moreover have "unat (buf ! p) \<noteq> 0" using name_label(2) by (simp add: unat_eq_0)
  ultimately have "l \<noteq> []" by auto
  have len: "(if nb ! 0 \<noteq> 0 then length t + 1 else length t) + unat (buf ! p) = length ?t"
    using holds_first [OF name_label(7)] l by (auto simp: add_label_def)
  have c: "name_copy buf p cur (length t) nb = (if length ?t \<le> length nb
      then name_copy buf (p + unat (buf ! p) + 1) cur (length ?t) (?t @ drop (length ?t) nb) else None)"
  proof -
    have "nb \<noteq> []" using name_label(7) by (simp add: holds_def)
    with name_copy_label [of p buf nb cur "length t"] name_label(1-4) have
      "name_copy buf p cur (length t) nb = Option.bind (Option.bind (if nb ! 0 \<noteq> 0 then wr nb (length t) 46 else Some nb)
        (\<lambda>nb'. blit nb' (if nb ! 0 \<noteq> 0 then length t + 1 else length t) l))
        (\<lambda>nb'. name_copy buf (p + unat (buf ! p) + 1) cur (length ?t) nb')"
      unfolding len by simp
    then show ?thesis unfolding put_label [OF name_label(7) \<open>l \<noteq> []\<close>] by simp
  qed
  show ?case
  proof (cases "length ?t \<le> length nb")
    case True
    then have len': "length (?t @ drop (length ?t) nb) = length nb" by simp
    show ?thesis using name_label.IH [OF holds_label [OF name_label(7) \<open>l \<noteq> []\<close> True], of cur]
      unfolding c len' by (simp only: True if_True dotted_simps)
  next
    case False
    then show ?thesis using c dotted_longer [of ?t ls] by simp
  qed
next
  case (name_pointer p ls e)
  show ?case using name_pointer.IH [OF name_pointer.prems, of "Some (case cur of None \<Rightarrow> p + 2 | Some off \<Rightarrow> off)"]
    unfolding name_copy_pointer [OF name_pointer.hyps(1,2)] by (simp only: option.case)
qed

text \<open>What the reader makes of the name at an offset: the text that it delivers, and the offset behind it.\<close>

definition name_read :: "u8 list \<Rightarrow> nat \<Rightarrow> u8 list \<Rightarrow> nat \<Rightarrow> bool" where
  "name_read buf off t e \<longleftrightarrow> (\<exists>ls e'. name_at buf off ls e' \<and>
     (if 1024 < total ls then t = [] \<and> e = off else t = dotted [] ls \<and> length t < 1024 \<and> e = e'))"

definition in_buffer :: "u8 list \<Rightarrow> u8 list \<Rightarrow> bool" where
  "in_buffer t nb \<longleftrightarrow> length nb = 1024 \<and> length t < 1024 \<and> take (length t) nb = t \<and> nb ! length t = 0"

lemma get_name_at:
  assumes "length nb = 1024" "name_at buf off ls e"
  shows "1024 < total ls \<Longrightarrow> netbuf_get_domain_name buf off nb 1024 = Some (total ls, off, nb[0 := 0]) \<and> in_buffer [] (nb[0 := 0])"
    and "\<not> 1024 < total ls \<Longrightarrow> length (dotted [] ls) < 1024 \<Longrightarrow>
      \<exists>nb'. netbuf_get_domain_name buf off nb 1024 = Some (0, e, nb') \<and> in_buffer (dotted [] ls) nb'"
    and "\<not> 1024 < total ls \<Longrightarrow> \<not> length (dotted [] ls) < 1024 \<Longrightarrow> netbuf_get_domain_name buf off nb 1024 = None"
proof -
  have h: "holds (nb[0 := 0]) []" using assms(1) by (cases nb) (simp_all add: holds_def)
  have w: "wr nb 0 0 = Some (nb[0 := 0])" using assms(1) by simp
  note d = netbuf_get_domain_name_def w name_length_at [OF assms(2)]
  note c = name_copy_at [OF assms(2) h, of None]
  show "1024 < total ls \<Longrightarrow> netbuf_get_domain_name buf off nb 1024 = Some (total ls, off, nb[0 := 0]) \<and> in_buffer [] (nb[0 := 0])"
    using assms(1) by (simp add: d in_buffer_def)
  show "\<exists>nb'. netbuf_get_domain_name buf off nb 1024 = Some (0, e, nb') \<and> in_buffer (dotted [] ls) nb'"
    if "\<not> 1024 < total ls" "length (dotted [] ls) < 1024"
    using c that assms(1) by (auto simp: d in_buffer_def)
  show "netbuf_get_domain_name buf off nb 1024 = None" if "\<not> 1024 < total ls" "\<not> length (dotted [] ls) < 1024"
    using c that assms(1) by (cases "length (dotted [] ls) \<le> 1024") (auto simp: d)
qed

lemma get_name_defined:
  "netbuf_get_domain_name buf off nb k = Some (r, e, nb') \<Longrightarrow> \<exists>ls e. name_at buf off ls e"
  using name_length_defined by (fastforce simp: netbuf_get_domain_name_def bind_eq_Some_conv)

lemma name_read_get: "length nb = 1024 \<Longrightarrow> name_read buf off t e \<Longrightarrow>
    \<exists>r nb'. netbuf_get_domain_name buf off nb 1024 = Some (r, e, nb') \<and> in_buffer t nb'"
  unfolding name_read_def using get_name_at(1,2) by (metis (no_types))

lemma get_name_read:
  assumes "length nb = 1024" "netbuf_get_domain_name buf off nb 1024 = Some (r, e, nb')"
  shows "\<exists>t. name_read buf off t e \<and> in_buffer t nb'"
proof -
  obtain ls e' where n: "name_at buf off ls e'" using get_name_defined [OF assms(2)] by blast
  note g = get_name_at [OF assms(1) n]
  consider "1024 < total ls" | "\<not> 1024 < total ls" "length (dotted [] ls) < 1024"
    using g(3) assms(2) by fastforce
  then show ?thesis
  proof cases
    case 1
    then have "name_read buf off [] e" "in_buffer [] nb'" using g(1) assms(2) n by (auto simp: name_read_def)
    then show ?thesis by blast
  next
    case 2
    then have "name_read buf off (dotted [] ls) e" "in_buffer (dotted [] ls) nb'"
      using g(2) assms(2) n by (auto simp: name_read_def)
    then show ?thesis by blast
  qed
qed

lemma name_read_fun: "name_read buf off t e \<Longrightarrow> name_read buf off t' e' \<Longrightarrow> t = t' \<and> e = e'"
  unfolding name_read_def using name_at_fun by (metis (full_types))

lemma in_buffer_cstring: "in_buffer t nb \<Longrightarrow> cstring nb = string_of_bytes (takeWhile (\<lambda>b. b \<noteq> 0) t)"
proof -
  assume "in_buffer t nb"
  then have nb: "nb = t @ 0 # drop (length t + 1) nb"
    unfolding in_buffer_def by (metis id_take_nth_drop Suc_eq_plus1)
  have "takeWhile (\<lambda>b. b \<noteq> 0) (t @ 0 # r) = takeWhile (\<lambda>b. b \<noteq> 0) t" for r by (induction t) auto
  then show ?thesis using nb unfolding cstring_def by metis
qed

lemma pointer_loop: "name_at buf q ls e \<Longrightarrow> is_pointer (buf ! q) \<Longrightarrow> pointer_target (buf ! q) (buf ! (q + 1)) \<noteq> q"
  by (induction rule: name_at.induct) auto


definition sample_message :: "u8 list" where
  "sample_message = [3, 97, 98, 99, 0, 2, 120, 121, 0xC0, 0, 0xC0, 10]"

lemma sample_name: "name_read sample_message 5 (bytes_of_string ''xy.abc'') 10"
proof -
  have "name_at sample_message 4 [] 5" by (simp add: name_at_end sample_message_def)
  then have "name_at sample_message 0 [[97, 98, 99]] 5" by (subst name_at_label) (simp_all add: sample_message_def is_pointer_def)
  then have "name_at sample_message 8 [[97, 98, 99]] 10"
    by (subst name_at_pointer) (auto simp: sample_message_def is_pointer_def pointer_target_def)
  then have "name_at sample_message 5 [[120, 121], [97, 98, 99]] 10"
    by (subst name_at_label) (simp_all add: sample_message_def is_pointer_def)
  moreover have "bytes_of_string ''xy.abc'' = dotted [] [[120, 121], [97, 98, 99]]"
    by (simp add: bytes_of_string_def byte_of_char_def add_label_def)
  ultimately show ?thesis unfolding name_read_def
    by (intro exI [of _ "[[120, 121], [97, 98, 99]]"] exI [of _ 10]) (simp add: total_def add_label_def)
qed


subsection \<open>Answers\<close>

text \<open>A resource record in a message, the SRV result that it stands for, and the offset behind it.\<close>

definition answer_read :: "u8 list \<Rightarrow> nat \<Rightarrow> (string \<times> u16) option \<Rightarrow> nat \<Rightarrow> bool" where
  "answer_read buf off res e \<longleftrightarrow> (\<exists>t e1 ty rl. name_read buf off t e1 \<and> u16_at buf e1 ty \<and> u16_at buf (e1 + 8) rl \<and>
     e = e1 + 10 + unat rl \<and>
     (if ty = 33 then \<exists>port tt e2. u16_at buf (e1 + 14) port \<and> name_read buf (e1 + 16) tt e2 \<and>
        res = Some (string_of_bytes (takeWhile (\<lambda>b. b \<noteq> 0) tt), port)
      else res = None))"

definition valid_rr :: "dnsquery_resourcerecord \<Rightarrow> bool" where
  "valid_rr rr \<longleftrightarrow> length (rr_name rr) = 1024 \<and> length (ds_target (rr_rdata rr)) = 1024"

definition rr_result :: "dnsquery_resourcerecord \<Rightarrow> (string \<times> u16) option" where
  "rr_result rr = (if rr_type rr = 33 then Some (cstring (ds_target (rr_rdata rr)), ds_port (rr_rdata rr)) else None)"

lemma get_name_length: "netbuf_get_domain_name buf off nb 1024 = Some (r, e, nb') \<Longrightarrow> length nb = 1024 \<Longrightarrow> length nb' = 1024"
  using get_name_read in_buffer_def by blast

lemma num_last: "numeral k + (n::nat) = n + numeral k"
  by (rule add.commute)

lemma srvrdata_read:
  assumes "length (ds_target d) = 1024"
  shows "netbuf_get_dnsquery_srvrdata buf off d = Some (d', e) \<Longrightarrow> length (ds_target d') = 1024 \<and>
      (\<exists>tt. u16_at buf (off + 4) (ds_port d') \<and> name_read buf (off + 6) tt e \<and>
        cstring (ds_target d') = string_of_bytes (takeWhile (\<lambda>b. b \<noteq> 0) tt))"
    and "u16_at buf (off + 4) port \<Longrightarrow> name_read buf (off + 6) tt e \<Longrightarrow>
      \<exists>d'. netbuf_get_dnsquery_srvrdata buf off d = Some (d', e) \<and> ds_port d' = port \<and> length (ds_target d') = 1024 \<and>
        cstring (ds_target d') = string_of_bytes (takeWhile (\<lambda>b. b \<noteq> 0) tt)"
proof -
  assume "netbuf_get_dnsquery_srvrdata buf off d = Some (d', e)"
  then obtain r nb' where d: "u16_at buf (off + 4) (ds_port d')" "ds_target d' = nb'"
    "netbuf_get_domain_name buf (off + 6) (ds_target d) 1024 = Some (r, e, nb')"
    by (auto simp: netbuf_get_dnsquery_srvrdata_def bind_eq_Some_conv get16_iff num_last [of _ off] simp del: add_2_eq_Suc')
  then show "length (ds_target d') = 1024 \<and> (\<exists>tt. u16_at buf (off + 4) (ds_port d') \<and> name_read buf (off + 6) tt e \<and>
      cstring (ds_target d') = string_of_bytes (takeWhile (\<lambda>b. b \<noteq> 0) tt))"
    using get_name_read [OF assms d(3)] in_buffer_cstring get_name_length [OF d(3) assms] by blast
next
  assume p: "u16_at buf (off + 4) port" "name_read buf (off + 6) tt e"
  obtain r nb' where n: "netbuf_get_domain_name buf (off + 6) (ds_target d) 1024 = Some (r, e, nb')" "in_buffer tt nb'"
    using name_read_get [OF assms p(2)] by blast
  have "off + 5 < length buf" using p(1) by (simp add: u16_at_def)
  then obtain a b where "u16_at buf off a" "u16_at buf (off + 2) b" using get16_ex by fastforce
  then show "\<exists>d'. netbuf_get_dnsquery_srvrdata buf off d = Some (d', e) \<and> ds_port d' = port \<and> length (ds_target d') = 1024 \<and>
      cstring (ds_target d') = string_of_bytes (takeWhile (\<lambda>b. b \<noteq> 0) tt)"
    using n p(1) in_buffer_cstring [OF n(2)] get_name_length [OF n(1) assms]
    by (simp add: netbuf_get_dnsquery_srvrdata_def get16_iff [THEN iffD2] num_last [of _ off] del: add_2_eq_Suc')
qed

lemma get_rr_eq: "netbuf_get_dnsquery_resourcerecord buf off rr =
    Option.bind (netbuf_get_domain_name buf off (rr_name rr) 1024) (\<lambda>(r, e1, nb).
      Option.bind (netbuf_get_16bitnum buf e1) (\<lambda>(ty, _).
      Option.bind (netbuf_get_16bitnum buf (e1 + 2)) (\<lambda>(k, _).
      Option.bind (netbuf_get_32bitnum buf (e1 + 4)) (\<lambda>(ttl, _).
      Option.bind (netbuf_get_16bitnum buf (e1 + 8)) (\<lambda>(rl, _).
      Option.bind (if ty = 33 then map_option fst (netbuf_get_dnsquery_srvrdata buf (e1 + 10) (rr_rdata rr)) else Some (rr_rdata rr))
        (\<lambda>rdata. Some (\<lparr> rr_name = nb, rr_type = ty, rr_class = k, rr_ttl = ttl, rr_rdlength = rl, rr_rdata = rdata \<rparr>,
          e1 + 10 + unat rl)))))))"
proof (cases "netbuf_get_domain_name buf off (rr_name rr) 1024")
  case (Some x)
  obtain r e1 nb where x: "x = (r, e1, nb)" by (cases x)
  have "netbuf_get_32bitnum buf (e1 + 4) = map_option (\<lambda>(n, _). (n, e1 + 8)) (netbuf_get_32bitnum buf (e1 + 4))"
    by (auto simp: netbuf_get_32bitnum_def rd_def)
  then show ?thesis
    by (cases "netbuf_get_32bitnum buf (e1 + 4)")
      (auto simp: netbuf_get_dnsquery_resourcerecord_def Some x get16_eq num_last [of _ e1] simp del: add_2_eq_Suc')
qed (simp add: netbuf_get_dnsquery_resourcerecord_def)

lemma get_rr_some:
  assumes "valid_rr rr" "netbuf_get_dnsquery_resourcerecord buf off rr = Some (rr', e)"
  shows "valid_rr rr' \<and> answer_read buf off (rr_result rr') e"
proof -
  obtain r e1 nb rdata where d: "netbuf_get_domain_name buf off (rr_name rr) 1024 = Some (r, e1, nb)"
    "u16_at buf e1 (rr_type rr')" "u16_at buf (e1 + 8) (rr_rdlength rr')" "e = e1 + 10 + unat (rr_rdlength rr')"
    "(if rr_type rr' = 33 then map_option fst (netbuf_get_dnsquery_srvrdata buf (e1 + 10) (rr_rdata rr)) else Some (rr_rdata rr)) =
      Some rdata" "rr_rdata rr' = rdata" "rr_name rr' = nb"
    using assms(2) by (auto simp: get_rr_eq bind_eq_Some_conv get16_iff)
  have len: "length (rr_name rr) = 1024" "length (ds_target (rr_rdata rr)) = 1024" using assms(1) by (simp_all add: valid_rr_def)
  obtain t where t: "name_read buf off t e1" using get_name_read [OF len(1) d(1)] by blast
  have n: "length (rr_name rr') = 1024" using get_name_length [OF d(1) len(1)] d(7) by simp
  show ?thesis
  proof (cases "rr_type rr' = 33")
    case True
    then obtain e2 where s: "netbuf_get_dnsquery_srvrdata buf (e1 + 10) (rr_rdata rr) = Some (rr_rdata rr', e2)"
      using d(5,6) by auto
    have "e1 + 10 + 4 = e1 + 14" "e1 + 10 + 6 = e1 + 16" by simp_all
    then show ?thesis using srvrdata_read(1) [OF len(2) s] True t n d(2-4)
      unfolding answer_read_def valid_rr_def rr_result_def by (metis (no_types, lifting))
  next
    case False
    then show ?thesis using t n d len(2) by (auto simp: answer_read_def valid_rr_def rr_result_def)
  qed
qed

lemma get_rr_none:
  assumes "valid_rr rr" "answer_read buf off res e"
  shows "\<exists>rr'. netbuf_get_dnsquery_resourcerecord buf off rr = Some (rr', e) \<and> valid_rr rr' \<and> rr_result rr' = res"
proof -
  have len: "length (rr_name rr) = 1024" "length (ds_target (rr_rdata rr)) = 1024" using assms(1) by (simp_all add: valid_rr_def)
  obtain t e1 ty rl where a: "name_read buf off t e1" "u16_at buf e1 ty" "u16_at buf (e1 + 8) rl" "e = e1 + 10 + unat rl"
    "if ty = 33 then \<exists>port tt e2. u16_at buf (e1 + 14) port \<and> name_read buf (e1 + 16) tt e2 \<and>
        res = Some (string_of_bytes (takeWhile (\<lambda>b. b \<noteq> 0) tt), port)
      else res = None"
    using assms(2) unfolding answer_read_def by blast
  obtain r nb where n: "netbuf_get_domain_name buf off (rr_name rr) 1024 = Some (r, e1, nb)" "length nb = 1024"
    using name_read_get [OF len(1) a(1)] get_name_length len(1) by blast
  have "e1 + 9 < length buf" using a(3) by (simp add: u16_at_def)
  then obtain k ttl where "u16_at buf (e1 + 2) k" "netbuf_get_32bitnum buf (e1 + 4) = Some (ttl, e1 + 8)"
    using get16_ex [of buf "e1 + 2"] get32_defined [of buf "e1 + 4" "e1 + 8"] by auto
  then have rr: "netbuf_get_dnsquery_resourcerecord buf off rr = Option.bind
      (if ty = 33 then map_option fst (netbuf_get_dnsquery_srvrdata buf (e1 + 10) (rr_rdata rr)) else Some (rr_rdata rr))
      (\<lambda>rdata. Some (\<lparr> rr_name = nb, rr_type = ty, rr_class = k, rr_ttl = ttl, rr_rdlength = rl, rr_rdata = rdata \<rparr>, e))"
    using n(1) a(2-4)
    by (simp add: netbuf_get_dnsquery_resourcerecord_def get16_iff [THEN iffD2] num_last [of _ e1] del: add_2_eq_Suc')
  show ?thesis
  proof (cases "ty = 33")
    case True
    then obtain port tt e2 where p: "u16_at buf (e1 + 10 + 4) port" "name_read buf (e1 + 10 + 6) tt e2"
      "res = Some (string_of_bytes (takeWhile (\<lambda>b. b \<noteq> 0) tt), port)" using a(5) by (auto simp: num_last [of _ e1])
    show ?thesis using srvrdata_read(2) [OF len(2) p(1,2)] True rr n(2) p(3) by (auto simp: valid_rr_def rr_result_def)
  next
    case False
    then show ?thesis using rr n(2) a(5) len(2) by (simp add: valid_rr_def rr_result_def)
  qed
qed

fun questions_read :: "u8 list \<Rightarrow> nat \<Rightarrow> nat \<Rightarrow> nat \<Rightarrow> bool" where
  "questions_read buf 0 off e \<longleftrightarrow> e = off"
| "questions_read buf (Suc n) off e \<longleftrightarrow>
     (\<exists>t e1. name_read buf off t e1 \<and> e1 + 3 < length buf \<and> questions_read buf n (e1 + 4) e)"

fun answers_read :: "u8 list \<Rightarrow> nat \<Rightarrow> (string \<times> u16) option list \<Rightarrow> nat \<Rightarrow> bool" where
  "answers_read buf off [] e \<longleftrightarrow> e = off"
| "answers_read buf off (r # rs) e \<longleftrightarrow> (\<exists>m. answer_read buf off r m \<and> answers_read buf m rs e)"

definition last_srv :: "(string \<times> u16) option \<Rightarrow> (string \<times> u16) option list \<Rightarrow> (string \<times> u16) option" where
  "last_srv acc rs = foldl (\<lambda>a r. case r of None \<Rightarrow> a | Some x \<Rightarrow> Some x) acc rs"

lemma get_question:
  assumes "length (dq_qname q) = 1024" "name_read buf off t e1" "e1 + 3 < length buf"
  shows "\<exists>q'. netbuf_get_dnsquery_question buf off q = Some (q', e1 + 4) \<and> length (dq_qname q') = 1024 \<and>
    in_buffer t (dq_qname q') \<and> u16_at buf e1 (dq_qtype q') \<and> u16_at buf (e1 + 2) (dq_qclass q')"
proof -
  obtain r nb where n: "netbuf_get_domain_name buf off (dq_qname q) 1024 = Some (r, e1, nb)" "in_buffer t nb"
    using name_read_get [OF assms(1,2)] by blast
  obtain a b where ab: "u16_at buf e1 a" "u16_at buf (e1 + 2) b"
    using get16_ex [of buf e1] get16_ex [of buf "e1 + 2"] assms(3) by fastforce
  have "netbuf_get_dnsquery_question buf off q = Some (\<lparr> dq_qname = nb, dq_qtype = a, dq_qclass = b \<rparr>, e1 + 4)"
    using n(1) ab by (simp add: netbuf_get_dnsquery_question_def get16_iff [THEN iffD2] num_last [of _ e1] del: add_2_eq_Suc')
  then show ?thesis using n(2) ab by (simp add: in_buffer_def)
qed

lemma read_questions_read: "questions_read buf n off e \<Longrightarrow> length (dq_qname q) = 1024 \<Longrightarrow> read_questions buf n off q = Some e"
proof (induction n arbitrary: off q)
  case (Suc n)
  then obtain t e1 where t: "name_read buf off t e1" "e1 + 3 < length buf" "questions_read buf n (e1 + 4) e" by auto
  obtain q' where "netbuf_get_dnsquery_question buf off q = Some (q', e1 + 4)" "length (dq_qname q') = 1024"
    using get_question [OF Suc.prems(2) t(1,2)] by blast
  then show ?case using Suc.IH [OF t(3)] by simp
qed simp

lemma answers_step:
  assumes "valid_rr rr" "netbuf_get_dnsquery_resourcerecord buf off rr = Some (rr', m)"
  shows "read_answers buf (Suc n) off rr acc =
    read_answers buf n m rr' (case rr_result rr' of None \<Rightarrow> acc | Some x \<Rightarrow> Some x)"
  using assms(2) by (simp add: rr_result_def)

lemma read_answers_read: "answers_read buf off rs e \<Longrightarrow> valid_rr rr \<Longrightarrow>
    \<exists>rr'. read_answers buf (length rs) off rr acc = Some (e, rr', last_srv acc rs) \<and> valid_rr rr'"
proof (induction rs arbitrary: off rr acc)
  case (Cons r rs)
  then obtain m where m: "answer_read buf off r m" "answers_read buf m rs e" by auto
  obtain rr' where rr': "netbuf_get_dnsquery_resourcerecord buf off rr = Some (rr', m)" "valid_rr rr'" "rr_result rr' = r"
    using get_rr_none [OF Cons.prems(2) m(1)] by blast
  show ?case using Cons.IH [OF m(2) rr'(2)] answers_step [OF Cons.prems(2) rr'(1)] rr'(3)
    by (simp add: last_srv_def del: read_answers.simps)
qed (simp add: last_srv_def)

lemma read_answers_defined: "read_answers buf n off rr acc = Some x \<Longrightarrow> valid_rr rr \<Longrightarrow>
    \<exists>rs e. length rs = n \<and> answers_read buf off rs e"
proof (induction n arbitrary: off rr acc)
  case (Suc n)
  then obtain rr' m where m: "netbuf_get_dnsquery_resourcerecord buf off rr = Some (rr', m)"
    by (auto simp: bind_eq_Some_conv)
  then have "valid_rr rr'" "answer_read buf off (rr_result rr') m" using get_rr_some [OF Suc.prems(2) m] by simp_all
  moreover have "read_answers buf n m rr' (case rr_result rr' of None \<Rightarrow> acc | Some x \<Rightarrow> Some x) = Some x"
    using Suc.prems(1) answers_step [OF Suc.prems(2) m] by simp
  ultimately obtain rs e where "length rs = n" "answers_read buf m rs e" using Suc.IH by blast
  then have "length (rr_result rr' # rs) = Suc n \<and> answers_read buf off (rr_result rr' # rs) e"
    using \<open>answer_read buf off (rr_result rr') m\<close> by auto
  then show ?case by blast
qed auto

text \<open>
  Claim C14.  When the resolver has an answer, the lookup gives the target and the port of the last of its SRV records,
  or the domain itself and the default port if there is none.  But it then reads as many records again, from the
  bytes behind the answers: the result is undefined unless these, too, happen to have the form of records.
\<close>

theorem srv_lookup_correct:
  assumes "query (take 2047 (''_'' @ service @ ''._'' @ proto @ ''.'' @ domain)) = (len, buf)" "0 < len"
    "length (dq_qname question) = 1024" "valid_rr rr" "netbuf_get_dnsquery_header buf 0 = Some (header, off)"
    "questions_read buf (unat (dh_qdcount header)) off off1"
    "answers_read buf off1 rs off2" "length rs = unat (dh_ancount header)"
  shows "sock_srv_lookup query question rr service proto domain k =
    (if \<exists>rs' e. length rs' = length rs \<and> answers_read buf off2 rs' e
     then Some (case last_srv None rs of
         Some (target, port) \<Rightarrow> (1, take (k - 1) target, uint port)
       | None \<Rightarrow> (0, take (k - 1) domain, 5222))
     else None)"
proof -
  have q: "read_questions buf (unat (dh_qdcount header)) off question = Some off1"
    by (rule read_questions_read [OF assms(6,3)])
  obtain rr' where a: "read_answers buf (unat (dh_ancount header)) off1 rr None = Some (off2, rr', last_srv None rs)" "valid_rr rr'"
    using read_answers_read [OF assms(7,4)] assms(8) by metis
  have "(read_answers buf (unat (dh_ancount header)) off2 rr' None \<noteq> None) \<longleftrightarrow>
      (\<exists>rs' e. length rs' = length rs \<and> answers_read buf off2 rs' e)"
    using read_answers_read [OF _ a(2)] read_answers_defined [OF _ a(2)] assms(8) by (metis not_None_eq option.distinct(1))
  then show ?thesis using assms(2,5) q a(1) unfolding sock_srv_lookup_def Let_def assms(1)
    by (cases "read_answers buf (unat (dh_ancount header)) off2 rr' None") (auto split: option.splits)
qed

text \<open>An answer with one question and one SRV record, whose names are compressed, and what follows it.\<close>

definition sample_answer :: "u8 list" where
  "sample_answer = [0x12, 0x34, 0x81, 0x80, 0, 1, 0, 1, 0, 0, 0, 0] @ [1, 100, 0, 0, 33, 0, 1] @
     [0xC0, 12, 0, 33, 0, 1, 0, 0, 0, 60, 0, 10, 0, 0, 0, 0, 0x14, 0x67, 1, 115, 0xC0, 12]"

lemma sample_answer_length: "length sample_answer = 41"
  by (simp add: sample_answer_def)

definition sample_question :: dnsquery_question where
  "sample_question = \<lparr> dq_qname = replicate 1024 7, dq_qtype = 0, dq_qclass = 0 \<rparr>"

definition sample_rr :: dnsquery_resourcerecord where
  "sample_rr = \<lparr> rr_name = replicate 1024 7, rr_type = 0, rr_class = 0, rr_ttl = 0, rr_rdlength = 0,
     rr_rdata = \<lparr> ds_priority = 0, ds_weight = 0, ds_port = 0, ds_target = replicate 1024 7 \<rparr> \<rparr>"

lemma sample_answer_name: "name_at (sample_answer @ rest) 12 [[100]] 15"
proof -
  have "name_at (sample_answer @ rest) 14 [] 15" by (simp add: name_at_end sample_answer_def)
  then show ?thesis by (subst name_at_label) (simp_all add: sample_answer_def is_pointer_def)
qed

lemma sample_pointer: "i \<in> {19, 39} \<Longrightarrow> name_at (sample_answer @ rest) i [[100]] (i + 2)"
  using sample_answer_name [of rest]
  by (subst name_at_pointer) (auto simp: sample_answer_def is_pointer_def pointer_target_def)

lemma sample_answers: "answers_read (sample_answer @ rest) 19 [Some (''s.d'', 5223)] 41"
proof -
  have "name_at (sample_answer @ rest) 37 [[115], [100]] 41"
    using sample_pointer [of 39 rest] by (subst name_at_label) (simp_all add: sample_answer_def is_pointer_def)
  then have t: "name_read (sample_answer @ rest) 37 [115, 46, 100] 41"
    unfolding name_read_def by (intro exI [of _ "[[115], [100]]"] exI [of _ 41]) (simp add: total_def add_label_def)
  have n: "name_read (sample_answer @ rest) 19 [100] 21"
    unfolding name_read_def using sample_pointer [of 19 rest]
    by (intro exI [of _ "[[100]]"] exI [of _ 21]) (simp add: total_def add_label_def)
  have u: "u16_at (sample_answer @ rest) 21 33" "u16_at (sample_answer @ rest) 29 10" "u16_at (sample_answer @ rest) 35 5223"
    by (simp_all add: u16_at_def sample_answer_def)
  have "[115, 46, 100] = bytes_of_string ''s.d''" by (simp add: bytes_of_string_def byte_of_char_def)
  then have "string_of_bytes [115, 46, 100] = ''s.d''" by simp
  then have "''s.d'' = string_of_bytes (takeWhile (\<lambda>b. b \<noteq> 0) [115, 46, 100])" by simp
  then have "\<exists>port tt e2. u16_at (sample_answer @ rest) (21 + 14) port \<and> name_read (sample_answer @ rest) (21 + 16) tt e2 \<and>
      Some (''s.d'', 5223) = Some (string_of_bytes (takeWhile (\<lambda>b. b \<noteq> 0) tt), port)"
    by - (rule exI [of _ 5223], rule exI [of _ "[115, 46, 100]"], rule exI [of _ 41], use t u in simp)
  then have "answer_read (sample_answer @ rest) 19 (Some (''s.d'', 5223)) 41"
    unfolding answer_read_def
    by - (rule exI [of _ "[100]"], rule exI [of _ 21], rule exI [of _ 33], rule exI [of _ 10], use n u in simp)
  then show ?thesis by simp
qed

lemma sample_header: "\<exists>header. netbuf_get_dnsquery_header (sample_answer @ rest) 0 = Some (header, 12) \<and>
    dh_qdcount header = 1 \<and> dh_ancount header = 1"
  by (simp add: netbuf_get_dnsquery_header_def get16_eq sample_answer_def)

lemma sample_questions: "questions_read (sample_answer @ rest) 1 12 19"
proof -
  have "name_read (sample_answer @ rest) 12 [100] 15"
    unfolding name_read_def using sample_answer_name [of rest]
    by (intro exI [of _ "[[100]]"] exI [of _ 15]) (simp add: total_def add_label_def)
  moreover have "15 + 3 < length (sample_answer @ rest)" by (simp add: sample_answer_def)
  ultimately have "\<exists>t e. name_read (sample_answer @ rest) 12 t e \<and> e + 3 < length (sample_answer @ rest) \<and>
      questions_read (sample_answer @ rest) 0 (e + 4) 19"
    by (intro exI [of _ "[100]"] exI [of _ 15]) simp
  then show ?thesis by (simp only: One_nat_def questions_read.simps(2))
qed

lemma zero_record: "answers_read (sample_answer @ replicate 11 0) 41 [None] 52"
proof -
  have b: "(sample_answer @ replicate 11 0) ! 41 = 0" "length (sample_answer @ replicate 11 0) = 52"
    by (simp_all add: sample_answer_def)
  have "name_read (sample_answer @ replicate 11 0) 41 [] 42"
    unfolding name_read_def by (intro exI [of _ "[]"] exI [of _ 42]) (simp add: total_def name_at_end b(1) sample_answer_length)
  moreover have "u16_at (sample_answer @ replicate 11 0) 42 0" "u16_at (sample_answer @ replicate 11 0) 50 0"
    by (simp_all add: u16_at_def sample_answer_def)
  ultimately have "answer_read (sample_answer @ replicate 11 0) 41 None 52"
    unfolding answer_read_def
    by - (rule exI [of _ "[]"], rule exI [of _ 42], rule exI [of _ 0], rule exI [of _ 0], simp)
  then show ?thesis by simp
qed

lemma looping_record: "\<not> answers_read (sample_answer @ [0xC0, 41]) 41 [r] e"
proof -
  have "is_pointer ((sample_answer @ [0xC0, 41]) ! 41)" "pointer_target ((sample_answer @ [0xC0, 41]) ! 41) ((sample_answer @ [0xC0, 41]) ! (41 + 1)) = 41"
    by (simp_all add: sample_answer_def is_pointer_def pointer_target_def)
  then have "\<not> name_at (sample_answer @ [0xC0, 41]) 41 ls e'" for ls e' using pointer_loop by blast
  then show ?thesis by (auto simp: answer_read_def name_read_def)
qed

theorem srv_lookup_correct_witness:
  "sock_srv_lookup (\<lambda>d. (41, sample_answer @ replicate 11 0)) sample_question sample_rr ''xmpp-client'' ''tcp'' ''d'' 2048 =
     Some (1, ''s.d'', 5223) \<and>
   sock_srv_lookup (\<lambda>d. (41, sample_answer @ [0xC0, 41])) sample_question sample_rr ''xmpp-client'' ''tcp'' ''d'' 2048 = None"
proof -
  have l: "sock_srv_lookup (\<lambda>d. (41, sample_answer @ rest)) sample_question sample_rr ''xmpp-client'' ''tcp'' ''d'' 2048 =
    (if \<exists>rs' e. length rs' = 1 \<and> answers_read (sample_answer @ rest) 41 rs' e then Some (1, ''s.d'', 5223) else None)" for rest
  proof -
    obtain header where h: "netbuf_get_dnsquery_header (sample_answer @ rest) 0 = Some (header, 12)"
      "unat (dh_qdcount header) = 1" "unat (dh_ancount header) = 1" using sample_header [of rest] by auto
    show ?thesis
      using srv_lookup_correct [OF _ _ _ _ h(1) sample_questions [of rest, folded h(2)] sample_answers,
          of "\<lambda>d. (41, sample_answer @ rest)" "''xmpp-client''" "''tcp''" "''d''" 41 sample_question sample_rr 2048] h(3)
      by (simp add: sample_question_def sample_rr_def valid_rr_def last_srv_def)
  qed
  have "\<not> (\<exists>rs' e. length rs' = 1 \<and> answers_read (sample_answer @ [0xC0, 41]) 41 rs' e)"
    using looping_record by (auto simp: length_Suc_conv simp del: answers_read.simps)
  moreover have "\<exists>rs' e. length rs' = 1 \<and> answers_read (sample_answer @ replicate 11 0) 41 rs' e"
    by (rule exI [of _ "[None]"], rule exI [of _ 52]) (use zero_record in \<open>simp del: answers_read.simps\<close>)
  ultimately show ?thesis unfolding l by (simp only: if_True if_False simp_thms)
qed

end
