(* ===== verification/Dns_Write.thy ===== *)
theory Dns_Write
  imports Dns_Facts
begin

section \<open>Properties of the DNS writer\<close>

text \<open>
  What is written to a message is read back.  The writers put bytes at an offset of a buffer; \<open>put_at\<close> is the
  buffer after that.
\<close>

subsection \<open>Putting bytes into a buffer\<close>

definition put_at :: "u8 list \<Rightarrow> nat \<Rightarrow> u8 list \<Rightarrow> u8 list" where
  "put_at buf off bs = take off buf @ bs @ drop (off + length bs) buf"

lemma length_put [simp]: "off + length bs \<le> length buf \<Longrightarrow> length (put_at buf off bs) = length buf"
  by (simp add: put_at_def)

lemma put_Nil [simp]: "put_at buf off [] = buf"
  by (simp add: put_at_def)

lemma put_put: "off + length xs \<le> length buf \<Longrightarrow>
    put_at (put_at buf off xs) (off + length xs) ys = put_at buf off (xs @ ys)"
  by (simp add: put_at_def ac_simps)

lemma blit_put: "off + length bs \<le> length buf \<Longrightarrow> blit buf off bs = Some (put_at buf off bs)"
  by (simp add: blit_def put_at_def)

lemma wr_put: "off < length buf \<Longrightarrow> wr buf off b = Some (put_at buf off [b])"
  by (simp add: put_at_def upd_conv_take_nth_drop)

lemma wr_next: "off + length xs < length buf \<Longrightarrow> wr (put_at buf off xs) (off + length xs) b = Some (put_at buf off (xs @ [b]))"
  using put_put [of off xs buf "[b]"] wr_put [of "off + length xs" "put_at buf off xs" b] by (simp del: wr_in)

definition bytes16 :: "u16 \<Rightarrow> u8 list" where
  "bytes16 n = [ucast (drop_bit 8 n AND 0xff), ucast (n AND 0xff)]"

lemma length_bytes16 [simp]: "length (bytes16 n) = 2"
  by (simp add: bytes16_def)

lemma add16_put: "off + 2 \<le> length buf \<Longrightarrow> netbuf_add_16bitnum buf off n = Some (put_at buf off (bytes16 n), off + 2)"
  using wr_next [of off "[ucast (drop_bit 8 n AND 0xff)]" buf "ucast (n AND 0xff)"]
    wr_put [of off buf "ucast (drop_bit 8 n AND 0xff)"]
  by (simp add: netbuf_add_16bitnum_def bytes16_def del: wr_in)

lemma add16_next: "off + length xs + 2 \<le> length buf \<Longrightarrow> netbuf_add_16bitnum (put_at buf off xs) (off + length xs) n =
    Some (put_at buf off (xs @ bytes16 n), off + length xs + 2)"
  by (simp add: add16_put put_put)

lemma mask8: "(0xff :: 'a::len word) = mask 8" "(0x0F :: 'a::len word) = mask 4" "(0x07 :: 'a::len word) = mask 3"
    "(0x01 :: 'a::len word) = mask 1"
  by (simp_all add: mask_eq_exp_minus_1)

lemma value16: "push_bit 8 (ucast (ucast (drop_bit 8 n AND 0xff) :: u8)) OR ucast (ucast (n AND 0xff) :: u8) = (n :: u16)"
  unfolding mask8 by (rule bit_word_eqI) (auto simp: bit_simps)

lemma read16: "netbuf_get_16bitnum (xs @ bytes16 n @ ys) (length xs) = Some (n, length xs + 2)"
  using value16 [of n] by (simp add: get16_eq bytes16_def nth_append)

subsection \<open>The header\<close>

definition flags1 :: "dnsquery_header \<Rightarrow> u8" where
  "flags1 h = push_bit 7 (dh_qr h AND 0x01) OR (push_bit 3 (dh_opcode h AND 0x0F) OR
     (push_bit 2 (dh_aa h AND 0x01) OR (push_bit 1 (dh_tc h AND 0x01) OR (dh_rd h AND 0x01))))"

definition flags2 :: "dnsquery_header \<Rightarrow> u8" where
  "flags2 h = push_bit 7 (dh_ra h AND 0x01) OR (push_bit 4 (dh_z h AND 0x07) OR (dh_rcode h AND 0x0F))"

definition header_bytes :: "dnsquery_header \<Rightarrow> u8 list" where
  "header_bytes h = bytes16 (dh_id h) @ [flags1 h, flags2 h] @ bytes16 (dh_qdcount h) @ bytes16 (dh_ancount h) @
     bytes16 (dh_nscount h) @ bytes16 (dh_arcount h)"

text \<open>Fields that are not wider than their bits in the message.\<close>

definition header_fits :: "dnsquery_header \<Rightarrow> bool" where
  "header_fits h \<longleftrightarrow> dh_qr h AND 0x01 = dh_qr h \<and> dh_opcode h AND 0x0F = dh_opcode h \<and> dh_aa h AND 0x01 = dh_aa h \<and>
     dh_tc h AND 0x01 = dh_tc h \<and> dh_rd h AND 0x01 = dh_rd h \<and> dh_ra h AND 0x01 = dh_ra h \<and>
     dh_z h AND 0x07 = dh_z h \<and> dh_rcode h AND 0x0F = dh_rcode h"

lemma length_header_bytes [simp]: "length (header_bytes h) = 12"
  by (simp add: header_bytes_def)

lemma byte_eqI:
  assumes "bit a 0 = bit b 0" "bit a 1 = bit b 1" "bit a 2 = bit b 2" "bit a 3 = bit b 3" "bit a 4 = bit b 4"
    "bit a 5 = bit b 5" "bit a 6 = bit b 6" "bit a 7 = bit b 7"
  shows "a = (b :: u8)"
proof (rule bit_word_eqI)
  fix n assume "n < LENGTH(8)"
  then have "n = 0 \<or> n = 1 \<or> n = 2 \<or> n = 3 \<or> n = 4 \<or> n = 5 \<or> n = 6 \<or> n = 7" by auto
  then show "bit a n = bit b n" using assms by blast
qed

lemma flags_read:
  "drop_bit 7 (flags1 h) AND 0x01 = dh_qr h AND 0x01" "drop_bit 3 (flags1 h) AND 0x0F = dh_opcode h AND 0x0F"
  "drop_bit 2 (flags1 h) AND 0x01 = dh_aa h AND 0x01" "drop_bit 1 (flags1 h) AND 0x01 = dh_tc h AND 0x01"
  "flags1 h AND 0x01 = dh_rd h AND 0x01" "drop_bit 7 (flags2 h) AND 0x01 = dh_ra h AND 0x01"
  "drop_bit 4 (flags2 h) AND 0x07 = dh_z h AND 0x07" "flags2 h AND 0x0F = dh_rcode h AND 0x0F"
  unfolding flags1_def flags2_def mask8
  by (rule byte_eqI; simp only: bit_or_iff bit_and_iff bit_push_bit_iff bit_drop_bit_eq bit_mask_iff o_apply; simp)+

lemma header_written: "off + 12 \<le> length buf \<Longrightarrow>
    netbuf_add_dnsquery_header buf off h = Some (put_at buf off (header_bytes h), off + 12)"
proof -
  assume l: "off + 12 \<le> length buf"
  have a: "netbuf_add_16bitnum buf off (dh_id h) = Some (put_at buf off (bytes16 (dh_id h)), off + 2)"
    using l by (simp add: add16_put)
  let ?b = "bytes16 (dh_id h)" and ?f = "[flags1 h, flags2 h]"
  have b: "wr (put_at buf off ?b) (off + 2) (flags1 h) = Some (put_at buf off (?b @ [flags1 h]))"
    using wr_next [of off ?b buf "flags1 h"] l by (simp del: wr_in)
  have c: "wr (put_at buf off (?b @ [flags1 h])) (off + 2 + 1) (flags2 h) = Some (put_at buf off (?b @ ?f))"
    using wr_next [of off "?b @ [flags1 h]" buf "flags2 h"] l by (simp add: eval_nat_numeral del: wr_in)
  have d: "netbuf_add_16bitnum (put_at buf off xs) k n = Some (put_at buf off (xs @ bytes16 n), k + 2)"
    if "k = off + length xs" "length xs + 2 \<le> 12" for xs k n
    using add16_next [of off xs buf n] that l by simp
  have e: "Option.bind (netbuf_add_16bitnum (put_at buf off (?b @ ?f)) (off + 2 + 2) (dh_qdcount h)) (\<lambda>(buf, off).
      Option.bind (netbuf_add_16bitnum buf off (dh_ancount h)) (\<lambda>(buf, off).
      Option.bind (netbuf_add_16bitnum buf off (dh_nscount h)) (\<lambda>(buf, off). netbuf_add_16bitnum buf off (dh_arcount h)))) =
    Some (put_at buf off (header_bytes h), off + 12)"
    by (simp add: d header_bytes_def)
  show ?thesis unfolding netbuf_add_dnsquery_header_def a
    by (simp only: Option.bind.simps prod.case flags1_def [symmetric] flags2_def [symmetric] b c e)
qed

lemma header_read: "header_fits h \<Longrightarrow> netbuf_get_dnsquery_header (header_bytes h @ ys) 0 = Some (h, 12)"
  unfolding header_fits_def
  by (simp add: netbuf_get_dnsquery_header_def get16_eq header_bytes_def bytes16_def flags_read [simplified] value16)

subsection \<open>Names and questions\<close>

fun join_dots :: "string list \<Rightarrow> string" where
  "join_dots [] = []"
| "join_dots [l] = l"
| "join_dots (l # ls) = l @ CHR ''.'' # join_dots ls"

definition label_ok :: "string \<Rightarrow> bool" where
  "label_ok l \<longleftrightarrow> l \<noteq> [] \<and> length l \<le> 63 \<and> CHR ''.'' \<notin> set l \<and> CHR 0x00 \<notin> set l"

definition label_bytes :: "string list \<Rightarrow> u8 list" where
  "label_bytes ls = concat (map (\<lambda>l. word_of_nat (length l) # bytes_of_string l) ls)"

lemma label_bytes_simps [simp]: "label_bytes [] = []"
  "label_bytes (l # ls) = word_of_nat (length l) # bytes_of_string l @ label_bytes ls"
  by (simp_all add: label_bytes_def)

lemma join_dots_step: "label_ok l \<Longrightarrow> takeWhile (\<lambda>c. c \<noteq> CHR ''.'') (join_dots (l # ls)) = l \<and>
    drop (length l + 1) (join_dots (l # ls)) = join_dots ls"
  by (cases ls) (auto simp: label_ok_def)

lemma labels_written: "\<forall>l \<in> set ls. label_ok l \<Longrightarrow> off + length xs + length (label_bytes ls) \<le> length buf \<Longrightarrow>
    add_labels (join_dots ls) (put_at buf off xs) (off + length xs) =
      Some (put_at buf off (xs @ label_bytes ls), off + length xs + length (label_bytes ls))"
proof (induction ls arbitrary: xs)
  case (Cons l ls)
  let ?n = "word_of_nat (length l)" and ?l = "bytes_of_string l"
  have l: "label_ok l" "\<not> length l > 0x3F" "join_dots (l # ls) \<noteq> []"
    using Cons.prems(1) by (cases ls; simp add: label_ok_def)+
  have w: "wr (put_at buf off xs) (off + length xs) ?n = Some (put_at buf off (xs @ [?n]))"
    using wr_next [of off xs buf ?n] Cons.prems(2) by (simp del: wr_in)
  have b: "blit (put_at buf off (xs @ [?n])) (off + length xs + 1) ?l = Some (put_at buf off (xs @ ?n # ?l))"
    using blit_put [of "off + length xs + 1" ?l "put_at buf off (xs @ [?n])"] put_put [of off "xs @ [?n]" buf ?l]
      Cons.prems(2) by simp
  have "add_labels (join_dots (l # ls)) (put_at buf off xs) (off + length xs) =
      add_labels (join_dots ls) (put_at buf off (xs @ ?n # ?l)) (off + length xs + 1 + length l)"
    using l b w join_dots_step [OF l(1), of ls] by (subst add_labels.simps) (simp add: Let_def del: wr_in)
  then show ?case using Cons.IH [of "xs @ ?n # ?l"] Cons.prems by (simp add: ac_simps)
qed (simp add: add_labels.simps)

lemma name_written: "\<forall>l \<in> set ls. label_ok l \<Longrightarrow> off + length (label_bytes ls) + 1 \<le> length buf \<Longrightarrow>
    netbuf_add_domain_name buf off (join_dots ls) =
      Some (put_at buf off (label_bytes ls @ [0]), off + length (label_bytes ls) + 1)"
  using labels_written [of ls off "[]" buf] wr_next [of off "label_bytes ls" buf 0]
  by (simp add: netbuf_add_domain_name_def del: wr_in)

lemma label_head: "label_ok l \<Longrightarrow> word_of_nat (length l) \<noteq> (0 :: u8) \<and> \<not> is_pointer (word_of_nat (length l)) \<and>
    unat (word_of_nat (length l) :: u8) = length l"
proof -
  assume l: "label_ok l"
  then have n: "unat (word_of_nat (length l) :: u8) = length l" by (simp add: label_ok_def unat_of_nat take_bit_nat_eq_self)
  have "\<not> is_pointer w" if "unat w \<le> 63" for w
  proof
    assume "is_pointer w"
    then have "bit (w AND 0xC0) 6" by (simp add: is_pointer_def)
    then have "bit (unat w) 6" by (simp add: bit_simps)
    moreover have "unat w div 2 ^ 6 = 0" using that by simp
    ultimately show False by (simp add: bit_iff_odd)
  qed
  then show ?thesis using n l by (metis label_ok_def length_0_conv unat_0)
qed

lemma name_at_written: "\<forall>l \<in> set ls. label_ok l \<Longrightarrow>
    name_at (pre @ label_bytes ls @ 0 # post) (length pre) (map bytes_of_string ls) (length pre + length (label_bytes ls) + 1)"
proof (induction ls arbitrary: pre)
  case (Cons l ls)
  let ?n = "word_of_nat (length l)"
  let ?buf = "pre @ label_bytes (l # ls) @ 0 # post"
  have h: "?buf ! length pre = ?n" by simp
  have n: "?n \<noteq> (0 :: u8)" "\<not> is_pointer ?n" "unat (?n :: u8) = length l" using label_head Cons.prems by simp_all
  have "name_at ?buf (length pre + length l + 1) (map bytes_of_string ls) (length pre + length (label_bytes (l # ls)) + 1)"
    using Cons.IH [of "pre @ ?n # bytes_of_string l"] Cons.prems by (simp add: ac_simps)
  then show ?case using n by (subst name_at_label) (simp_all add: h)
qed (simp add: name_at_end)

lemma dotted_tail: "t \<noteq> [] \<Longrightarrow> hd t \<noteq> 0 \<Longrightarrow> dotted t (map bytes_of_string ls) = t @ concat (map (\<lambda>l. 46 # bytes_of_string l) ls)"
proof (induction ls arbitrary: t)
  case (Cons l ls)
  then show ?case using Cons.IH [of "t @ 46 # bytes_of_string l"] by (simp add: add_label_def)
qed simp

lemma join_dots_bytes: "bytes_of_string (join_dots (l # ls)) = bytes_of_string l @ concat (map (\<lambda>l. 46 # bytes_of_string l) ls)"
proof (induction ls arbitrary: l)
  case (Cons k ls)
  have "byte_of_char CHR ''.'' = 46" by (simp add: byte_of_char_def)
  then show ?case using Cons [of k] by (simp add: bytes_of_string_def)
qed simp

lemma bytes_nonzero: "CHR 0x00 \<notin> set s \<Longrightarrow> 0 \<notin> set (bytes_of_string s)"
proof
  assume "CHR 0x00 \<notin> set s" "0 \<in> set (bytes_of_string s)"
  then obtain c where "c \<in> set s" "byte_of_char c = 0" by (auto simp: bytes_of_string_def)
  moreover have "byte_of_char CHR 0x00 = 0" by (simp add: byte_of_char_def)
  ultimately have "c = CHR 0x00" using char_of_byte_of_char by metis
  then show False using \<open>c \<in> set s\<close> \<open>CHR 0x00 \<notin> set s\<close> by blast
qed

lemma cstring_of_nonzero: "CHR 0x00 \<notin> set s \<Longrightarrow> cstring (bytes_of_string s) = s"
  using takeWhile_none [OF bytes_nonzero] by (metis cstring_def string_of_bytes_of_string)

lemma dotted_join: "\<forall>l \<in> set ls. label_ok l \<Longrightarrow> dotted [] (map bytes_of_string ls) = bytes_of_string (join_dots ls)"
proof (cases ls)
  case (Cons l ls')
  assume "\<forall>l \<in> set ls. label_ok l"
  then have l: "l \<noteq> []" "CHR 0x00 \<notin> set l" using Cons by (simp_all add: label_ok_def)
  then have "bytes_of_string l \<noteq> []" by (simp add: bytes_of_string_def)
  moreover then have "hd (bytes_of_string l) \<noteq> 0" using bytes_nonzero [OF l(2)] hd_in_set by metis
  ultimately show ?thesis unfolding Cons using dotted_tail [of "bytes_of_string l" ls'] join_dots_bytes [of l ls']
    by (simp add: add_label_def)
qed (simp add: bytes_of_string_def)

lemma join_nonzero: "\<forall>l \<in> set ls. label_ok l \<Longrightarrow> CHR 0x00 \<notin> set (join_dots ls)"
  by (induction ls rule: join_dots.induct) (auto simp: label_ok_def)

lemma total_join: "total (map bytes_of_string ls) \<le> length (join_dots ls)"
  by (induction ls rule: join_dots.induct) (simp_all add: total_def)

lemma put_at_append: "off + length bs \<le> length buf \<Longrightarrow> \<exists>post. put_at buf off bs = take off buf @ bs @ post \<and> length (take off buf) = off"
  by (simp add: put_at_def)

lemma question_written:
  assumes "\<forall>l \<in> set ls. label_ok l" "cstring (dq_qname q) = join_dots ls"
    "off + length (label_bytes ls) + 5 \<le> length buf"
  shows "netbuf_add_dnsquery_question buf off q =
    Some (put_at buf off (label_bytes ls @ [0] @ bytes16 (dq_qtype q) @ bytes16 (dq_qclass q)), off + length (label_bytes ls) + 5)"
proof -
  have n: "netbuf_add_domain_name buf off (join_dots ls) =
      Some (put_at buf off (label_bytes ls @ [0]), off + length (label_bytes ls) + 1)"
    by (rule name_written [OF assms(1)]) (use assms(3) in simp)
  have a: "netbuf_add_16bitnum (put_at buf off (label_bytes ls @ [0])) (off + length (label_bytes ls) + 1) (dq_qtype q) =
      Some (put_at buf off (label_bytes ls @ [0] @ bytes16 (dq_qtype q)), off + length (label_bytes ls) + 3)"
    using add16_next [of off "label_bytes ls @ [0]" buf "dq_qtype q"] assms(3) by (simp add: ac_simps eval_nat_numeral)
  have b: "netbuf_add_16bitnum (put_at buf off (label_bytes ls @ [0] @ bytes16 (dq_qtype q))) (off + length (label_bytes ls) + 3)
      (dq_qclass q) = Some (put_at buf off (label_bytes ls @ [0] @ bytes16 (dq_qtype q) @ bytes16 (dq_qclass q)),
        off + length (label_bytes ls) + 5)"
    using add16_next [of off "label_bytes ls @ [0] @ bytes16 (dq_qtype q)" buf "dq_qclass q"] assms(3)
    by (simp add: ac_simps eval_nat_numeral)
  show ?thesis unfolding netbuf_add_dnsquery_question_def assms(2) n
    by (simp only: Option.bind.simps prod.case a b)
qed

lemma u16_written: "u16_at (xs @ bytes16 n @ ys) (length xs) n"
  using read16 [of xs n ys] by (simp add: get16_iff)

lemma question_read:
  assumes "\<forall>l \<in> set ls. label_ok l" "length (join_dots ls) < 1024" "length (dq_qname q0) = 1024"
  shows "\<exists>q'. netbuf_get_dnsquery_question (pre @ (label_bytes ls @ [0] @ bytes16 t @ bytes16 k) @ post) (length pre) q0 =
      Some (q', length pre + length (label_bytes ls) + 5) \<and>
    cstring (dq_qname q') = join_dots ls \<and> dq_qtype q' = t \<and> dq_qclass q' = k"
proof -
  let ?buf = "pre @ (label_bytes ls @ [0] @ bytes16 t @ bytes16 k) @ post" and ?e = "length pre + length (label_bytes ls) + 1"
  have "name_at ?buf (length pre) (map bytes_of_string ls) ?e"
    using name_at_written [OF assms(1), of pre "bytes16 t @ bytes16 k @ post"] by simp
  moreover have "total (map bytes_of_string ls) \<le> 1024" using total_join [of ls] assms(2) by simp
  ultimately have n: "name_read ?buf (length pre) (bytes_of_string (join_dots ls)) ?e"
    unfolding name_read_def using dotted_join [OF assms(1)] assms(2)
    by (intro exI [of _ "map bytes_of_string ls"] exI [of _ ?e]) simp
  have u: "u16_at ?buf ?e t" "u16_at ?buf (?e + 2) k"
    using u16_written [of "pre @ label_bytes ls @ [0]" t "bytes16 k @ post"]
      u16_written [of "pre @ label_bytes ls @ [0] @ bytes16 t" k post] by (simp_all add: ac_simps)
  obtain q' where q: "netbuf_get_dnsquery_question ?buf (length pre) q0 = Some (q', ?e + 4)"
    "in_buffer (bytes_of_string (join_dots ls)) (dq_qname q')" "u16_at ?buf ?e (dq_qtype q')" "u16_at ?buf (?e + 2) (dq_qclass q')"
    using get_question [OF assms(3) n] by auto
  have "cstring (dq_qname q') = join_dots ls"
    using in_buffer_cstring [OF q(2)] cstring_of_nonzero [OF join_nonzero [OF assms(1)]] by (simp add: cstring_def)
  then show ?thesis using q(1) u16_at_fun [OF q(3) u(1)] u16_at_fun [OF q(4) u(2)] by (simp add: ac_simps)
qed

text \<open>
  A query is read back as it was written: when a header whose fields fit their bits, and behind it a question
  for a name of labels of 1 to 63 bytes, are written to a buffer with room for them, the readers give the same header and the
  same question, and stop at the offset where the writers did.
\<close>

theorem dns_query_round_trip:
  assumes "header_fits h" "\<forall>l \<in> set ls. label_ok l" "cstring (dq_qname q) = join_dots ls" "length (join_dots ls) < 1024"
    "12 + length (label_bytes ls) + 5 \<le> length buf" "length (dq_qname q0) = 1024"
  shows "\<exists>buf1 buf2 off q'. netbuf_add_dnsquery_header buf 0 h = Some (buf1, 12) \<and>
    netbuf_add_dnsquery_question buf1 12 q = Some (buf2, off) \<and>
    netbuf_get_dnsquery_header buf2 0 = Some (h, 12) \<and> netbuf_get_dnsquery_question buf2 12 q0 = Some (q', off) \<and>
    cstring (dq_qname q') = cstring (dq_qname q) \<and> dq_qtype q' = dq_qtype q \<and> dq_qclass q' = dq_qclass q"
proof -
  let ?qb = "label_bytes ls @ [0] @ bytes16 (dq_qtype q) @ bytes16 (dq_qclass q)"
  have h: "netbuf_add_dnsquery_header buf 0 h = Some (header_bytes h @ drop 12 buf, 12)"
    using header_written [of 0 buf h] assms(5) by (simp add: put_at_def)
  have q: "netbuf_add_dnsquery_question (header_bytes h @ drop 12 buf) 12 q =
      Some (header_bytes h @ ?qb @ drop (length ?qb) (drop 12 buf), 12 + length (label_bytes ls) + 5)"
    using question_written [OF assms(2,3), of 12 "header_bytes h @ drop 12 buf"] assms(5) by (simp add: put_at_def)
  obtain q' where "netbuf_get_dnsquery_question (header_bytes h @ ?qb @ drop (length ?qb) (drop 12 buf)) 12 q0 =
      Some (q', 12 + length (label_bytes ls) + 5)" "cstring (dq_qname q') = join_dots ls" "dq_qtype q' = dq_qtype q"
      "dq_qclass q' = dq_qclass q"
    using question_read [OF assms(2,4,6), of "header_bytes h" "dq_qtype q" "dq_qclass q" "drop (length ?qb) (drop 12 buf)"]
    by auto
  then show ?thesis using h q header_read [OF assms(1)] assms(3) by auto
qed

text \<open>The query that the lookup sends.\<close>

theorem dns_query_round_trip_witness:
  "\<exists>buf1 buf2 off q'.
    netbuf_add_dnsquery_header (replicate 64 0) 0 \<lparr> dh_id = 12345, dh_qr = 0, dh_opcode = 0, dh_aa = 0, dh_tc = 0, dh_rd = 1,
      dh_ra = 0, dh_z = 0, dh_rcode = 0, dh_qdcount = 1, dh_ancount = 0, dh_nscount = 0, dh_arcount = 0 \<rparr> = Some (buf1, 12) \<and>
    netbuf_add_dnsquery_question buf1 12 \<lparr> dq_qname = bytes_of_string ''_tcp.d'', dq_qtype = 33, dq_qclass = 1 \<rparr> = Some (buf2, off) \<and>
    netbuf_get_dnsquery_question buf2 12 sample_question = Some (q', off) \<and> cstring (dq_qname q') = ''_tcp.d'' \<and> dq_qtype q' = 33"
proof -
  have "cstring (bytes_of_string ''_tcp.d'') = join_dots [''_tcp'', ''d'']"
    using cstring_of_nonzero [of "''_tcp.d''"] by simp
  then show ?thesis
    using dns_query_round_trip [of "\<lparr> dh_id = 12345, dh_qr = 0, dh_opcode = 0, dh_aa = 0, dh_tc = 0, dh_rd = 1,
      dh_ra = 0, dh_z = 0, dh_rcode = 0, dh_qdcount = 1, dh_ancount = 0, dh_nscount = 0, dh_arcount = 0 \<rparr>" "[''_tcp'', ''d'']"
      "\<lparr> dq_qname = bytes_of_string ''_tcp.d'', dq_qtype = 33, dq_qclass = 1 \<rparr>" "replicate 64 0" sample_question]
    by (auto simp: header_fits_def label_ok_def sample_question_def)
qed

end
