(* ===== verification/Auth_Facts.thy ===== *)
theory Auth_Facts
  imports Auth Conn_Facts
begin

section \<open>Properties of the authentication\<close>

text \<open>
  What each attempt of \<open>auth\<close> sends and gives up, the mechanisms found in the features of a stream, and the
  stream errors.
\<close>

subsection \<open>The stanzas that are sent\<close>

definition attrs_table :: "(string \<times> string) list list \<Rightarrow> string hash_t" where
  "attrs_table es = \<lparr> h_ref = 1, h_free = True, h_length = 8, h_num_keys = int (length (concat es)), h_entries = es \<rparr>"

definition starttls_node :: stanza_node where
  "starttls_node = \<lparr> s_type = XMPP_STANZA_TAG, s_data = Some ''starttls'',
     s_attributes = Some (attrs_table [[], [], [], [(''xmlns'', XMPP_NS_TLS)], [], [], [], []]) \<rparr>"

definition auth_node :: "string \<Rightarrow> stanza_node" where
  "auth_node mech = \<lparr> s_type = XMPP_STANZA_TAG, s_data = Some ''auth'',
     s_attributes = Some (attrs_table [[], [(''mechanism'', mech)], [], [(''xmlns'', XMPP_NS_SASL)], [], [], [], []]) \<rparr>"

lemmas build_simps = new_node_def name_node_def blank_node_def xmpp_stanza_set_name_def xmpp_stanza_set_attribute_def
  hash_new_def hash_add_def bucket_index_def hash_key_def schar_def c_rem_def hash_drop_def

lemma make_starttls_ok: "hc_mem c = [] \<Longrightarrow> make_starttls c = Some (Some (Stanza starttls_node []), c)"
  by (simp add: make_starttls_def starttls_node_def attrs_table_def build_simps Let_def eval_nat_numeral)

lemma make_sasl_auth_ok: "hc_mem c = [] \<Longrightarrow> make_sasl_auth c mech = Some (Some (auth_node mech), c)"
  by (simp add: make_sasl_auth_def auth_node_def attrs_table_def build_simps Let_def eval_nat_numeral)

lemma attr_buckets:
  "length es = 8 \<Longrightarrow> bucket_index (attrs_table es) ''xmlns'' = Some 3"
  "length es = 8 \<Longrightarrow> bucket_index (attrs_table es) ''mechanism'' = Some 1"
  by (simp_all add: attrs_table_def bucket_index_def hash_key_def schar_def c_rem_def Let_def)

lemma hash_ok_attrs:
  "hash_ok (attrs_table [[], [], [], [(''xmlns'', v)], [], [], [], []])"
  "hash_ok (attrs_table [[], [(''mechanism'', m)], [], [(''xmlns'', v)], [], [], [], []])"
  by (simp_all add: hash_ok_def attrs_table_def All_less_Suc bucket_index_def hash_key_def schar_def c_rem_def Let_def)

lemma starttls_text:
  "renderable (Stanza starttls_node [])"
  "stanza_text (Stanza starttls_node []) = ''<starttls xmlns=\"urn:ietf:params:xml:ns:xmpp-tls\"/>''"
  using hash_ok_attrs(1) [of XMPP_NS_TLS] attr_buckets(1) [of "[[], [], [], [(''xmlns'', XMPP_NS_TLS)], [], [], [], []]"]
  by (simp_all add: starttls_node_def stanza_text_def tag_open_def hash_keys_eq attr_pieces_def hash_map_def
      attrs_table_def XMPP_NS_TLS_def escape_def)

lemma auth_node_open:
  "tag_open (auth_node mech) ''auth'' = [''<auth'', '' mechanism=\"'' @ escape mech @ ''\"'',
     '' xmlns=\"urn:ietf:params:xml:ns:xmpp-sasl\"'']"
  using attr_buckets [of "[[], [(''mechanism'', mech)], [], [(''xmlns'', XMPP_NS_SASL)], [], [], [], []]"]
  by (simp add: auth_node_def tag_open_def hash_keys_eq attr_pieces_def hash_map_def attrs_table_def XMPP_NS_SASL_def
      escape_def)

lemma auth_text:
  "renderable (Stanza (auth_node mech) [])"
  "stanza_text (Stanza (auth_node mech) []) =
     ''<auth mechanism=\"'' @ escape mech @ ''\" xmlns=\"urn:ietf:params:xml:ns:xmpp-sasl\"/>''"
  "renderable (Stanza (auth_node mech) [text_node t])"
  "stanza_text (Stanza (auth_node mech) [text_node t]) =
     ''<auth mechanism=\"'' @ escape mech @ ''\" xmlns=\"urn:ietf:params:xml:ns:xmpp-sasl\">'' @ escape t @ ''</auth>''"
  using hash_ok_attrs(2) [of mech XMPP_NS_SASL] auth_node_open [of mech]
  by (simp_all add: stanza_text_def auth_node_def text_node_def)

subsection \<open>Registering and sending\<close>

lemma xmpp_send_ok:
  assumes "renderable s" "length (stanza_text s) < 1024" "conn_state c = XMPP_STATE_CONNECTED" "hc_mem c = []"
  shows "xmpp_send c s = Some (xmpp_send_raw c (stanza_text s))"
proof -
  have "no_edge 1024 0 (stanza_pieces s)" by (rule no_edge_fits) (use assms(2) in \<open>simp add: stanza_text_def\<close>)
  from to_text_ok [OF assms(1) this, of "fresh_byte c"] assms(3,4) show ?thesis
    by (auto simp: xmpp_send_def XMPP_EOK_def)
qed

text \<open>The settings and the state that the attempts leave alone.\<close>

definition same_settings :: "conn \<Rightarrow> conn \<Rightarrow> bool" where
  "same_settings c c' \<longleftrightarrow> jid c' = jid c \<and> pass c' = pass c \<and> conn_type c' = conn_type c \<and>
     conn_state c' = conn_state c \<and> hc_mem c' = hc_mem c"

lemma more_settings:
  "hconn.more (c :: conn) = hconn.more (c' :: conn) \<Longrightarrow> jid c = jid c' \<and> pass c = pass c' \<and> conn_type c = conn_type c' \<and>
     tls_support c = tls_support c' \<and> sasl_support c = sasl_support c' \<and> send_queue c = send_queue c'"
  by (cases c; cases c') simp

lemma register_and_send:
  assumes "conn_lists c hs ts" "hc_mem c = []" "conn_state c = XMPP_STATE_CONNECTED" "renderable s"
    "length (stanza_text s) < 1024"
  shows "\<exists>c1 c2 hs'. handler_add c h (Some ns) None None u = Some c1 \<and> xmpp_send c1 s = Some c2 \<and>
    send_queue c2 = send_queue c @ [\<lparr> sq_data = stanza_text s, sq_written = 0 \<rparr>] \<and> conn_lists c2 hs' ts \<and>
    h \<in> set (funs hs') \<and> same_settings c c2 \<and> tls_support c2 = tls_support c \<and> sasl_support c2 = sasl_support c"
proof -
  obtain c1 where c1: "handler_add c h (Some ns) None None u = Some c1" "same_rest c c1"
    "conn_lists c1 (if h \<in> set (funs hs) then hs
      else hs @ [(hc_fresh c, blank_handler False h u (Filter_key (Some ns) None None))]) ts"
    using add_handler_lists [OF assms(1,2), of h "Some ns" None None u False] unfolding handler_add_def by blast
  have m: "conn_state c1 = XMPP_STATE_CONNECTED" "hc_mem c1 = []" "hconn.more c1 = hconn.more c"
    using c1(2) assms(2,3) by (simp_all add: same_rest_def)
  have "xmpp_send c1 s = Some (xmpp_send_raw c1 (stanza_text s))" by (rule xmpp_send_ok [OF assms(4,5) m(1,2)])
  moreover have "h \<in> set (funs (if h \<in> set (funs hs) then hs
      else hs @ [(hc_fresh c, blank_handler False h u (Filter_key (Some ns) None None))]))"
    by (simp add: blank_handler_def)
  ultimately show ?thesis
    using c1(1) send_raw_lists [OF c1(3) m(1,2), of "stanza_text s"] more_settings [OF m(3)] assms(2,3) m(1,2)
    by (intro exI conjI) (assumption | simp add: xmpp_send_raw_queues same_settings_def)+
qed

subsection \<open>The attempts\<close>

lemma base64_plain_chars: "\<forall>n \<in> {0..<65}. base64_charmap ! n \<notin> {CHR ''<'', CHR ''>'', CHR ''&'', CHR 0x22}"
  by code_simp

lemma b64_char_plain: "h < 65 \<Longrightarrow> b64_char h \<notin> {CHR ''<'', CHR ''>'', CHR ''&'', CHR 0x22}"
  unfolding b64_char_def by (rule bspec [OF base64_plain_chars]) (simp add: word_less_nat_alt)

lemma escape_plain: "set t \<inter> {CHR ''<'', CHR ''>'', CHR ''&'', CHR 0x22} = {} \<Longrightarrow> escape t = t"
  by (induction t) (auto simp: escape_Cons)

lemma enc_list_plain: "set (enc_list bs) \<inter> {CHR ''<'', CHR ''>'', CHR ''&'', CHR 0x22} = {}"
proof -
  define M where "M = {CHR ''<'', CHR ''>'', CHR ''&'', CHR 0x22}"
  have t: "b64_char (take_bit 6 w) \<notin> M" for w unfolding M_def by (rule b64_char_plain [OF take_bit6_lt])
  have p: "b64_char 64 \<notin> M" unfolding M_def by (rule b64_char_plain) simp
  have "set (enc_list bs) \<inter> M = {}"
  proof (induction bs rule: enc_list.induct)
    case (2 x)
    show ?case unfolding enc_list.simps tail_hextets list.set using t p by blast
  next
    case (3 y x)
    show ?case unfolding enc_list.simps tail_hextets(3) unfolding tail_hextets(1,4) list.set using t p by blast
  next
    case (4 a b c bs)
    then show ?case unfolding enc_list.simps enc_quad_hextets Let_def set_append list.map list.set using t by blast
  qed simp
  then show ?thesis unfolding M_def .
qed

definition plain_message :: "string \<Rightarrow> string \<Rightarrow> string" where
  "plain_message authid password = enc_list (0 # bytes_of_string authid @ 0 # bytes_of_string password)"

lemma sasl_plain_ok:
  assumes "length authid + length password \<le> 600"
  shows "sasl_plain [] authid password = Some (Some (plain_message authid password), [])"
    and "length (escape (plain_message authid password)) \<le> 820"
proof -
  let ?b = "0 # bytes_of_string authid @ 0 # bytes_of_string password"
  show "sasl_plain [] authid password = Some (Some (plain_message authid password), [])"
    using base64_encode_ok [of ?b "[]"] assms by (simp add: sasl_plain_def plain_message_def)
  have "escape (enc_list ?b) = enc_list ?b" by (rule escape_plain [OF enc_list_plain])
  then show "length (escape (plain_message authid password)) \<le> 820"
    using length_enc_list [of ?b] assms by (simp add: plain_message_def base64_encoded_len_def)
qed

text \<open>A client that can authenticate: connected, with a node in its JID and a password, and proper handler lists.\<close>

definition auth_ready ::
    "conn \<Rightarrow> (lib_handler, udata) node list \<Rightarrow> (lib_handler, udata) node list \<Rightarrow> string \<Rightarrow> string \<Rightarrow> string \<Rightarrow> bool" where
  "auth_ready c hs ts j n p \<longleftrightarrow>
     conn_lists c hs ts \<and> hc_mem c = [] \<and> conn_state c = XMPP_STATE_CONNECTED \<and> conn_type c = XMPP_CLIENT \<and>
     jid c = Some j \<and> xmpp_jid_node [] j = (Some n, []) \<and> pass c = Some p \<and> length n + length p \<le> 600"

definition attempted ::
    "conn \<Rightarrow> conn option \<Rightarrow> string \<Rightarrow> lib_handler \<Rightarrow> (lib_handler, udata) node list \<Rightarrow> bool \<Rightarrow> u32 \<Rightarrow> bool" where
  "attempted c r msg h ts tls sasl \<longleftrightarrow> (\<exists>c' hs'. r = Some c' \<and>
     send_queue c' = send_queue c @ [\<lparr> sq_data = msg, sq_written = 0 \<rparr>] \<and> conn_lists c' hs' ts \<and>
     h \<in> set (funs hs') \<and> same_settings c c' \<and> tls_support c' = tls \<and> sasl_support c' = sasl)"

lemma attempted_update:
  assumes "conn_lists c2 hs' ts" "send_queue c2 = q" "h \<in> set (funs hs')" "same_settings c c2"
    "tls_support c2 = tls" "sasl_support c2 = sasl" "q = send_queue c @ [\<lparr> sq_data = msg, sq_written = 0 \<rparr>]"
  shows "attempted c (Some (c2\<lparr>tls_support := b\<rparr>)) msg h ts b sasl"
    and "attempted c (Some (c2\<lparr>sasl_support := m\<rparr>)) msg h ts tls m"
  using assms unfolding attempted_def by (auto simp: same_settings_def conn_lists_def intro!: exI [of _ hs'])

lemma auth_step_ok:
  assumes "auth_ready c hs ts j n p" "renderable s" "length (stanza_text s) < 1024"
  shows "\<exists>c1 c2 hs'. handler_add c h (Some ns) None None u = Some c1 \<and> xmpp_send c1 s = Some c2 \<and>
    send_queue c2 = send_queue c @ [\<lparr> sq_data = stanza_text s, sq_written = 0 \<rparr>] \<and> conn_lists c2 hs' ts \<and>
    h \<in> set (funs hs') \<and> same_settings c c2 \<and> tls_support c2 = tls_support c \<and> sasl_support c2 = sasl_support c"
  using register_and_send [of c hs ts s h ns u] assms unfolding auth_ready_def by blast

lemma auth_tls_step:
  assumes "auth_ready c hs ts j n p" "tls_support c" "en_tls_new en c"
  shows "attempted c (auth en c) (stanza_text (Stanza starttls_node [])) H_proceedtls ts False (sasl_support c)"
proof -
  obtain c1 c2 hs' where s: "handler_add c H_proceedtls (Some XMPP_NS_TLS) None None U_null = Some c1"
    "xmpp_send c1 (Stanza starttls_node []) = Some c2"
    "send_queue c2 = send_queue c @ [\<lparr> sq_data = stanza_text (Stanza starttls_node []), sq_written = 0 \<rparr>]"
    "conn_lists c2 hs' ts" "H_proceedtls \<in> set (funs hs')" "same_settings c c2" "tls_support c2 = tls_support c"
    "sasl_support c2 = sasl_support c"
    using auth_step_ok [OF assms(1) starttls_text(1), of H_proceedtls XMPP_NS_TLS U_null] by (auto simp: starttls_text(2))
  have "auth en c = Some (c2\<lparr>tls_support := False\<rparr>)"
    using assms s(1,2) unfolding auth_ready_def
    by (simp add: auth.simps [of en c] Let_def make_starttls_ok need_def)
  then show ?thesis using attempted_update(1) [OF s(4,3,5-8) refl] by simp
qed

lemma auth_digest_step:
  assumes "auth_ready c hs ts j n p" "\<not> tls_support c" "sasl_support c AND SASL_MASK_DIGESTMD5 \<noteq> 0"
  shows "attempted c (auth en c) (stanza_text (Stanza (auth_node ''DIGEST-MD5'') [])) H_digestmd5_challenge ts False
    (sasl_support c AND NOT SASL_MASK_DIGESTMD5)"
proof -
  let ?s = "Stanza (auth_node ''DIGEST-MD5'') []"
  have l: "length (stanza_text ?s) < 1024" unfolding auth_text(2) by (simp add: escape_plain)
  obtain c1 c2 hs' where s: "handler_add c H_digestmd5_challenge (Some XMPP_NS_SASL) None None U_null = Some c1"
    "xmpp_send c1 ?s = Some c2" "send_queue c2 = send_queue c @ [\<lparr> sq_data = stanza_text ?s, sq_written = 0 \<rparr>]"
    "conn_lists c2 hs' ts" "H_digestmd5_challenge \<in> set (funs hs')" "same_settings c c2" "tls_support c2 = tls_support c"
    "sasl_support c2 = sasl_support c"
    using auth_step_ok [OF assms(1) auth_text(1) l, of H_digestmd5_challenge XMPP_NS_SASL U_null] by blast
  have "auth en c = Some (c2\<lparr>sasl_support := sasl_support c2 AND NOT SASL_MASK_DIGESTMD5\<rparr>)"
    using assms s(1,2) unfolding auth_ready_def
    by (simp add: auth.simps [of en c] Let_def auth_digest_def make_sasl_auth_ok need_def)
  then show ?thesis using attempted_update(2) [OF s(4,3,5-8) refl] assms(2) s(8) by simp
qed

lemma auth_plain_step:
  assumes "auth_ready c hs ts j n p" "\<not> tls_support c" "sasl_support c AND SASL_MASK_DIGESTMD5 = 0"
    "sasl_support c AND SASL_MASK_PLAIN \<noteq> 0"
  shows "attempted c (auth en c) (stanza_text (Stanza (auth_node ''PLAIN'') [text_node (plain_message n p)])) H_sasl_result ts
    False (sasl_support c AND NOT SASL_MASK_PLAIN)"
proof -
  let ?s = "Stanza (auth_node ''PLAIN'') [text_node (plain_message n p)]"
  have np: "length n + length p \<le> 600" using assms(1) unfolding auth_ready_def by blast
  have l: "length (stanza_text ?s) < 1024" using sasl_plain_ok(2) [OF np] unfolding auth_text(4) by (simp add: escape_plain)
  obtain c1 c2 hs' where s: "handler_add c H_sasl_result (Some XMPP_NS_SASL) None None (U_string ''PLAIN'') = Some c1"
    "xmpp_send c1 ?s = Some c2" "send_queue c2 = send_queue c @ [\<lparr> sq_data = stanza_text ?s, sq_written = 0 \<rparr>]"
    "conn_lists c2 hs' ts" "H_sasl_result \<in> set (funs hs')" "same_settings c c2" "tls_support c2 = tls_support c"
    "sasl_support c2 = sasl_support c"
    using auth_step_ok [OF assms(1) auth_text(3) l, of H_sasl_result XMPP_NS_SASL "U_string ''PLAIN''"] by blast
  have "auth en c = Some (c2\<lparr>sasl_support := sasl_support c2 AND NOT SASL_MASK_PLAIN\<rparr>)"
    using assms s(1,2) sasl_plain_ok(1) [OF np] unfolding auth_ready_def
    by (simp add: auth.simps [of en c] Let_def auth_plain_def make_sasl_auth_ok need_def new_node_def get_authid_def
        text_stanza_def xmpp_stanza_set_text_def blank_node_def text_node_def)
  then show ?thesis using attempted_update(2) [OF s(4,3,5-8) refl] assms(2) s(8) by simp
qed

lemma attempted_ready:
  assumes "attempted c r msg h ts tls sasl" "auth_ready c hs ts j n p"
  shows "\<exists>c' hs'. r = Some c' \<and> auth_ready c' hs' ts j n p \<and> tls_support c' = tls \<and> sasl_support c' = sasl"
  using assms unfolding attempted_def auth_ready_def same_settings_def by auto

lemma attempted_queue: "attempted c r msg h ts tls sasl \<Longrightarrow>
    \<exists>c'. r = Some c' \<and> send_queue c' = send_queue c @ [\<lparr> sq_data = msg, sq_written = 0 \<rparr>] \<and>
      tls_support c' = tls \<and> sasl_support c' = sasl"
  unfolding attempted_def by blast

subsection \<open>Properties\<close>

text \<open>
  Claim C10.  What an attempt to authenticate sends, by its order of preference: the request for TLS when
  the server offers it, else DIGEST-MD5, and the name and password in the clear only when neither is left; what
  was tried is not tried again.
\<close>

theorem auth_attempts:
  assumes "auth_ready c hs ts j n p"
  shows "(tls_support c \<and> en_tls_new en c \<longrightarrow>
      (\<exists>c'. auth en c = Some c' \<and> tls_support c' = False \<and> sasl_support c' = sasl_support c \<and>
        map sq_data (send_queue c') = map sq_data (send_queue c) @ [''<starttls xmlns=\"urn:ietf:params:xml:ns:xmpp-tls\"/>''])) \<and>
    (\<not> tls_support c \<and> sasl_support c AND SASL_MASK_DIGESTMD5 \<noteq> 0 \<longrightarrow>
      (\<exists>c'. auth en c = Some c' \<and> sasl_support c' = sasl_support c AND NOT SASL_MASK_DIGESTMD5 \<and>
        map sq_data (send_queue c') = map sq_data (send_queue c) @
          [''<auth mechanism=\"DIGEST-MD5\" xmlns=\"urn:ietf:params:xml:ns:xmpp-sasl\"/>''])) \<and>
    (\<not> tls_support c \<and> sasl_support c AND SASL_MASK_DIGESTMD5 = 0 \<and> sasl_support c AND SASL_MASK_PLAIN \<noteq> 0 \<longrightarrow>
      (\<exists>c'. auth en c = Some c' \<and> sasl_support c' = sasl_support c AND NOT SASL_MASK_PLAIN \<and>
        map sq_data (send_queue c') = map sq_data (send_queue c) @
          [''<auth mechanism=\"PLAIN\" xmlns=\"urn:ietf:params:xml:ns:xmpp-sasl\">'' @ plain_message n p @ ''</auth>'']))"
proof -
  have e: "escape (plain_message n p) = plain_message n p"
    unfolding plain_message_def by (rule escape_plain [OF enc_list_plain])
  show ?thesis
    using auth_tls_step [OF assms, of en] auth_digest_step [OF assms, of en] auth_plain_step [OF assms, of en]
    by (fastforce dest!: attempted_queue simp: starttls_text(2) auth_text(2,4) escape_plain e)
qed

definition sample_client :: conn where
  "sample_client = sample_xmpp_conn\<lparr>sasl_support := SASL_MASK_PLAIN\<rparr>"

lemma sample_client_ready: "auth_ready sample_client [] [] ''u@d.org/r'' ''u'' ''pw''"
  by (simp add: sample_client_def auth_ready_def sample_xmpp_simps conn_lists_def two_lists_def xmpp_jid_node_def strchr_def)

theorem auth_attempts_witness:
  "\<exists>c'. auth sample_environ sample_client = Some c' \<and> sasl_support c' = 0 \<and>
    map sq_data (send_queue c') =
      [''<auth mechanism=\"PLAIN\" xmlns=\"urn:ietf:params:xml:ns:xmpp-sasl\">'' @ plain_message ''u'' ''pw'' @ ''</auth>'']"
 
  using auth_attempts [OF sample_client_ready, of sample_environ]
  by (simp add: sample_client_def sample_xmpp_simps sasl_mask_defs)

text \<open>A client whose attempts fail, one after the other.\<close>

fun attempts :: "environ \<Rightarrow> nat \<Rightarrow> conn \<Rightarrow> conn option" where
  "attempts en 0 c = Some c"
| "attempts en (Suc k) c = Option.bind (auth en c) (attempts en k)"

definition mechanisms_left :: "environ \<Rightarrow> conn \<Rightarrow> nat" where
  "mechanisms_left en c = (if tls_support c \<and> en_tls_new en c then 1 else 0) +
     (if sasl_support c AND SASL_MASK_DIGESTMD5 \<noteq> 0 then 1 else 0) +
     (if sasl_support c AND SASL_MASK_PLAIN \<noteq> 0 then 1 else 0)"

lemma masks_and:
  "((w :: u32) AND NOT SASL_MASK_DIGESTMD5) AND SASL_MASK_DIGESTMD5 = 0"
  "(w AND NOT SASL_MASK_DIGESTMD5) AND SASL_MASK_PLAIN = w AND SASL_MASK_PLAIN"
  "(w AND NOT SASL_MASK_PLAIN) AND SASL_MASK_PLAIN = 0"
  "(w AND NOT SASL_MASK_PLAIN) AND SASL_MASK_DIGESTMD5 = w AND SASL_MASK_DIGESTMD5"
  by (simp_all add: sasl_mask_defs and.assoc)

lemma auth_no_tls_new:
  assumes "auth_ready c hs ts j n p" "tls_support c" "\<not> en_tls_new en c"
  shows "auth en c = auth en (c\<lparr>tls_support := False\<rparr>)" "auth_ready (c\<lparr>tls_support := False\<rparr>) hs ts j n p"
proof -
  have m: "hc_mem c = []" "jid c = Some j" "xmpp_jid_node [] j = (Some n, [])" using assms(1) unfolding auth_ready_def by blast+
  show "auth en c = auth en (c\<lparr>tls_support := False\<rparr>)"
    unfolding auth.simps [of en c] m option.case prod.case Let_def mem_update [OF m(1)] using assms(2,3) by simp
  show "auth_ready (c\<lparr>tls_support := False\<rparr>) hs ts j n p"
    using assms(1) unfolding auth_ready_def conn_lists_def by simp
qed

lemma auth_progress:
  assumes "auth_ready c hs ts j n p" "0 < mechanisms_left en c"
  shows "\<exists>c' hs'. auth en c = Some c' \<and> auth_ready c' hs' ts j n p \<and> mechanisms_left en c' < mechanisms_left en c"
proof -
  have plain: "\<exists>c' hs'. auth en d = Some c' \<and> auth_ready c' hs' ts j n p \<and> mechanisms_left en c' < mechanisms_left en d"
    if d: "auth_ready d hs ts j n p" "0 < mechanisms_left en d" "\<not> tls_support d" for d
  proof (cases "sasl_support d AND SASL_MASK_DIGESTMD5 = 0")
    case True
    then have pl: "sasl_support d AND SASL_MASK_PLAIN \<noteq> 0" using d(2,3) by (simp add: mechanisms_left_def split: if_splits)
    obtain c' hs' where c': "auth en d = Some c'" "auth_ready c' hs' ts j n p" "tls_support c' = False"
      "sasl_support c' = sasl_support d AND NOT SASL_MASK_PLAIN"
      using attempted_ready [OF auth_plain_step [OF d(1,3) True pl, of en] d(1)] by blast
    have "mechanisms_left en c' = 0" "mechanisms_left en d = 1"
      unfolding mechanisms_left_def c'(3,4) masks_and using True pl d(3) by simp_all
    then show ?thesis using c'(1,2) by auto
  next
    case False
    obtain c' hs' where c': "auth en d = Some c'" "auth_ready c' hs' ts j n p" "tls_support c' = False"
      "sasl_support c' = sasl_support d AND NOT SASL_MASK_DIGESTMD5"
      using attempted_ready [OF auth_digest_step [OF d(1,3) False, of en] d(1)] by blast
    have "Suc (mechanisms_left en c') = mechanisms_left en d"
      unfolding mechanisms_left_def c'(3,4) masks_and using False d(3) by simp
    then show ?thesis using c'(1,2) by (intro exI conjI) auto
  qed
  show ?thesis
  proof (cases "tls_support c")
    case False
    then show ?thesis using plain [OF assms] by blast
  next
    case tls: True
    show ?thesis
    proof (cases "en_tls_new en c")
      case True
      obtain c' hs' where c': "auth en c = Some c'" "auth_ready c' hs' ts j n p" "tls_support c' = False"
        "sasl_support c' = sasl_support c"
        using attempted_ready [OF auth_tls_step [OF assms(1) tls True] assms(1)] by blast
      have "Suc (mechanisms_left en c') = mechanisms_left en c"
        unfolding mechanisms_left_def c'(3,4) using tls True by simp
      then show ?thesis using c'(1,2) by (intro exI conjI) auto
    next
      case False
      note t = auth_no_tls_new [OF assms(1) tls False]
      have "mechanisms_left en (c\<lparr>tls_support := False\<rparr>) = mechanisms_left en c" using False by (simp add: mechanisms_left_def)
      then show ?thesis using plain [OF t(2)] t(1) assms(2) by simp
    qed
  qed
qed

lemma attempts_exhaust:
  "auth_ready c hs ts j n p \<Longrightarrow> mechanisms_left en c \<le> k \<Longrightarrow>
    \<exists>i c' hs'. i \<le> k \<and> attempts en i c = Some c' \<and> auth_ready c' hs' ts j n p \<and> mechanisms_left en c' = 0"
proof (induction k arbitrary: c hs)
  case 0
  then show ?case by (intro exI [of _ 0]) auto
next
  case (Suc k)
  show ?case
  proof (cases "mechanisms_left en c = 0")
    case True
    then show ?thesis using Suc.prems by (intro exI [of _ 0]) auto
  next
    case False
    then obtain c1 hs1 where c1: "auth en c = Some c1" "auth_ready c1 hs1 ts j n p" "mechanisms_left en c1 < mechanisms_left en c"
      using auth_progress [OF Suc.prems(1)] by blast
    then obtain i c' hs' where "i \<le> k" "attempts en i c1 = Some c'" "auth_ready c' hs' ts j n p" "mechanisms_left en c' = 0"
      using Suc.IH [OF c1(2)] Suc.prems(2) by fastforce
    then show ?thesis using c1(1) by (intro exI [of _ "Suc i"]) auto
  qed
qed



text \<open>The text of an element, when all its text children have one.\<close>

definition element_text :: "stanza \<Rightarrow> string option" where
  "element_text s = Option.bind (xmpp_stanza_get_text [] s) fst"

definition readable :: "stanza \<Rightarrow> bool" where
  "readable s \<longleftrightarrow> xmpp_stanza_get_text [] s \<noteq> None"

definition mechanism_bit :: "string \<Rightarrow> u32" where
  "mechanism_bit t =
     (if map to_lower t = ''plain'' then SASL_MASK_PLAIN
      else if map to_lower t = ''digest-md5'' then SASL_MASK_DIGESTMD5
      else if map to_lower t = ''anonymous'' then SASL_MASK_ANONYMOUS else 0)"

definition is_mechanism :: "stanza \<Rightarrow> bool" where
  "is_mechanism s \<longleftrightarrow> xmpp_stanza_get_name (s_node s) = Some ''mechanism''"

lemma get_text_mem: "xmpp_stanza_get_text [] s = Some (t, m) \<Longrightarrow> m = []"
  by (auto simp: xmpp_stanza_get_text_def split: if_splits option.splits bind_splits)

lemma lower_names:
  "map to_lower ''PLAIN'' = ''plain''" "map to_lower ''DIGEST-MD5'' = ''digest-md5''"
  "map to_lower ''ANONYMOUS'' = ''anonymous''"
  by code_simp+

lemma strcasecmp_names:
  "strcasecmp_eq (Some t) ''PLAIN'' = Some (map to_lower t = ''plain'')"
  "strcasecmp_eq (Some t) ''DIGEST-MD5'' = Some (map to_lower t = ''digest-md5'')"
  "strcasecmp_eq (Some t) ''ANONYMOUS'' = Some (map to_lower t = ''anonymous'')"
  unfolding strcasecmp_eq_def lower_names by simp_all

text \<open>
   The mechanisms of a stream: the loop over the children collects the bit of every mechanism element, by
  its name in any case; and it fails, with an access through \<open>NULL\<close>, exactly when a child has no name (as the
  text between elements) or a mechanism element is empty.
\<close>

theorem mechanisms_loop_collects:
  assumes "\<forall>s \<in> set mechs. readable s"
  shows "mechanisms_loop [] w0 mechs =
    (if \<forall>s \<in> set mechs. xmpp_stanza_get_name (s_node s) \<noteq> None \<and> (is_mechanism s \<longrightarrow> element_text s \<noteq> None)
     then Some (foldl (\<lambda>w s. w OR mechanism_bit (the (element_text s))) w0 (filter is_mechanism mechs), [])
     else None)"
  using assms
proof (induction mechs arbitrary: w0)
  case (Cons s mechs)
  obtain t where t: "xmpp_stanza_get_text [] s = Some (t, [])"
    using Cons.prems get_text_mem [of s] by (force simp: readable_def)
  show ?case
  proof (cases "xmpp_stanza_get_name (s_node s)")
    case None
    then show ?thesis by simp
  next
    case (Some name)
    show ?thesis
    proof (cases "name = ''mechanism''")
      case False
      then have "\<not> is_mechanism s" using Some by (simp add: is_mechanism_def)
      then show ?thesis using Cons Some False by simp
    next
      case True
      show ?thesis
      proof (cases t)
        case None
        then show ?thesis using Some True t by (simp add: is_mechanism_def element_text_def strcasecmp_eq_def)
      next
        case (Some tx)
        have step: "mechanisms_loop [] w0 (s # mechs) = mechanisms_loop [] (w0 OR mechanism_bit tx) mechs"
          using t Some True \<open>xmpp_stanza_get_name (s_node s) = Some name\<close>
          by (simp add: strcasecmp_names mechanism_bit_def)
        have "element_text s = Some tx" "is_mechanism s"
          using t Some True \<open>xmpp_stanza_get_name (s_node s) = Some name\<close> by (simp_all add: element_text_def is_mechanism_def)
        then show ?thesis unfolding step using Cons \<open>xmpp_stanza_get_name (s_node s) = Some name\<close> by simp
      qed
    qed
  qed
qed simp

theorem mechanisms_loop_collects_witness:
  "mechanisms_loop [] 0 [tag_node ''mechanism'' [text_node ''digest-MD5''], tag_node ''mechanism'' [text_node ''PLAIN'']] =
      Some (3, []) \<and>
    mechanisms_loop [] 0 [text_node '' '', tag_node ''mechanism'' [text_node ''PLAIN'']] = None"
proof -
  have b: "mechanism_bit ''digest-MD5'' = 2" "mechanism_bit ''PLAIN'' = 1" by code_simp+
  have m: "readable (tag_node ''mechanism'' [text_node t])" "is_mechanism (tag_node ''mechanism'' [text_node t])"
    "xmpp_stanza_get_name (s_node (tag_node ''mechanism'' [text_node t])) = Some ''mechanism''" for t
    by (simp_all add: readable_def tag_node_def text_node_def xmpp_stanza_get_text_def is_mechanism_def xmpp_stanza_get_name_def)
  have e: "t \<noteq> [] \<Longrightarrow> element_text (tag_node ''mechanism'' [text_node t]) = Some t" for t
    by (simp add: element_text_def tag_node_def text_node_def xmpp_stanza_get_text_def)
  have x: "readable (text_node t)" "xmpp_stanza_get_name (s_node (text_node t)) = None" for t
    by (simp_all add: readable_def text_node_def xmpp_stanza_get_text_def xmpp_stanza_get_name_def)
  show ?thesis
    using mechanisms_loop_collects [of "[tag_node ''mechanism'' [text_node ''digest-MD5''], tag_node ''mechanism'' [text_node ''PLAIN'']]" 0]
      mechanisms_loop_collects [of "[text_node '' '', tag_node ''mechanism'' [text_node ''PLAIN'']]" 0]
    by (simp add: b m e x)
qed

end
