(* ===== verification/Login_Facts.thy ===== *)
theory Login_Facts
  imports Auth_Facts
begin

section \<open>What a connection remembers: authenticated and secured\<close>

text \<open>
  Two flags of a connection guard everything a user trusts it for: \<open>authenticated\<close> lets the user's
  handlers run, and \<open>secured\<close> says that TLS is on.  The lemmas go through every operation that the library's
  handlers are composed of, and the properties say by which stanzas the flags are set, over
  any sequence of events, and that nothing ever clears them.
\<close>

subsection \<open>Operations that leave the flags alone\<close>

definition flags :: "conn \<Rightarrow> bool \<times> bool" where
  "flags c = (authenticated c, secured c)"

text \<open>An operation that may fail keeps the flags when it returns.\<close>

definition keeps :: "conn \<Rightarrow> conn option \<Rightarrow> bool" where
  "keeps c r \<longleftrightarrow> (\<forall>c'. r = Some c' \<longrightarrow> flags c' = flags c)"

lemma keepsD: "keeps c r \<Longrightarrow> r = Some c' \<Longrightarrow> flags c' = flags c"
  by (simp add: keeps_def)

lemma keeps_simps [simp]: "keeps c None" "keeps c (Some c') \<longleftrightarrow> flags c' = flags c"
  by (simp_all add: keeps_def)

lemma keeps_bind: "keeps c r \<Longrightarrow> (\<And>c'. flags c' = flags c \<Longrightarrow> keeps c (k c')) \<Longrightarrow> keeps c (r \<bind> k)"
  by (cases r) simp_all

lemma keeps_any: "(\<And>x. r = Some x \<Longrightarrow> keeps c (k x)) \<Longrightarrow> keeps c (r \<bind> k)"
  by (cases r) simp_all

lemma keeps_trans: "flags d = flags c \<Longrightarrow> keeps d r \<Longrightarrow> keeps c r"
  by (simp add: keeps_def)

lemma flags_update [simp]:
  "flags (c\<lparr>hc_items := a1\<rparr>) = flags c" "flags (c\<lparr>hc_fresh := a2\<rparr>) = flags c" "flags (c\<lparr>hc_mem := a3\<rparr>) = flags c"
  "flags (c\<lparr>hc_clock := a4\<rparr>) = flags c" "flags (c\<lparr>conn_state := a5\<rparr>) = flags c"
  "flags (c\<lparr>timed_handlers := a6\<rparr>) = flags c" "flags (c\<lparr>id_handlers := a7\<rparr>) = flags c" "flags (c\<lparr>handlers := a8\<rparr>) = flags c"
  "flags (c\<lparr>conn_tls := b\<rparr>) = flags c" "flags (c\<lparr>tls_support := b\<rparr>) = flags c" "flags (c\<lparr>tls_failed := b\<rparr>) = flags c"
  "flags (c\<lparr>sasl_support := w\<rparr>) = flags c" "flags (c\<lparr>bind_required := b\<rparr>) = flags c"
  "flags (c\<lparr>session_required := b\<rparr>) = flags c" "flags (c\<lparr>domain := so\<rparr>) = flags c" "flags (c\<lparr>bound_jid := so\<rparr>) = flags c"
  "flags (c\<lparr>stream_id := sp\<rparr>) = flags c" "flags (c\<lparr>send_queue := q\<rparr>) = flags c" "flags (c\<lparr>send_queue_len := i\<rparr>) = flags c"
  "flags (c\<lparr>reset_parser := b\<rparr>) = flags c" "flags (c\<lparr>open_handler := oh\<rparr>) = flags c"
  "flags (c\<lparr>conn_handler := ch\<rparr>) = flags c" "flags (c\<lparr>stream_error := se\<rparr>) = flags c"
  "flags (c\<lparr>conn_type := ct\<rparr>) = flags c" "flags (c\<lparr>conn_sock := i\<rparr>) = flags c" "flags (c\<lparr>timeout_stamp := t\<rparr>) = flags c"
  by (simp_all add: flags_def)

lemma flags_items [simp]: "flags (put_item c p i) = flags c" "flags (free_item c p) = flags c"
  by (simp_all add: put_item_def free_item_def)

lemma flags_alloc: "conn_alloc c = (ok, c') \<Longrightarrow> flags c' = flags c"
  by (auto simp: conn_alloc_def split: prod.splits)

lemma flags_strdup: "conn_strdup c s = (ok, c') \<Longrightarrow> flags c' = flags c"
  by (auto simp: conn_strdup_def flags_alloc split: option.splits)

lemma flags_time: "time_stamp c = (t, c') \<Longrightarrow> flags c' = flags (c :: conn)"
  by (auto simp: time_stamp_def split: list.splits)

lemma flags_new_item: "new_item c i = (p, c') \<Longrightarrow> flags c' = flags c"
  by (auto simp: new_item_def)

lemma flags_append: "append_item c head p = Some (h, c') \<Longrightarrow> flags c' = flags c"
  by (auto simp: append_item_def split: option.splits bind_splits)

lemma keeps_set_next: "keeps c (set_next c p n)"
  by (auto simp: set_next_def keeps_def split: bind_splits)

lemmas flag_facts = flags_alloc flags_strdup flags_time flags_new_item flags_append

subsection \<open>Handlers\<close>

lemma keeps_enable_loop: "keeps c (enable_loop item c)"
proof -
  have "flags c' = flags c" if "enable_loop item c = Some c'" for c'
    by (rule enable_loop.raw_induct [where P = "\<lambda>item c c'. flags c' = flags c", OF _ that])
      (fastforce split: option.splits bind_splits)
  then show ?thesis by (simp add: keeps_def)
qed

lemma keeps_reset_timed: "keeps c (reset_timed_loop b item c)"
proof -
  have "flags c' = flags c" if "reset_timed_loop b item c = Some c'" for c'
    by (rule reset_timed_loop.raw_induct [where P = "\<lambda>b item c c'. flags c' = flags c", OF _ that])
      (fastforce split: option.splits bind_splits prod.splits if_splits dest: flags_time)
  then show ?thesis by (simp add: keeps_def)
qed

lemma keeps_timed_add: "keeps c (timed_handler_add_common c h period u user)"
  by (auto simp: keeps_def timed_handler_add_common_def split: bind_splits prod.splits bool.splits if_splits dest!: flag_facts)

lemma keeps_timed_delete: "keeps c (xmpp_timed_handler_delete c h)"
  by (auto simp: keeps_def xmpp_timed_handler_delete_def split: bind_splits prod.splits option.splits
      dest!: keepsD [OF keeps_set_next])

lemma keeps_handler_delete: "keeps c (xmpp_handler_delete c h)"
  by (auto simp: keeps_def xmpp_handler_delete_def split: bind_splits prod.splits option.splits
      dest!: keepsD [OF keeps_set_next])

lemma keeps_id_store: "keeps c (id_store c i p)"
  by (auto simp: keeps_def id_store_def split: bind_splits)

lemma keeps_id_drop_store: "keeps c (id_drop_store c i p)"
  by (auto simp: keeps_def id_drop_store_def split: bind_splits dest!: keepsD [OF keeps_id_store])

lemma keeps_id_add: "keeps c (id_handler_add_common c h i u user)"
  by (auto simp: keeps_def id_handler_add_common_def split: bind_splits prod.splits bool.splits if_splits option.splits
      dest!: flag_facts keepsD [OF keeps_id_store])

lemma keeps_handler_add: "keeps c (handler_add_common c h ns name ty u user)"
  by (auto simp: keeps_def handler_add_common_def split: bind_splits prod.splits bool.splits if_splits
      dest!: flag_facts)


lemmas keeps_lists = keeps_enable_loop keeps_reset_timed keeps_timed_add keeps_timed_delete keeps_handler_delete
  keeps_id_add keeps_handler_add

subsection \<open>Sending and disconnecting\<close>

lemma flags_send_raw [simp]: "flags (xmpp_send_raw c s) = flags c"
  by (auto simp: xmpp_send_raw_def split: prod.splits bool.splits dest!: flag_facts)

lemma keeps_send_raw_string: "keeps c (xmpp_send_raw_string c fmt args)"
  by (auto simp: keeps_def xmpp_send_raw_string_def split: prod.splits bool.splits if_splits bind_splits dest!: flag_facts)

lemma keeps_send: "keeps c (xmpp_send c s)"
  by (auto simp: keeps_def xmpp_send_def Let_def split: prod.splits if_splits bind_splits)

lemma keeps_open_stream: "keeps c (conn_open_stream c)"
  unfolding conn_open_stream_def by (rule keeps_send_raw_string)

lemma keeps_add_timed: "keeps c (handler_add_timed c h period u)"
  unfolding handler_add_timed_def by (rule keeps_timed_add)

lemma keeps_add_id: "keeps c (handler_add_id c h i u)"
  unfolding handler_add_id_def by (rule keeps_id_add)

lemma keeps_add: "keeps c (handler_add c h ns name ty u)"
  unfolding handler_add_def by (rule keeps_handler_add)

lemma keeps_disconnect: "keeps c (xmpp_disconnect c)"
  by (auto simp: keeps_def xmpp_disconnect_def split: if_splits bind_splits
      dest!: keepsD [OF keeps_send_raw_string] keepsD [OF keeps_add_timed])

lemma flags_prepare_reset [simp]: "flags (conn_prepare_reset c h) = flags c"
  by (simp add: conn_prepare_reset_def)

subsection \<open>Stanzas that are built\<close>

lemma flags_new_node: "new_node c = (n, c') \<Longrightarrow> flags c' = flags c"
  by (auto simp: new_node_def split: prod.splits dest: flags_alloc)

lemma flags_name_node: "name_node c n name attrs = Some (n', c') \<Longrightarrow> flags c' = flags c"
  by (auto simp: name_node_def split: prod.splits bind_splits)

lemma flags_text_stanza: "text_stanza c n t = (s, c') \<Longrightarrow> flags c' = flags c"
  by (auto simp: text_stanza_def split: prod.splits)

lemma flags_make:
  "make_starttls c = Some (n, c') \<Longrightarrow> flags c' = flags c" "make_sasl_auth c mech = Some (n', c') \<Longrightarrow> flags c' = flags c"
  by (auto simp: make_starttls_def make_sasl_auth_def split: prod.splits option.splits bind_splits
      dest!: flags_new_node flags_name_node)

lemma flags_get_authid: "get_authid c = (a, c') \<Longrightarrow> flags c' = flags c"
  by (auto simp: get_authid_def split: prod.splits option.splits if_splits)

lemma keeps_need: "flags d = flags c \<Longrightarrow> (\<And>x. keeps c (k x)) \<Longrightarrow> keeps c (need x d k)"
  using keeps_disconnect [of d] by (cases x) (simp_all add: need_def disconnect_mem_error_def keeps_def)

lemma keeps_new_tag: "flags d = flags c \<Longrightarrow> (\<And>n e. flags e = flags c \<Longrightarrow> keeps c (k n e)) \<Longrightarrow> keeps c (new_tag d name attrs k)"
  unfolding new_tag_def
  by (auto split: prod.splits intro!: keeps_need keeps_any dest!: flags_new_node flags_name_node)

lemma keeps_fst: "keeps d r \<Longrightarrow> flags d = flags c \<Longrightarrow> keeps c r"
  by (simp add: keeps_def)

lemmas keeps_ops = keeps_send keeps_disconnect keeps_open_stream keeps_add keeps_add_id keeps_add_timed

lemmas keeps_intros = keeps_any keeps_need keeps_new_tag keeps_ops [THEN keeps_fst]

lemmas flag_dests = flags_new_node flags_name_node flags_text_stanza flags_make flags_get_authid
  keeps_ops [THEN keepsD]

subsection \<open>The attempts to authenticate\<close>

lemma keeps_auth_anonymous: "flags d = flags c \<Longrightarrow> keeps c (auth_anonymous d)"
  unfolding auth_anonymous_def by (auto split: prod.splits intro!: keeps_intros dest!: flag_dests)

lemma keeps_auth_digest: "flags d = flags c \<Longrightarrow> keeps c (auth_digest d)"
  unfolding auth_digest_def by (auto split: prod.splits intro!: keeps_intros dest!: flag_dests)

lemma keeps_auth_plain: "flags d = flags c \<Longrightarrow> keeps c (auth_plain d)"
  unfolding auth_plain_def by (auto simp: Let_def split: prod.splits intro!: keeps_intros dest!: flag_dests)

lemma keeps_legacy_username:
  "flags d = flags c \<Longrightarrow> (\<And>s e. flags e = flags c \<Longrightarrow> keeps c (k s e)) \<Longrightarrow> keeps c (legacy_username d j k)"
  unfolding legacy_username_def by (auto split: prod.splits option.splits intro!: keeps_intros dest!: flag_dests)

lemma keeps_legacy_password:
  "flags d = flags c \<Longrightarrow> (\<And>s e. flags e = flags c \<Longrightarrow> keeps c (k s e)) \<Longrightarrow> keeps c (legacy_password d k)"
  unfolding legacy_password_def by (auto split: prod.splits intro!: keeps_intros dest!: flag_dests)

lemma keeps_legacy_resource:
  "flags d = flags c \<Longrightarrow> (\<And>s e. flags e = flags c \<Longrightarrow> keeps c (k s e)) \<Longrightarrow> keeps c (legacy_resource d j k)"
  unfolding legacy_resource_def by (auto split: prod.splits option.splits intro!: keeps_intros dest!: flag_dests)

lemma keeps_auth_legacy: "flags d = flags c \<Longrightarrow> keeps c (auth_legacy d)"
  unfolding auth_legacy_def
  by (auto intro!: keeps_intros keeps_legacy_username keeps_legacy_password keeps_legacy_resource dest!: flag_dests)

lemmas keeps_attempts = keeps_auth_anonymous keeps_auth_digest keeps_auth_plain keeps_auth_legacy

lemma keeps_auth: "keeps c (auth en c)"
proof (induction en c rule: auth.induct)
  case (1 en c)
  show ?case
  proof (cases "jid c")
    case None
    then show ?thesis by (subst auth.simps) simp
  next
    case (Some j)
    obtain str m where n: "xmpp_jid_node (hc_mem c) j = (str, m)" by (cases "xmpp_jid_node (hc_mem c) j")
    have again: "keeps c (auth en (c\<lparr>hc_mem := m, tls_support := False\<rparr>))" if "tls_support c" "\<not> en_tls_new en (c\<lparr>hc_mem := m\<rparr>)"
      using 1 [OF Some n [symmetric] refl refl] that by (simp add: keeps_def)
    show ?thesis
      unfolding auth.simps [of en c] using Some n again
      by (auto simp: Let_def split: prod.splits intro!: keeps_intros keeps_attempts dest!: flag_dests)
  qed
qed


subsection \<open>What a stanza may change\<close>

definition earned :: "stanza \<Rightarrow> conn \<Rightarrow> conn \<Rightarrow> bool" where
  "earned s c c' \<longleftrightarrow>
     (authenticated c' \<longleftrightarrow> authenticated c \<or> (authenticated c' \<and> xmpp_stanza_get_type (s_node s) = Some (Some ''result''))) \<and>
     (secured c' \<longleftrightarrow> secured c \<or> (secured c' \<and> xmpp_stanza_get_name (s_node s) = Some ''proceed''))"

definition earns :: "stanza \<Rightarrow> conn \<Rightarrow> (bool \<times> conn) option \<Rightarrow> bool" where
  "earns s c r \<longleftrightarrow> (\<forall>b c'. r = Some (b, c') \<longrightarrow> earned s c c')"

lemma earned_same: "flags c' = flags c \<Longrightarrow> earned s c c'"
  by (auto simp: earned_def flags_def)

lemma earned_trans: "earned s c d \<Longrightarrow> earned s d e \<Longrightarrow> earned s c e"
  unfolding earned_def by blast

lemma earned_flags: "flags d = flags c \<Longrightarrow> earned s d e \<longleftrightarrow> earned s c e"
  by (simp add: earned_def flags_def)

lemma earns_simps [simp]: "earns s c None" "earns s c (Some (b, c')) \<longleftrightarrow> earned s c c'"
  by (simp_all add: earns_def)

lemma earns_any: "(\<And>x. r = Some x \<Longrightarrow> earns s c (k x)) \<Longrightarrow> earns s c (r \<bind> k)"
  by (cases r) simp_all

lemma earns_keeps: "keeps c r \<Longrightarrow> flags c = flags d \<Longrightarrow> earns s d (r \<bind> (\<lambda>c. Some (b, c)))"
  by (cases r) (auto intro: earned_same)

text \<open>User code cannot reach the flags: the structure of a connection is opaque outside the library.\<close>

definition polite :: "environ \<Rightarrow> bool" where
  "polite en \<longleftrightarrow>
     (\<forall>k s u c b c'. en_handler en k s u c = Some (b, c') \<longrightarrow> flags c' = flags c) \<and>
     (\<forall>k u c b c'. en_timed en k u c = Some (b, c') \<longrightarrow> flags c' = flags c) \<and>
     (\<forall>k ev c c'. en_conn en k ev c = Some c' \<longrightarrow> flags c' = flags c)"

lemma keeps_conn_handler: "polite en \<Longrightarrow> keeps c (call_conn_handler en ev c)"
  by (auto simp: polite_def call_conn_handler_def keeps_def split: bind_splits)

lemma earns_error: "earns s c (handle_error c s)"
  by (auto simp: handle_error_def Let_def earns_def split: prod.splits bool.splits if_splits bind_splits
      intro!: earned_same dest!: flag_facts)

text \<open>The two places where the features of a stream are read.\<close>

lemma flags_tls_offer:
  "(if \<not> secured c then
      if \<not> tls_disabled c then do {
        (child, eq) \<leftarrow> named_child s ''starttls'' XMPP_NS_TLS;
        Some (if eq then c\<lparr>tls_support := True\<rparr> else c) }
      else Some (c\<lparr>tls_support := False\<rparr>)
    else Some c) = Some d \<Longrightarrow> flags d = flags c"
  by (auto split: if_splits bind_splits prod.splits)

lemma flags_mechanism_offer:
  "(case child of
      None \<Rightarrow> Some c
    | Some child \<Rightarrow>
        if eq then do {
          (mechs, m) \<leftarrow> mechanisms_loop (hc_mem c) (sasl_support c) (xmpp_stanza_get_children child);
          Some (c\<lparr>sasl_support := mechs, hc_mem := m\<rparr>) }
        else Some c) = Some d \<Longrightarrow> flags d = flags c"
  by (auto split: if_splits bind_splits prod.splits option.splits)

lemma earns_features: "earns s c (handle_features en c s)"
  unfolding handle_features_def
  by (rule earns_any, drule keepsD [OF keeps_timed_delete], rule earns_any, drule flags_tls_offer, rule earns_any,
      clarsimp, rule earns_any, drule flags_mechanism_offer, rule earns_keeps [OF keeps_auth]) simp

lemma earns_sasl_result: "earns s c (handle_sasl_result en d s)" if "flags d = flags c"
  unfolding handle_sasl_result_def using that
  by (auto intro!: earns_any earned_same split: if_splits
      dest!: keepsD [OF keeps_auth] keepsD [OF keeps_open_stream] keepsD [OF keeps_disconnect])

lemma keeps_response:
  "flags d = flags c \<Longrightarrow> keeps c (need response d (\<lambda>response.
     new_tag d ''response'' attrs (\<lambda>n c.
     (case new_node c of (d, c) \<Rightarrow> need d c (\<lambda>d.
     (case text_stanza c d response of (d, c) \<Rightarrow> do {
        c \<leftarrow> handler_add c h ns None None u;
        xmpp_send c (Stanza n [d]) }))))))"
  by (auto split: prod.splits intro!: keeps_intros dest!: flag_dests)

lemma earns_challenge: "earns s c (handle_digestmd5_challenge en c s)"
proof -
  have "flags c' = flags c" if "need r (c\<lparr>hc_mem := m\<rparr>) (\<lambda>response.
       new_tag (c\<lparr>hc_mem := m\<rparr>) ''response'' attrs (\<lambda>n c.
       (case new_node c of (d, c) \<Rightarrow> need d c (\<lambda>d.
       (case text_stanza c d response of (d, c) \<Rightarrow> do {
          c \<leftarrow> handler_add c h ns None None u;
          xmpp_send c (Stanza n [d]) }))))) = Some c'" for r m attrs h ns u c'
    by (rule keepsD [OF keeps_response that]) simp
  then show ?thesis
    unfolding handle_digestmd5_challenge_def
    by (auto simp: Let_def split: prod.splits intro!: earns_any earns_sasl_result earned_same)
qed

lemma earns_rspauth: "earns s c (handle_digestmd5_rspauth en c s)"
  unfolding handle_digestmd5_rspauth_def disconnect_mem_error_def
  by (auto split: prod.splits option.splits intro!: earns_any earns_sasl_result earned_same dest!: flag_dests)

lemma strcmp_eq_True: "strcmp_eq a b = Some True \<Longrightarrow> a = b"
  by (cases a; cases b) simp_all

lemma earns_proceedtls: "earns s c (handle_proceedtls_default en c s)"
  unfolding earns_def
proof (intro allI impI)
  fix b c'
  assume "handle_proceedtls_default en c s = Some (b, c')"
  then consider "c' = c" | "xmpp_disconnect (c\<lparr>conn_tls := False, tls_failed := True\<rparr>) = Some c'"
    | t where "xmpp_stanza_get_name (s_node s) = Some ''proceed''"
        "conn_open_stream (conn_prepare_reset (c\<lparr>conn_tls := t, secured := True\<rparr>) Auth_handle_open) = Some c'"
    by (auto simp: handle_proceedtls_default_def Let_def split: if_splits bind_splits dest!: strcmp_eq_True)
  then show "earned s c c'"
  proof cases
    case 3
    then show ?thesis using keepsD [OF keeps_open_stream 3(2)] by (auto simp: earned_def flags_def conn_prepare_reset_def)
  qed (auto intro!: earned_same dest!: keepsD [OF keeps_disconnect])
qed

lemma keeps_send_bind: "flags d = flags c \<Longrightarrow> keeps c (send_bind d bnd)"
  unfolding send_bind_def
  by (auto simp: Let_def split: prod.splits intro!: keeps_intros dest!: flag_dests)

lemma keeps_bind_request:
  "flags d = flags c \<Longrightarrow> keeps c (if bind_required d then do {
      d \<leftarrow> handler_add_id d H_bind ''_xmpp_bind1'' U_null;
      d \<leftarrow> handler_add_timed d H_missing_bind BIND_TIMEOUT U_null;
      send_bind d bnd }
    else xmpp_disconnect d)"
  by (auto intro!: keeps_intros keeps_send_bind dest!: flag_dests)

lemma earns_features_sasl: "earns s c (handle_features_sasl c s)"
  unfolding handle_features_sasl_def Let_def
  by (rule earns_any, drule keepsD [OF keeps_timed_delete], rule earns_any, clarify, rule earns_any, clarify,
      rule earns_keeps [OF keeps_bind_request [OF refl]]) simp

text \<open>The three handlers of the last answer: what they need besides the type \<open>result\<close>.\<close>

lemma keeps_send_session: "flags d = flags c \<Longrightarrow> keeps c (send_session d)"
  unfolding send_session_def by (auto split: prod.splits intro!: keeps_intros dest!: flag_dests)

lemma earned_result:
  "xmpp_stanza_get_type (s_node s) = Some (Some ''result'') \<Longrightarrow> flags d = flags c \<Longrightarrow>
    flags c' = flags (d\<lparr>authenticated := True\<rparr>) \<Longrightarrow> earned s c c'"
  by (auto simp: earned_def flags_def)

lemma flags_bound_jid:
  "(case binding of
      [] \<Rightarrow> Some c
    | b # _ \<Rightarrow> do {
        js \<leftarrow> xmpp_stanza_get_child_by_name b ''jid'';
        case js of
          [] \<Rightarrow> Some c
        | js # _ \<Rightarrow> do {
            (t, m) \<leftarrow> xmpp_stanza_get_text (hc_mem c) js;
            Some (c\<lparr>bound_jid := t, hc_mem := m\<rparr>) } }) = Some d \<Longrightarrow> flags d = flags c"
  by (auto split: list.splits bind_splits prod.splits)

lemma earned_connect:
  assumes "polite en" "xmpp_stanza_get_type (s_node s) = Some (Some ''result'')" "flags d = flags c"
    "call_conn_handler en ev (d\<lparr>authenticated := True\<rparr>) = Some c'"
  shows "earned s c c'"
  by (rule earned_result [OF assms(2,3) keepsD [OF keeps_conn_handler [OF assms(1)] assms(4)]])

lemma earned_kept: "flags d = flags c \<Longrightarrow> keeps d r \<Longrightarrow> r = Some c' \<Longrightarrow> earned s c c'"
  by (rule earned_same) (simp add: keeps_def)

lemma earns_session: "polite en \<Longrightarrow> earns s c (handle_session en c s)"
  unfolding handle_session_def
  by (auto intro!: earns_any split: if_splits intro: earned_connect earned_kept [OF _ keeps_disconnect]
      dest!: keepsD [OF keeps_timed_delete])

lemma earns_legacy: "polite en \<Longrightarrow> earns s c (handle_legacy en c s)"
  unfolding handle_legacy_def
  by (auto intro!: earns_any split: if_splits option.splits bind_splits intro: earned_connect earned_kept [OF _ keeps_disconnect]
      dest!: keepsD [OF keeps_timed_delete])

lemma earns_bind: assumes "polite en" shows "earns s c (handle_bind en c s)"
  unfolding earns_def
proof (intro allI impI)
  fix b c'
  assume "handle_bind en c s = Some (b, c')"
  then consider "flags c' = flags c"
    | d where "xmpp_stanza_get_type (s_node s) = Some (Some ''result'')" "flags d = flags c"
        "call_conn_handler en XMPP_CONN_CONNECT (d\<lparr>authenticated := True\<rparr>) = Some c'"
    by (auto simp: handle_bind_def split: if_splits bind_splits
        dest!: keepsD [OF keeps_timed_delete] flags_bound_jid flag_dests keepsD [OF keeps_send_session [OF refl]])
  then show "earned s c c'"
    by cases (auto intro: earned_same earned_connect [OF assms])
qed

lemma earns_run_stanza: "polite en \<Longrightarrow> earns s c (run_stanza en h s u c)"
  by (auto simp: run_stanza_def earns_error earns_features earns_proceedtls earns_sasl_result earns_challenge earns_rspauth
      earns_features_sasl earns_bind earns_session earns_legacy split: lib_handler.split)
    (auto simp: polite_def earns_def intro: earned_same)

subsection \<open>The rounds over the handlers\<close>

lemma earned_step: "earned s c d \<Longrightarrow> flags e = flags d \<Longrightarrow> earned s e c' \<Longrightarrow> earned s c c'"
  by (metis earned_flags earned_trans)

lemma earned_fire_id_loop:
  assumes "fire_id_loop run s i prev item c = Some c'" "\<forall>h u c b d. run h s u c = Some (b, d) \<longrightarrow> earned s c d"
  shows "earned s c c'"
proof -
  have "(\<forall>h u c b d. run h s u c = Some (b, d) \<longrightarrow> earned s c d) \<longrightarrow> earned s c c'"
    by (rule fire_id_loop.raw_induct [where
          P = "\<lambda>run s i prev item c c'. (\<forall>h u c b d. run h s u c = Some (b, d) \<longrightarrow> earned s c d) \<longrightarrow> earned s c c'",
          OF _ assms(1)])
      (auto intro: earned_same split: option.splits if_splits bind_splits
        dest!: keepsD [OF keeps_set_next] keepsD [OF keeps_id_drop_store], (metis earned_step flags_items(2))+)
  then show ?thesis using assms(2) by blast
qed

lemma earned_fire_loop:
  assumes "fire_loop call test prev item c = Some c'" "\<forall>h u c b d. call h u c = Some (b, d) \<longrightarrow> earned s c d"
  shows "earned s c c'"
proof -
  have "(\<forall>h u c b d. call h u c = Some (b, d) \<longrightarrow> earned s c d) \<longrightarrow> earned s c c'"
    by (rule fire_loop.raw_induct [where
          P = "\<lambda>call test prev item c c'. (\<forall>h u c b d. call h u c = Some (b, d) \<longrightarrow> earned s c d) \<longrightarrow> earned s c c'",
          OF _ assms(1)])
      (auto intro: earned_same split: option.splits if_splits bind_splits dest!: keepsD [OF keeps_set_next],
        (metis earned_step flags_items(2) flags_update(8))+)
  then show ?thesis using assms(2) by blast
qed

lemma earned_stream_stanza:
  assumes "polite en" "handle_stream_stanza (run_stanza en) s c = Some c'"
  shows "earned s c c'"
proof -
  have run: "\<forall>h u c b d. run_stanza en h s u c = Some (b, d) \<longrightarrow> earned s c d"
    using earns_run_stanza [OF assms(1)] by (simp add: earns_def)
  obtain m where m: "handler_fire_stanza (run_stanza en) (c\<lparr>hc_mem := m\<rparr>) s = Some c'"
    using assms(2) by (auto simp: handle_stream_stanza_def split: bind_splits)
  define d where "d = c\<lparr>hc_mem := m\<rparr>"
  have d: "flags d = flags c" "handler_fire_stanza (run_stanza en) d s = Some c'" using m by (simp_all add: d_def)
  have fired: "earned s e c'" if "fire_loop (\<lambda>h. run_stanza en h s) test None item f = Some c'" "flags f = flags e" for test item f e
    using earned_flags [OF that(2)] earned_fire_loop [OF that(1)] run by blast
  have "earned s d c'"
    using d(2) by (auto simp: handler_fire_stanza_def split: bind_splits option.splits
      dest!: keepsD [OF keeps_enable_loop] earned_fire_id_loop [where run = "run_stanza en" and s = s, OF _ run] intro: fired earned_trans)
  then show ?thesis using earned_flags [OF d(1)] by simp
qed

lemma keeps_run_timed:
  assumes "polite en" "run_timed en h u c = Some (b, c')"
  shows "flags c' = flags c"
  using assms(2) keepsD [OF keeps_conn_handler [OF assms(1)]] assms(1)
  by (auto simp: run_timed_def handle_missing_features_def handle_missing_features_sasl_def handle_missing_bind_def
      handle_missing_session_def handle_missing_legacy_def disconnect_cleanup_def conn_disconnect_def polite_def
      split: lib_handler.splits bind_splits dest!: keepsD [OF keeps_auth] flag_dests)

lemma flags_fire_timed_loop:
  assumes "fire_timed_loop run item mn c = Some r" "\<forall>h u c b d. run h u c = Some (b, d) \<longrightarrow> flags d = flags c"
  shows "flags (snd r) = flags c"
proof -
  have "(\<forall>h u c b d. run h u c = Some (b, d) \<longrightarrow> flags d = flags c) \<longrightarrow> flags (snd r) = flags c"
    by (rule fire_timed_loop.raw_induct [where
          P = "\<lambda>run item mn c r. (\<forall>h u c b d. run h u c = Some (b, d) \<longrightarrow> flags d = flags c) \<longrightarrow> flags (snd r) = flags c",
          OF _ assms(1)])
      (fastforce simp: Let_def split: option.splits if_splits bind_splits prod.splits
        dest: flags_time dest!: keepsD [OF keeps_timed_delete])
  then show ?thesis using assms(2) by blast
qed

lemma flags_fire_timed_conn:
  assumes "polite en" "fire_timed_conn (run_timed en) mn c = Some (mn', c')"
  shows "flags c' = flags c"
  using assms(2) keeps_run_timed [OF assms(1)]
  by (auto simp: fire_timed_conn_def split: if_splits bind_splits dest!: flags_fire_timed_loop keepsD [OF keeps_enable_loop])

subsection \<open>The life of a connection\<close>

text \<open>What happens to a connection: the calls of its stream's handlers, a round of its timed handlers, and its
  connects and disconnects, with the answers of the world outside.\<close>

datatype conn_event =
  Ev_stanza stanza
| Ev_timers u64
| Ev_stream_start string "xml_attrs option"
| Ev_stream_end string
| Ev_connect "(string \<times> int) option" int "string option" int "nat option"
| Ev_connected
| Ev_lost int
| Ev_disconnect

fun on_event :: "environ \<Rightarrow> conn_event \<Rightarrow> conn \<Rightarrow> conn option" where
  "on_event en (Ev_stanza s) c = handle_stream_stanza (run_stanza en) s c"
| "on_event en (Ev_timers mn) c = map_option snd (fire_timed_conn (run_timed en) mn c)"
| "on_event en (Ev_stream_start name attrs) c = handle_stream_start en run_open name attrs c"
| "on_event en (Ev_stream_end name) c = handle_stream_end en name c"
| "on_event en (Ev_connect srv sock altdomain altport callback) c =
     map_option snd (xmpp_connect_client (\<lambda>_. srv) (\<lambda>_ _. sock) c altdomain altport callback)"
| "on_event en Ev_connected c = conn_open_stream (c\<lparr>conn_state := XMPP_STATE_CONNECTED\<rparr>)"
| "on_event en (Ev_lost err) c = conn_disconnect en (c\<lparr>conn_error := err\<rparr>)"
| "on_event en Ev_disconnect c = xmpp_disconnect c"

inductive conn_steps :: "environ \<Rightarrow> conn \<Rightarrow> conn_event list \<Rightarrow> conn \<Rightarrow> bool" for en c where
  conn_start: "conn_steps en c [] c"
| conn_step: "conn_steps en c tr d \<Longrightarrow> on_event en ev d = Some e \<Longrightarrow> conn_steps en c (tr @ [ev]) e"

inductive_cases conn_stepsE: "conn_steps en c tr d"

lemma flags_run_open: "run_open h c = Some c' \<Longrightarrow> flags c' = flags c"
  by (cases h) (auto simp: auth_handle_open_def handle_open_sasl_def handler_reset_timed_def split: bind_splits
      dest!: flag_dests keepsD [OF keeps_reset_timed])

lemma keeps_conn_disconnect: "polite en \<Longrightarrow> flags d = flags c \<Longrightarrow> keeps c (conn_disconnect en d)"
  unfolding conn_disconnect_def by (rule keeps_fst [OF keeps_conn_handler]) simp_all

lemma flags_stream_start:
  assumes "polite en" "handle_stream_start en run_open name attrs c = Some c'"
  shows "flags c' = flags c"
  using assms(2)
  by (auto simp: handle_stream_start_def Let_def split: if_splits bind_splits option.splits prod.splits string_ptr.splits
      dest!: flags_run_open keepsD [OF keeps_conn_disconnect [OF assms(1) refl]])

lemma flags_connect: "xmpp_connect_client srv connect c altdomain altport callback = Some (r, c') \<Longrightarrow> flags c' = flags c"
  by (auto simp: xmpp_connect_client_def Let_def split: option.splits prod.splits bind_splits if_splits dest!: flags_time)

lemma flags_lost [simp]: "flags (c\<lparr>conn_error := err\<rparr>) = flags c"
  by (simp add: flags_def)

lemma flags_other_event:
  assumes "polite en" "on_event en ev c = Some c'" "\<forall>s. ev \<noteq> Ev_stanza s"
  shows "flags c' = flags c"
  using assms(2,3)
  by (cases ev) (auto simp: handle_stream_end_def conn_disconnect_clean_def split: bind_splits
      dest: flags_fire_timed_conn [OF assms(1)] flags_stream_start [OF assms(1)] flags_connect
      dest!: keepsD [OF keeps_timed_delete] keepsD [OF keeps_open_stream] keepsD [OF keeps_disconnect]
        keepsD [OF keeps_conn_disconnect [OF assms(1) refl]])

lemma more_secured: "hconn.more (c :: conn) = hconn.more (c' :: conn) \<Longrightarrow> secured c = secured c'"
  by (cases c; cases c') simp

subsection \<open>Properties\<close>

text \<open>Claim C3. Over any life of a connection, with any user code, the flags \<open>authenticated\<close> and \<open>secured\<close> are only set
  while a stanza is handled, of type \<open>result\<close> for the one and with the name \<open>proceed\<close> for the other; and once set they
  stay, also when the connection is closed and connected anew.\<close>

theorem flags_earned_and_kept:
  assumes "polite en" "conn_steps en c tr c'"
  shows "(authenticated c \<longrightarrow> authenticated c') \<and> (secured c \<longrightarrow> secured c') \<and>
    (authenticated c' \<longrightarrow> authenticated c \<or>
      (\<exists>s. Ev_stanza s \<in> set tr \<and> xmpp_stanza_get_type (s_node s) = Some (Some ''result''))) \<and>
    (secured c' \<longrightarrow> secured c \<or>
      (\<exists>s. Ev_stanza s \<in> set tr \<and> xmpp_stanza_get_name (s_node s) = Some ''proceed''))"
  using assms(2)
proof (induction rule: conn_steps.induct)
  case (conn_step tr d ev e)
  show ?case
  proof (cases "\<exists>s. ev = Ev_stanza s")
    case True
    then obtain s where s: "ev = Ev_stanza s" by blast
    then have "earned s d e" using conn_step(2) earned_stream_stanza [OF assms(1)] by simp
    then show ?thesis using conn_step(3) s by (auto simp: earned_def)
  next
    case False
    then have "flags e = flags d" using flags_other_event [OF assms(1) conn_step(2)] by blast
    then show ?thesis using conn_step(3) by (auto simp: flags_def)
  qed
qed auto

lemma sample_polite: "polite sample_environ"
  by (simp add: polite_def sample_environ_def)

text \<open>A connection that was logged in is lost and opened again.\<close>

theorem flags_earned_and_kept_witness:
  "\<exists>c'. conn_steps sample_environ (sample_xmpp_conn\<lparr>authenticated := True, secured := True\<rparr>)
      [Ev_lost 104, Ev_connect None 3 (Some ''d.org'') 0 (Some 0), Ev_connected] c' \<and>
    conn_state c' = XMPP_STATE_CONNECTED \<and> authenticated c' \<and> secured c'"
proof -
  let ?c = "sample_xmpp_conn\<lparr>authenticated := True, secured := True\<rparr>"
  have dom: "xmpp_jid_domain [] ''u@d.org/r'' = (Some ''d.org'', [])" by code_simp
  obtain d where d: "on_event sample_environ (Ev_lost 104) ?c = Some d" "hc_mem d = []" "lang d = Some ''en''"
    "jid d = Some ''u@d.org/r''" "hc_clock d = [5]"
    by (simp add: conn_disconnect_def call_conn_handler_def sample_environ_def sample_xmpp_simps)
  obtain e where e: "on_event sample_environ (Ev_connect None 3 (Some ''d.org'') 0 (Some 0)) d = Some e" "hc_mem e = []"
    "lang e = Some ''en''" "domain e = Some ''d.org''"
    using d dom by (simp add: xmpp_connect_client_def time_stamp_def Let_def)
  obtain f where f: "on_event sample_environ Ev_connected e = Some f" "conn_state f = XMPP_STATE_CONNECTED"
    using send_raw_string_queues [OF stream_header_text] e(2-4) by (auto simp: conn_open_stream_def xmpp_send_raw_queues)
  have "conn_steps sample_environ ?c (([] @ [Ev_lost 104]) @ [Ev_connect None 3 (Some ''d.org'') 0 (Some 0)] @ [Ev_connected]) f"
    unfolding append_assoc [symmetric] by (rule conn_step [OF conn_step [OF conn_step [OF conn_start d(1)] e(1)] f(1)])
  then show ?thesis using flags_earned_and_kept [OF sample_polite, of ?c _ f] f(2) by auto
qed

text \<open>Claim C13. A connection that was secured once does not ask for TLS again: on its next stream, encrypted or not, the features
  are searched for mechanisms only, whether or not they offer \<open>starttls\<close>, and with PLAIN as the best one the
  password is sent at once.\<close>

theorem secured_skips_starttls:
  assumes "secured c" "\<not> tls_support c" "auth_ready c hs ts j n p"
    "named_child s ''mechanisms'' XMPP_NS_SASL = Some (Some ms, True)"
    "mechanisms_loop [] (sasl_support c) (xmpp_stanza_get_children ms) = Some (w, [])"
    "w AND SASL_MASK_DIGESTMD5 = 0" "w AND SASL_MASK_PLAIN \<noteq> 0"
  shows "\<exists>c'. handle_features en c s = Some (False, c') \<and>
    map sq_data (send_queue c') = map sq_data (send_queue c) @
      [''<auth mechanism=\"PLAIN\" xmlns=\"urn:ietf:params:xml:ns:xmpp-sasl\">'' @ plain_message n p @ ''</auth>'']"
proof -
  obtain d where d: "xmpp_timed_handler_delete c H_missing_features = Some d" "same_rest c d"
    "conn_lists d hs (without H_missing_features ts)"
    using delete_timed_lists [of c hs ts H_missing_features] assms(3) unfolding auth_ready_def by blast
  have m: "hconn.more d = hconn.more c" "hc_mem d = []" "conn_state d = XMPP_STATE_CONNECTED"
    using d(2) assms(3) by (simp_all add: same_rest_def auth_ready_def)
  have sec: "secured d = secured c" by (rule more_secured [OF m(1)])
  note more = more_settings [OF m(1)]
  define e where "e = d\<lparr>sasl_support := w, hc_mem := []\<rparr>"
  have e: "auth_ready e hs (without H_missing_features ts) j n p" "\<not> tls_support e" "sasl_support e = w"
    "send_queue e = send_queue c"
    using assms(2,3) d(3) m(2,3) more by (auto simp: e_def auth_ready_def conn_lists_def)
  have "handle_features en c s = auth en e \<bind> (\<lambda>c. Some (False, c))"
    using d(1) sec assms(1,4,5) m(2) more by (simp add: handle_features_def e_def)
  moreover have "escape (plain_message n p) = plain_message n p"
    unfolding plain_message_def by (rule escape_plain [OF enc_list_plain])
  ultimately show ?thesis
    using attempted_queue [OF auth_plain_step [OF e(1,2), of en]] assms(6,7) e(3,4)
    by (auto simp: auth_text(4) escape_plain)
qed

text \<open>Features that offer TLS and PLAIN.\<close>

definition mechanisms_plain :: stanza where
  "mechanisms_plain = Stanza \<lparr> s_type = XMPP_STANZA_TAG, s_data = Some ''mechanisms'',
     s_attributes = Some (attrs_table [[], [], [], [(''xmlns'', XMPP_NS_SASL)], [], [], [], []]) \<rparr>
     [tag_node ''mechanism'' [text_node ''PLAIN'']]"

definition features_tls_plain :: stanza where
  "features_tls_plain = tag_node ''stream:features'' [Stanza starttls_node [], mechanisms_plain]"

lemma features_tls_plain_children:
  "named_child features_tls_plain ''starttls'' XMPP_NS_TLS = Some (Some (Stanza starttls_node []), True)"
  "named_child features_tls_plain ''mechanisms'' XMPP_NS_SASL = Some (Some mechanisms_plain, True)"
  by code_simp+

theorem secured_skips_starttls_witness:
  "\<exists>c'. handle_features sample_environ (sample_xmpp_conn\<lparr>secured := True\<rparr>) features_tls_plain = Some (False, c') \<and>
    map sq_data (send_queue c') =
      [''<auth mechanism=\"PLAIN\" xmlns=\"urn:ietf:params:xml:ns:xmpp-sasl\">'' @ plain_message ''u'' ''pw'' @ ''</auth>'']"
proof -
  have "auth_ready (sample_xmpp_conn\<lparr>secured := True\<rparr>) [] [] ''u@d.org/r'' ''u'' ''pw''"
    by (simp add: auth_ready_def sample_xmpp_simps conn_lists_def two_lists_def xmpp_jid_node_def strchr_def)
  moreover have "mechanisms_loop [] 0 (xmpp_stanza_get_children mechanisms_plain) = Some (1, [])" by code_simp
  ultimately show ?thesis
    using secured_skips_starttls [OF _ _ _ features_tls_plain_children(2), of "sample_xmpp_conn\<lparr>secured := True\<rparr>" "[]" "[]"
        "''u@d.org/r''" "''u''" "''pw''" 1 sample_environ]
    by (simp add: sample_xmpp_simps sasl_mask_defs)
qed

end
