(* ===== verification/Log.thy ===== *)
theory Log
  imports Ctx Snprintf
begin

section \<open>Log messages (ctx.c)\<close>

text \<open>
  Models the way of a message through \<open>src/ctx.c\<close>: \<open>xmpp_log\<close> with its four front ends formats it
  with the library's own \<open>vsnprintf\<close>, in an array on the stack or, for a long one, in a block from
  the allocator, and hands it to the handler of the context.  The handler is supplied by the user and
  works on its own data.  \<open>l_blocks\<close> counts the blocks that were requested and not given back.
\<close>

record 'u log_env =
  l_mem :: mem
  l_user :: 'u
  l_blocks :: nat

type_synonym 'u log_handler = "xmpp_log_level_t \<Rightarrow> string \<Rightarrow> string \<Rightarrow> 'u \<Rightarrow> 'u"

text \<open>The string that a pointer to a buffer denotes: the characters before the first zero.\<close>

definition c_string :: "string \<Rightarrow> string" where
  "c_string b = takeWhile (\<lambda>c. c \<noteq> NUL) b"

text \<open>A call of \<open>xmpp_vsnprintf\<close> on \<open>n\<close> fresh bytes filled with \<open>junk\<close>, and the call of the handler.\<close>

definition log_print :: "char \<Rightarrow> nat \<Rightarrow> nat \<Rightarrow> string \<Rightarrow> va_arg list \<Rightarrow> (int \<times> string) option" where
  "log_print junk n count fmt args = do {
     (ret, buf) \<leftarrow> xmpp_vsnprintf (Some (replicate n junk)) count fmt args;
     buf \<leftarrow> buf;
     Some (ret, buf) }"

definition log_call :: "'u log_handler option \<Rightarrow> xmpp_log_level_t \<Rightarrow> string \<Rightarrow> string \<Rightarrow> 'u log_env \<Rightarrow> 'u log_env" where
  "log_call handler level area buf e = (case handler of
       None \<Rightarrow> e
     | Some h \<Rightarrow> e\<lparr>l_user := h level area (c_string buf) (l_user e)\<rparr>)"

text \<open>The calls of \<open>xmpp_error\<close> in the code are calls of \<open>xmpp_log\<close> itself, with constant formats.
  \<open>ret + 1\<close> is computed in \<open>int\<close>.\<close>

partial_function (option) xmpp_log ::
    "char \<Rightarrow> 'u log_handler option \<Rightarrow> 'u log_env \<Rightarrow> xmpp_log_level_t \<Rightarrow> string \<Rightarrow> string \<Rightarrow> va_arg list \<Rightarrow>
      'u log_env option" where
  "xmpp_log junk handler e level area fmt args =
     Option.bind (log_print junk 1024 1023 fmt args) (\<lambda>(ret, smbuf).
       if ret > 1023 then
         (if ret \<ge> 2 ^ 31 - 1 then None
          else let (ok, m) = xmpp_alloc (l_mem e); e = e\<lparr>l_mem := m\<rparr>
            in if \<not> ok then
                 xmpp_log junk handler e XMPP_LEVEL_ERROR ''log'' ''Failed allocating memory for log message.'' []
               else let e = e\<lparr>l_blocks := l_blocks e + 1\<rparr>; oldret = ret
                 in Option.bind (log_print junk (nat (ret + 1)) (nat (ret + 1)) fmt args) (\<lambda>(ret, buf).
                      if ret > oldret then xmpp_log junk handler e XMPP_LEVEL_ERROR ''log'' ''Unexpected error'' []
                      else Some (log_call handler level area buf e)))
       else Some (log_call handler level area smbuf e))"

definition xmpp_error ::
    "char \<Rightarrow> 'u log_handler option \<Rightarrow> 'u log_env \<Rightarrow> string \<Rightarrow> string \<Rightarrow> va_arg list \<Rightarrow> 'u log_env option" where
  "xmpp_error junk handler e area fmt args = xmpp_log junk handler e XMPP_LEVEL_ERROR area fmt args"

definition xmpp_warn ::
    "char \<Rightarrow> 'u log_handler option \<Rightarrow> 'u log_env \<Rightarrow> string \<Rightarrow> string \<Rightarrow> va_arg list \<Rightarrow> 'u log_env option" where
  "xmpp_warn junk handler e area fmt args = xmpp_log junk handler e XMPP_LEVEL_WARN area fmt args"

definition xmpp_info ::
    "char \<Rightarrow> 'u log_handler option \<Rightarrow> 'u log_env \<Rightarrow> string \<Rightarrow> string \<Rightarrow> va_arg list \<Rightarrow> 'u log_env option" where
  "xmpp_info junk handler e area fmt args = xmpp_log junk handler e XMPP_LEVEL_INFO area fmt args"

definition xmpp_debug ::
    "char \<Rightarrow> 'u log_handler option \<Rightarrow> 'u log_env \<Rightarrow> string \<Rightarrow> string \<Rightarrow> va_arg list \<Rightarrow> 'u log_env option" where
  "xmpp_debug junk handler e area fmt args = xmpp_log junk handler e XMPP_LEVEL_DEBUG area fmt args"

lemmas log_front_ends = xmpp_error_def xmpp_warn_def xmpp_info_def xmpp_debug_def

text \<open>The default logger as a handler that writes to the lines of \<open>stderr\<close>.\<close>

definition stderr_handler :: "xmpp_log_level_t \<Rightarrow> string list log_handler" where
  "stderr_handler filter_level level area msg out =
     out @ (case xmpp_default_logger filter_level level area msg of None \<Rightarrow> [] | Some line \<Rightarrow> [line])"

subsection \<open>The buffer\<close>

lemma c_string_take: "NUL \<notin> set s \<Longrightarrow> c_string (take n s @ NUL # rest) = take n s"
  by (auto simp: c_string_def takeWhile_append dest: in_set_takeD)

lemma vsnprintf_text:
  assumes "dopr_text fmt args = Some s" "NUL \<notin> set s" "0 < count" "count \<le> n"
  obtains b where "log_print junk n count fmt args = Some (int (length s), b)"
    "c_string b = take (count - 1) s"
proof
  let ?b = "snprintf_buffer (replicate n junk) count s"
  have "replicate n junk \<noteq> []" using assms(3,4) by simp
  then show "log_print junk n count fmt args = Some (int (length s), ?b)"
    using xmpp_snprintf_buffer [OF assms(1), of "replicate n junk" count] assms(4) by (simp add: xmpp_snprintf_def log_print_def)
  show "c_string ?b = take (count - 1) s"
    using assms(2,3) by (simp add: snprintf_buffer_def c_string_take)
qed

lemma no_conversion:
  "dopr_text ''Failed allocating memory for log message.'' [] = Some ''Failed allocating memory for log message.''"
  by (simp add: dopr_text_def)

lemma log_short:
  assumes "dopr_text fmt args = Some s" "NUL \<notin> set s" "length s \<le> 1023"
  shows "xmpp_log junk (Some h) e level area fmt args = Some (e\<lparr>l_user := h level area (take 1022 s) (l_user e)\<rparr>)"
proof -
  obtain b where "log_print junk 1024 1023 fmt args = Some (int (length s), b)"
    "c_string b = take (1023 - 1) s"
    by (rule vsnprintf_text [OF assms(1,2), of 1023 1024 junk]) simp_all
  then show ?thesis
    using assms(3) by (subst xmpp_log.simps) (simp add: log_call_def)
qed

lemma log_long:
  assumes "dopr_text fmt args = Some s" "NUL \<notin> set s" "1023 < length s" "length s < 2 ^ 31 - 1"
  shows "xmpp_log junk (Some h) e level area fmt args =
    (case xmpp_alloc (l_mem e) of
       (True, m) \<Rightarrow> Some (e\<lparr>l_mem := m, l_blocks := l_blocks e + 1, l_user := h level area s (l_user e)\<rparr>)
     | (False, m) \<Rightarrow> Some (e\<lparr>l_mem := m,
         l_user := h XMPP_LEVEL_ERROR ''log'' ''Failed allocating memory for log message.'' (l_user e)\<rparr>))"
proof -
  obtain b where b: "log_print junk 1024 1023 fmt args = Some (int (length s), b)"
    by (rule vsnprintf_text [OF assms(1,2), of 1023 1024 junk]) simp_all
  obtain b' where b': "log_print junk (length s + 1) (length s + 1) fmt args = Some (int (length s), b')" "c_string b' = take (length s + 1 - 1) s"
    by (rule vsnprintf_text [OF assms(1,2), of "length s + 1" "length s + 1" junk]) simp_all
  have n: "nat (int (length s) + 1) = length s + 1" by simp
  note failed = log_short [OF no_conversion, of junk h "e\<lparr>l_mem := m\<rparr>" XMPP_LEVEL_ERROR "''log''" for m]
  show ?thesis
    using assms(3,4) b' failed
    by (subst xmpp_log.simps) (simp add: b n log_call_def split: prod.split bool.split)
qed

subsection \<open>Properties\<close>

text \<open>A message without a zero is handed to the handler exactly once, whole if it has at most 1022
  characters or at least 1024; a message of exactly 1023 characters loses its last one.  A long message
  whose block cannot be allocated is replaced by an error line; a block that was allocated is never
  given back.\<close>

theorem log_message_delivered:
  assumes "dopr_text fmt args = Some s" "NUL \<notin> set s" "length s < 2 ^ 31 - 1"
  shows "xmpp_log junk (Some h) e level area fmt args =
    (if length s < 1023 then Some (e\<lparr>l_user := h level area s (l_user e)\<rparr>)
     else if length s = 1023 then Some (e\<lparr>l_user := h level area (butlast s) (l_user e)\<rparr>)
     else case xmpp_alloc (l_mem e) of
       (True, m) \<Rightarrow> Some (e\<lparr>l_mem := m, l_blocks := l_blocks e + 1, l_user := h level area s (l_user e)\<rparr>)
     | (False, m) \<Rightarrow> Some (e\<lparr>l_mem := m,
         l_user := h XMPP_LEVEL_ERROR ''log'' ''Failed allocating memory for log message.'' (l_user e)\<rparr>))"
proof -
  consider "length s < 1023" | "length s = 1023" | "1023 < length s" by linarith
  then show ?thesis
    by cases (use log_short [OF assms(1,2)] log_long [OF assms(1,2) _ assms(3)] in \<open>simp_all add: butlast_conv_take\<close>)
qed

theorem log_message_delivered_witness:
  "xmpp_warn CHR ''?'' (Some (stderr_handler XMPP_LEVEL_INFO)) \<lparr> l_mem = [], l_user = [], l_blocks = 0 \<rparr> ''conn''
     ''<%s'' [VStr (Some ''a'')] = Some \<lparr> l_mem = [], l_user = [''conn WARN <a'' @ [CHR 0x0A]], l_blocks = 0 \<rparr>"
  by (simp add: xmpp_warn_def log_message_delivered [OF dopr_formats(2)] stderr_handler_def xmpp_default_logger_def)

end
