(* ===== verification/Sock.thy ===== *)
theory Sock
  imports Conn_Facts
begin

section \<open>Opening a connection (sock.c)\<close>

text \<open>
  Models \<open>sock_connect\<close> of \<open>src/sock.c\<close>, the function that \<open>xmpp_connect_client\<close> calls with the
  name and the port it has chosen.  The resolver and the system calls are outside the repository:
  \<open>getaddrinfo\<close> yields the list of addresses, and each address comes with the answers that the calls for
  it will get.  The result is the socket and the calls that were made, from which the descriptors that stay
  open can be read.
\<close>

text \<open>What \<open>socket\<close> and \<open>connect\<close> return for an address and the \<open>errno\<close> after \<open>connect\<close>.\<close>

record attempt =
  a_socket :: int
  a_connect :: int
  a_errno :: int

datatype sock_call = Call_socket | Call_nonblocking int | Call_connect int

definition EINPROGRESS :: int where "EINPROGRESS = 115"

definition in_progress :: "int \<Rightarrow> bool" where
  "in_progress err \<longleftrightarrow> err = EINPROGRESS"

text \<open>The conversion \<open>%u\<close> of the standard library, and its \<open>snprintf\<close> into 6 bytes.\<close>

fun udecimal :: "nat \<Rightarrow> string" where
  "udecimal n = (if n < 10 then [''0123456789'' ! n] else udecimal (n div 10) @ [''0123456789'' ! (n mod 10)])"

declare udecimal.simps [simp del]

definition port_service :: "int \<Rightarrow> string" where
  "port_service port = take 5 (udecimal (nat port))"

text \<open>The loop over the addresses; the descriptor of a failed attempt is overwritten by the next one.\<close>

fun connect_loop :: "attempt list \<Rightarrow> int \<Rightarrow> int \<times> sock_call list" where
  "connect_loop [] sock = (sock, [])"
| "connect_loop (ainfo # rest) sock =
     (let sock = a_socket ainfo
      in if sock \<ge> 0 then
           let err = a_connect ainfo; calls = [Call_socket, Call_nonblocking sock, Call_connect sock]
           in if err = 0 \<or> (err < 0 \<and> in_progress (a_errno ainfo)) then (sock, calls)
              else (case connect_loop rest sock of (s, more_calls) \<Rightarrow> (s, calls @ more_calls))
         else (case connect_loop rest sock of (s, more_calls) \<Rightarrow> (s, Call_socket # more_calls)))"

definition sock_connect ::
    "(string \<Rightarrow> string \<Rightarrow> attempt list option) \<Rightarrow> string \<Rightarrow> int \<Rightarrow> int \<times> sock_call list" where
  "sock_connect getaddrinfo host port =
     (let service = port_service port
      in case getaddrinfo host service of
           None \<Rightarrow> (- 1, [])
         | Some res \<Rightarrow> connect_loop res (- 1))"

subsection \<open>The socket that is chosen\<close>

text \<open>An address that answers, and the first of a list.\<close>

definition answers :: "attempt \<Rightarrow> bool" where
  "answers t \<longleftrightarrow> a_socket t \<ge> 0 \<and> (a_connect t = 0 \<or> (a_connect t < 0 \<and> in_progress (a_errno t)))"

lemma list_two_cases: "(xs = [] \<Longrightarrow> P) \<Longrightarrow> (\<And>x. xs = [x] \<Longrightarrow> P) \<Longrightarrow> (\<And>x y zs. xs = x # y # zs \<Longrightarrow> P) \<Longrightarrow> P"
  by (cases xs rule: remdups_adj.cases) auto

lemma domain_without_failure: obtains d where "xmpp_jid_domain [] j = (Some d, [])"
  by (simp add: xmpp_jid_domain_def Let_def)

fun opened :: "sock_call list \<Rightarrow> int list" where
  "opened [] = []"
| "opened (Call_connect s # cs) = s # opened cs"
| "opened (_ # cs) = opened cs"

lemma connect_loop_result:
  "fst (connect_loop ts sock) =
    (case find answers ts of Some t \<Rightarrow> a_socket t | None \<Rightarrow> if ts = [] then sock else a_socket (last ts))"
  by (induction ts sock rule: connect_loop.induct)
    (auto simp: Let_def answers_def split: prod.splits option.splits)

lemma connect_loop_opened:
  "opened (snd (connect_loop ts sock)) =
    filter (\<lambda>s. s \<ge> 0) (map a_socket (takeWhile (\<lambda>t. \<not> answers t) ts)) @
    (case find answers ts of Some t \<Rightarrow> [a_socket t] | None \<Rightarrow> [])"
  by (induction ts sock rule: connect_loop.induct)
    (auto simp: Let_def answers_def split: prod.splits option.splits)

text \<open>The service name is the port in decimal notation.\<close>

fun decimal_value :: "string \<Rightarrow> nat" where
  "decimal_value s = foldl (\<lambda>v c. 10 * v + (of_char c - 48)) 0 s"

lemma length_udecimal: "n < 10 ^ Suc k \<Longrightarrow> length (udecimal n) \<le> Suc k"
proof (induction k arbitrary: n)
  case 0
  then show ?case by (subst udecimal.simps) simp
next
  case (Suc k)
  then have "n div 10 < 10 ^ Suc k" by (simp add: less_mult_imp_div_less)
  then show ?case using Suc(1) [of "n div 10"] by (subst udecimal.simps) simp
qed

lemma digit_of_char: "d < 10 \<Longrightarrow> of_char (''0123456789'' ! d) = (48 + d :: nat)"
proof -
  assume "d < 10"
  then have "d \<in> {0, 1, 2, 3, 4, 5, 6, 7, 8, 9}" by auto
  then show ?thesis by auto
qed

lemma decimal_udecimal: "decimal_value (udecimal n) = n"
proof (induction n rule: udecimal.induct)
  case (1 n)
  then show ?case
    by (subst udecimal.simps) (simp add: digit_of_char)
qed

lemma port_service_value:
  assumes "0 \<le> port" "port < 2 ^ 16"
  shows "decimal_value (port_service port) = nat port"
proof -
  have "length (udecimal (nat port)) \<le> Suc 4" using assms by (intro length_udecimal) simp
  then show ?thesis by (simp add: port_service_def decimal_udecimal del: decimal_value.simps)
qed

subsection \<open>Properties\<close>

text \<open>The socket returned is the one of the first address that answers, an established connection or one
  under way; if none does, it is whatever \<open>socket\<close> returned for the last address, so a refused connection is
  returned like a good one.  The descriptors of all failed attempts stay open.\<close>

theorem sock_connect_chooses:
  "(case getaddrinfo host (port_service port) of
      None \<Rightarrow> sock_connect getaddrinfo host port = (- 1, [])
    | Some ts \<Rightarrow>
        fst (sock_connect getaddrinfo host port) =
          (case find answers ts of Some t \<Rightarrow> a_socket t | None \<Rightarrow> if ts = [] then - 1 else a_socket (last ts)) \<and>
        opened (snd (sock_connect getaddrinfo host port)) =
          filter (\<lambda>s. s \<ge> 0) (map a_socket (takeWhile (\<lambda>t. \<not> answers t) ts)) @
          (case find answers ts of Some t \<Rightarrow> [a_socket t] | None \<Rightarrow> []))"
  by (simp add: sock_connect_def connect_loop_result connect_loop_opened split: option.split)

text \<open>Claim C33. A client that names a server starts a connection attempt exactly when an address of the server
  answers or a socket could be made for its last address, even if that connection was refused.  The port is passed in decimal
  notation; zero stands for 5222.\<close>

theorem connect_client_starts_iff:
  assumes "jid c = Some j" "hc_mem c = []" "length server < 2048" "0 \<le> port" "port < 2 ^ 16"
    "getaddrinfo server (port_service (if port \<noteq> 0 then port else 5222)) = Some ts"
  shows "decimal_value (port_service (if port \<noteq> 0 then port else 5222)) = nat (if port \<noteq> 0 then port else 5222) \<and>
    (\<exists>r c'. xmpp_connect_client srv (\<lambda>h p. fst (sock_connect getaddrinfo h p)) c (Some server) port callback = Some (r, c') \<and>
      (r = 0 \<longleftrightarrow> (\<exists>t \<in> set ts. answers t) \<or> (ts \<noteq> [] \<and> a_socket (last ts) \<noteq> - 1)) \<and>
      r \<in> {0, - 1} \<and>
      (if r = 0 then conn_state c' = XMPP_STATE_CONNECTING \<and> conn_handler c' = callback
       else conn_state c' = conn_state c))"
proof
  let ?port = "if port \<noteq> 0 then port else 5222"
  show "decimal_value (port_service ?port) = nat ?port"
    using assms(4,5) by (intro port_service_value) auto
  define sock where "sock = fst (sock_connect getaddrinfo server ?port)"
  have sock: "sock = (case find answers ts of Some t \<Rightarrow> a_socket t | None \<Rightarrow> if ts = [] then - 1 else a_socket (last ts))"
    using assms(6) by (simp add: sock_def sock_connect_def connect_loop_result)
  have iff: "sock \<noteq> - 1 \<longleftrightarrow> (\<exists>t \<in> set ts. answers t) \<or> (ts \<noteq> [] \<and> a_socket (last ts) \<noteq> - 1)"
  proof (cases "find answers ts")
    case None
    then have "\<not> (\<exists>t \<in> set ts. answers t)" by (simp add: find_None_iff)
    then show ?thesis using None by (simp add: sock)
  next
    case (Some t)
    then have "t \<in> set ts" "answers t" by (auto simp: find_Some_iff)
    then show ?thesis using Some by (auto simp: sock answers_def)
  qed
  obtain d where d: "xmpp_jid_domain [] j = (Some d, [])"
    by (rule domain_without_failure)
  show "\<exists>r c'. xmpp_connect_client srv (\<lambda>h p. fst (sock_connect getaddrinfo h p)) c (Some server) port callback = Some (r, c') \<and>
      (r = 0 \<longleftrightarrow> (\<exists>t \<in> set ts. answers t) \<or> (ts \<noteq> [] \<and> a_socket (last ts) \<noteq> - 1)) \<and>
      r \<in> {0, - 1} \<and>
      (if r = 0 then conn_state c' = XMPP_STATE_CONNECTING \<and> conn_handler c' = callback
       else conn_state c' = conn_state c)"
    unfolding iff [symmetric]
    using assms(1-3) d sock_def [symmetric]
    by (cases "hc_clock c" rule: list_two_cases)
      (auto simp: xmpp_connect_client_def time_stamp_def Let_def)
qed

text \<open>Two addresses: the first has no socket, the second refuses.\<close>

theorem connect_client_starts_iff_witness:
  "\<exists>c'. xmpp_connect_client (\<lambda>d. None) (\<lambda>h p. fst (sock_connect (\<lambda>host service.
        Some [\<lparr> a_socket = - 1, a_connect = 0, a_errno = 0 \<rparr>, \<lparr> a_socket = 7, a_connect = - 1, a_errno = 111 \<rparr>]) h p))
      sample_xmpp_conn (Some ''d.org'') 0 None = Some (0, c') \<and> conn_state c' = XMPP_STATE_CONNECTING"
  using connect_client_starts_iff [of sample_xmpp_conn "''u@d.org/r''" "''d.org''" 0 "\<lambda>host service.
        Some [\<lparr> a_socket = - 1, a_connect = 0, a_errno = 0 \<rparr>, \<lparr> a_socket = 7, a_connect = - 1, a_errno = 111 \<rparr>]" _ "\<lambda>d. None" None]
  by (auto simp: sample_xmpp_simps)

end
