(* ===== verification/Parser_Libxml2.thy ===== *)
theory Parser_Libxml2
  imports Xml_Parser
begin

section \<open>The stream parser on libxml2 (parser_libxml2.c)\<close>

text \<open>
  Models \<open>src/parser_libxml2.c\<close>, which a build may choose in the place of \<open>parser_expat.c\<close>.  The
  handlers are written out in that file once more, over a structure of its own; the scanner is a
  parameter as there, with \<open>xmlParseChunk\<close> returning zero on success.  The lemmas show that the two
  files implement the same parser, so what is proved of the one holds of the other.
\<close>

record 'x lx_parser =
  lx_xmlctx :: "'x option"
  lx_depth :: int
  lx_stanza :: "nat option"

fun lx_attrs_loop :: "nat \<Rightarrow> xml_attrs \<Rightarrow> 'u parser_env \<Rightarrow> 'u parser_env option" where
  "lx_attrs_loop p [] e = Some e"
| "lx_attrs_loop p ((k, v) # rest) e = do {
     (_, st, m) \<leftarrow> on_cell (e_store e) p (\<lambda>c. xmpp_stanza_set_attribute (e_mem e) c k v);
     lx_attrs_loop p rest (e\<lparr>e_store := st, e_mem := m\<rparr>) }"

definition lx_set_attributes :: "nat \<Rightarrow> xml_attrs option \<Rightarrow> 'u parser_env \<Rightarrow> 'u parser_env option" where
  "lx_set_attributes p attrs e = (case attrs of None \<Rightarrow> Some e | Some attrs \<Rightarrow> lx_attrs_loop p attrs e)"

definition lx_start_element ::
    "'u parser_callbacks \<Rightarrow> string \<Rightarrow> xml_attrs option \<Rightarrow> 'x lx_parser \<times> 'u parser_env \<Rightarrow>
      ('x lx_parser \<times> 'u parser_env) option" where
  "lx_start_element cbs name attrs s = (case s of (parser, e) \<Rightarrow> do {
     (parser, e) \<leftarrow>
       (if lx_depth parser = 0 then
          (case startcb cbs of
             None \<Rightarrow> Some (parser, e)
           | Some cb \<Rightarrow> map_option (\<lambda>e. (parser, e)) (cb name attrs e))
        else
          (case lx_stanza parser of
             None \<Rightarrow>
               if lx_depth parser \<noteq> 1 then Some (parser, e)
               else
                 (case xmpp_stanza_new (e_mem e) (e_store e) of (s, st, m) \<Rightarrow> do {
                    s \<leftarrow> s;
                    (_, st, m) \<leftarrow> on_cell st s (\<lambda>c. Some (xmpp_stanza_set_name m c name));
                    e \<leftarrow> lx_set_attributes s attrs (e\<lparr>e_store := st, e_mem := m\<rparr>);
                    Some (parser\<lparr>lx_stanza := Some s\<rparr>, e) })
           | Some cur \<Rightarrow>
               (case xmpp_stanza_new (e_mem e) (e_store e) of (child, st, m) \<Rightarrow> do {
                  child \<leftarrow> child;
                  (_, st, m) \<leftarrow> on_cell st child (\<lambda>c. Some (xmpp_stanza_set_name m c name));
                  e \<leftarrow> lx_set_attributes child attrs (e\<lparr>e_store := st, e_mem := m\<rparr>);
                  (_, st) \<leftarrow> xmpp_stanza_add_child (e_store e) cur child;
                  (_, st) \<leftarrow> xmpp_stanza_release st child;
                  Some (parser\<lparr>lx_stanza := Some child\<rparr>, e\<lparr>e_store := st\<rparr>) })));
     Some (parser\<lparr>lx_depth := lx_depth parser + 1\<rparr>, e) })"

definition lx_end_element ::
    "'u parser_callbacks \<Rightarrow> string \<Rightarrow> 'x lx_parser \<times> 'u parser_env \<Rightarrow> ('x lx_parser \<times> 'u parser_env) option" where
  "lx_end_element cbs name s = (case s of (parser, e) \<Rightarrow>
     (let parser = parser\<lparr>lx_depth := lx_depth parser - 1\<rparr>
      in if lx_depth parser = 0 then
           (case endcb cbs of
              None \<Rightarrow> Some (parser, e)
            | Some cb \<Rightarrow> map_option (\<lambda>e. (parser, e)) (cb name e))
         else do {
           cur \<leftarrow> lx_stanza parser;
           c \<leftarrow> st_get (e_store e) cur;
           case s_parent c of
             Some par \<Rightarrow> Some (parser\<lparr>lx_stanza := Some par\<rparr>, e)
           | None \<Rightarrow> do {
               e \<leftarrow> (case stanzacb cbs of None \<Rightarrow> Some e | Some cb \<Rightarrow> cb cur e);
               (_, st) \<leftarrow> xmpp_stanza_release (e_store e) cur;
               Some (parser\<lparr>lx_stanza := None\<rparr>, e\<lparr>e_store := st\<rparr>) } }))"

definition lx_characters ::
    "string \<Rightarrow> nat \<Rightarrow> 'x lx_parser \<times> 'u parser_env \<Rightarrow> ('x lx_parser \<times> 'u parser_env) option" where
  "lx_characters chr len pe = (case pe of (parser, e) \<Rightarrow>
     (if lx_depth parser < 2 then Some (parser, e)
      else case xmpp_stanza_new (e_mem e) (e_store e) of
        (None, st, m) \<Rightarrow> Some (parser, e\<lparr>e_store := st, e_mem := m\<rparr>)
      | (Some stanza, st, m) \<Rightarrow> do {
          (_, st, m) \<leftarrow> on_cell st stanza (\<lambda>c. xmpp_stanza_set_text_with_size m c chr len);
          cur \<leftarrow> lx_stanza parser;
          (_, st) \<leftarrow> xmpp_stanza_add_child st cur stanza;
          (_, st) \<leftarrow> xmpp_stanza_release st stanza;
          Some (parser, e\<lparr>e_store := st, e_mem := m\<rparr>) }))"

text \<open>The handlers that \<open>parser_new\<close> enters into the table of the scanner.\<close>

fun lx_handler ::
    "'u parser_callbacks \<Rightarrow> sax_event \<Rightarrow> 'x lx_parser \<times> 'u parser_env \<Rightarrow> ('x lx_parser \<times> 'u parser_env) option" where
  "lx_handler cbs (Start_element name attrs) s = lx_start_element cbs name attrs s"
| "lx_handler cbs (End_element name) s = lx_end_element cbs name s"
| "lx_handler cbs (Characters t len) s = lx_characters t len s"

fun lx_run ::
    "'u parser_callbacks \<Rightarrow> sax_event list \<Rightarrow> 'x lx_parser \<times> 'u parser_env \<Rightarrow> ('x lx_parser \<times> 'u parser_env) option" where
  "lx_run cbs [] s = Some s"
| "lx_run cbs (ev # evs) s = do { s \<leftarrow> lx_handler cbs ev s; lx_run cbs evs s }"

text \<open>\<open>create\<close> stands for \<open>xmlCreatePushParserCtxt\<close>.\<close>

definition lx_parser_reset ::
    "'x option \<Rightarrow> 'x lx_parser \<times> 'u parser_env \<Rightarrow> (int \<times> 'x lx_parser \<times> 'u parser_env) option" where
  "lx_parser_reset create s = (case s of (parser, e) \<Rightarrow> do {
     e \<leftarrow> (case lx_stanza parser of
            None \<Rightarrow> Some e
          | Some s \<Rightarrow> do { (_, st) \<leftarrow> xmpp_stanza_release (e_store e) s; Some (e\<lparr>e_store := st\<rparr>) });
     let parser = parser\<lparr>lx_xmlctx := create\<rparr>;
     case create of
       None \<Rightarrow> Some (0, parser, e)
     | Some _ \<Rightarrow> Some (1, parser\<lparr>lx_depth := 0, lx_stanza := None\<rparr>, e) })"

definition lx_parser_new ::
    "'x option \<Rightarrow> 'u parser_env \<Rightarrow> ('x lx_parser option \<times> 'u parser_env) option" where
  "lx_parser_new create e =
     (case xmpp_alloc (e_mem e) of
        (False, m) \<Rightarrow> Some (None, e\<lparr>e_mem := m\<rparr>)
      | (True, m) \<Rightarrow> do {
          (_, parser, e) \<leftarrow> lx_parser_reset create
            (\<lparr> lx_xmlctx = None, lx_depth = 0, lx_stanza = None \<rparr>, e\<lparr>e_mem := m\<rparr>);
          Some (Some parser, e) })"

definition lx_parser_free :: "'x lx_parser \<times> 'u parser_env \<Rightarrow> 'x option \<times> 'u parser_env" where
  "lx_parser_free s = (case s of (parser, e) \<Rightarrow> (lx_xmlctx parser, e))"

text \<open>\<open>chunk_parser\<close> stands for \<open>xmlParseChunk\<close>: its error code, the context afterwards and the handler calls.\<close>

definition lx_parser_feed ::
    "('x \<Rightarrow> string \<Rightarrow> int \<times> 'x \<times> sax_event list) \<Rightarrow> 'u parser_callbacks \<Rightarrow> string \<Rightarrow>
      'x lx_parser \<times> 'u parser_env \<Rightarrow> (int \<times> 'x lx_parser \<times> 'u parser_env) option" where
  "lx_parser_feed chunk_parser cbs chunk s = (case s of (parser, e) \<Rightarrow> do {
     x \<leftarrow> lx_xmlctx parser;
     (case chunk_parser x chunk of (err, x, evs) \<Rightarrow> do {
        (parser, e) \<leftarrow> lx_run cbs evs (parser, e);
        Some (if err = 0 then 1 else 0, parser\<lparr>lx_xmlctx := Some x\<rparr>, e) }) })"

subsection \<open>Two files, one parser\<close>

definition lx_of :: "'x parser_t \<Rightarrow> 'x lx_parser" where
  "lx_of p = \<lparr> lx_xmlctx = p_expat p, lx_depth = p_depth p, lx_stanza = p_stanza p \<rparr>"

abbreviation lx_state :: "'x parser_t \<times> 'u parser_env \<Rightarrow> 'x lx_parser \<times> 'u parser_env" where
  "lx_state s \<equiv> (lx_of (fst s), snd s)"

lemma lx_of_simps [simp]:
  "lx_xmlctx (lx_of p) = p_expat p" "lx_depth (lx_of p) = p_depth p" "lx_stanza (lx_of p) = p_stanza p"
  "(lx_of p)\<lparr>lx_xmlctx := x\<rparr> = lx_of (p\<lparr>p_expat := x\<rparr>)"
  "(lx_of p)\<lparr>lx_depth := d\<rparr> = lx_of (p\<lparr>p_depth := d\<rparr>)"
  "(lx_of p)\<lparr>lx_stanza := s\<rparr> = lx_of (p\<lparr>p_stanza := s\<rparr>)"
  by (simp_all add: lx_of_def)

lemma lx_set_attributes_eq: "lx_set_attributes p attrs e = set_attributes p attrs e"
proof -
  have "lx_attrs_loop p as e = attrs_loop p as e" for as
    by (induction p as e rule: lx_attrs_loop.induct) (simp_all split: prod.splits Option.bind_splits)
  then show ?thesis by (simp add: lx_set_attributes_def set_attributes_def split: option.split)
qed

lemma lx_start_element_eq:
  "lx_start_element cbs name attrs (lx_state s) = map_option lx_state (start_element cbs name attrs s)"
  by (cases s) (auto simp: option.map_comp comp_def lx_start_element_def start_element_def new_element_def lx_set_attributes_eq
      split: prod.splits option.splits Option.bind_splits)

lemma lx_end_element_eq:
  "lx_end_element cbs name (lx_state s) = map_option lx_state (end_element cbs name s)"
  by (cases s) (auto simp: lx_end_element_def end_element_def Let_def option.map_comp comp_def
      split: prod.splits option.splits Option.bind_splits)

lemma lx_characters_eq:
  "lx_characters t len (lx_state s) = map_option lx_state (parser_characters t len s)"
  by (cases s) (auto simp: lx_characters_def parser_characters_def
      split: prod.splits option.splits Option.bind_splits)

lemma lx_handler_eq: "lx_handler cbs ev (lx_state s) = map_option lx_state (sax_handler cbs ev s)"
  by (cases ev) (simp_all only: lx_handler.simps sax_handler.simps lx_start_element_eq lx_end_element_eq lx_characters_eq)

lemma lx_run_eq: "lx_run cbs evs (lx_state s) = map_option lx_state (sax_run cbs evs s)"
proof (induction evs arbitrary: s)
  case (Cons ev evs)
  show ?case
    by (cases "sax_handler cbs ev s") (simp_all add: lx_handler_eq Cons del: lx_handler.simps sax_handler.simps)
qed simp

lemma lx_reset_eq:
  "lx_parser_reset create (lx_state s) = map_option (\<lambda>(r, s). (r, lx_state s)) (parser_reset create s)"
  by (cases s) (auto simp: lx_parser_reset_def parser_reset_def Let_def split: prod.splits option.splits Option.bind_splits)

lemma lx_new_eq:
  fixes e :: "'u parser_env"
  shows "lx_parser_new create e = map_option (\<lambda>(p, e). (map_option lx_of p, e)) (parser_new create e)"
proof -
  have "lx_parser_reset create (\<lparr> lx_xmlctx = None, lx_depth = 0, lx_stanza = None \<rparr>, e') =
      map_option (\<lambda>(r, s). (r, lx_state s)) (parser_reset create (\<lparr> p_expat = None, p_depth = 0, p_stanza = None \<rparr>, e'))"
    for e' :: "'u parser_env"
    using lx_reset_eq [of create "(\<lparr> p_expat = None, p_depth = 0, p_stanza = None \<rparr>, e')"] by (simp add: lx_of_def)
  then show ?thesis
    by (auto simp: lx_parser_new_def parser_new_def split: prod.splits bool.splits Option.bind_splits)
qed

lemma lx_feed_eq:
  "lx_parser_feed chunk_parser cbs chunk (lx_state s) = map_option (\<lambda>(r, s). (r, lx_state s))
     (parser_feed (\<lambda>x s. case chunk_parser x s of (err, x, evs) \<Rightarrow> (if err = 0 then 1 else 0, x, evs)) cbs chunk s)"
proof (cases s)
  case (Pair p e)
  show ?thesis
  proof (cases "p_expat p")
    case (Some x)
    obtain err x' evs where c: "chunk_parser x chunk = (err, x', evs)" by (cases "chunk_parser x chunk")
    show ?thesis
      using lx_run_eq [of cbs evs "(p, e)"] Pair Some c
      by (cases "sax_run cbs evs (p, e)") (auto simp: lx_parser_feed_def parser_feed_def)
  qed (simp add: Pair lx_parser_feed_def parser_feed_def)
qed

subsection \<open>Properties\<close>

text \<open>Claim C34. The two parser files are interchangeable: created alike, reset alike, freed alike and fed with a chunk
  for which their scanners report the same events and agree about success, they pass the same
  objects to the same callbacks, return the same codes and are left in the same state.\<close>

theorem libxml2_parser_equivalent:
  fixes p :: "'x parser_t" and e :: "'u parser_env"
  shows
  "lx_parser_free (lx_of p, e) = parser_free (p, e) \<and>
   lx_parser_new create e = map_option (\<lambda>(p, e). (map_option lx_of p, e)) (parser_new create e) \<and>
   lx_parser_reset create (lx_of p, e) = map_option (\<lambda>(r, p, e). (r, lx_of p, e)) (parser_reset create (p, e)) \<and>
   lx_parser_feed chunk_parser cbs chunk (lx_of p, e) =
     map_option (\<lambda>(r, p, e). (r, lx_of p, e))
       (parser_feed (\<lambda>x s. case chunk_parser x s of (err, x, evs) \<Rightarrow> (if err = 0 then 1 else 0, x, evs)) cbs chunk (p, e))"
proof (intro conjI)
  have f: "(\<lambda>(r, s). (r, lx_state s)) = (\<lambda>(r :: int, p :: 'x parser_t, e :: 'u parser_env). (r, lx_of p, e))"
    by auto
  show "lx_parser_reset create (lx_of p, e) = map_option (\<lambda>(r, p, e). (r, lx_of p, e)) (parser_reset create (p, e))"
    using lx_reset_eq [of create "(p, e)"] by (simp add: f)
  show "lx_parser_feed chunk_parser cbs chunk (lx_of p, e) =
     map_option (\<lambda>(r, p, e). (r, lx_of p, e))
       (parser_feed (\<lambda>x s. case chunk_parser x s of (err, x, evs) \<Rightarrow> (if err = 0 then 1 else 0, x, evs)) cbs chunk (p, e))"
    using lx_feed_eq [of chunk_parser cbs chunk "(p, e)"] by (simp add: f)
qed (simp_all add: lx_new_eq lx_parser_free_def parser_free_def)

end
