(* ===== verification/Xml_Facts.thy ===== *)
theory Xml_Facts
  imports Xml_Parser
begin

section \<open>The types of the stanzas that the parser delivers\<close>

text \<open>
  The handlers of the parser build nodes attribute by attribute in hash tables.  Here the tree that is handed to the
  owner is related to the element it was read from: every node has the right type and name, a well-formed
  table with exactly the attributes of the element, and the nodes of its children, so that the operations on trees are
  defined for it.
\<close>

fun typed_as :: "xml \<Rightarrow> stanza \<Rightarrow> bool" where
  "typed_as (XElem name attrs kids) s \<longleftrightarrow>
     tag_ok (s_node s) \<and> s_data (s_node s) = Some name \<and> attr_map (s_node s) = map_of (rev attrs) \<and>
     list_all2 typed_as kids (s_kids s)"
| "typed_as (XText t) s \<longleftrightarrow> s = text_node t"

lemma node_attrs_ok:
  "tag_ok n \<Longrightarrow> \<forall>a \<in> set attrs. ascii (fst a) \<Longrightarrow>
    tag_ok (node_attrs n attrs) \<and> s_data (node_attrs n attrs) = s_data n \<and>
    attr_map (node_attrs n attrs) = attr_map n ++ map_of (rev attrs)"
proof (induction attrs arbitrary: n)
  case (Cons kv attrs)
  obtain k v where kv: "kv = (k, v)" by (rule prod.exhaust)
  obtain n' where n': "xmpp_stanza_set_attribute [] n k v = Some (XMPP_EOK, n', [])" "tag_ok n'" "s_data n' = s_data n"
    "attr_map n' = (attr_map n)(k \<mapsto> v)"
    by (rule set_attribute_ok [OF Cons.prems(1), of k v]) (use Cons.prems(2) kv in auto)
  have "attr_map n' ++ map_of (rev attrs) = attr_map n ++ map_of (rev (kv # attrs))"
    unfolding n'(4) kv by (simp add: map_add_def fun_eq_iff split: option.split)
  then show ?case using Cons.IH [of n'] Cons.prems(2) n'(1-3) kv by simp
qed simp

lemma elem_node_ok:
  assumes "\<forall>a \<in> set attrs. ascii (fst a)"
  shows "tag_ok (elem_node name attrs)" "s_data (elem_node name attrs) = Some name"
    "attr_map (elem_node name attrs) = map_of (rev attrs)"
  using node_attrs_ok [OF _ assms, of "\<lparr> s_type = XMPP_STANZA_TAG, s_data = Some name, s_attributes = None \<rparr>"]
  by (simp_all add: elem_node_def tag_ok_def attr_map_def)

lemma tree_of_xml_typed: "xml_ok x \<Longrightarrow> typed_as x (tree_of_xml x) \<and> renderable (tree_of_xml x)"
proof (induction x)
  case (XElem name attrs kids)
  have a: "\<forall>a \<in> set attrs. ascii (fst a)" using XElem(2) by simp
  have "list_all2 typed_as kids (map tree_of_xml kids)"
    using XElem by (simp add: list.rel_map list.rel_refl_strong)
  moreover have "renderable (Stanza (elem_node name attrs) (map tree_of_xml kids))"
    using XElem elem_node_ok(1,2) [OF a, of name] by (auto simp: tag_ok_def)
  ultimately show ?case using elem_node_ok [OF a, of name] by simp
qed (simp add: text_node_def)

subsection \<open>Properties\<close>

text \<open>Claim C26. What the owner of the parser gets for an element below the root is well-typed: a tree of tag and text nodes
  in the shape of the element, each tag with its name and a well-formed table of its attributes (the
  last one of a name counts), each text with its characters; so the tree can be rendered.\<close>

theorem delivered_stanza_typed:
  assumes "p_depth parser = 1" "p_stanza parser = None" "e_mem e = []"
    "\<forall>q \<ge> st_fresh (e_store e). st_get (e_store e) q = None" "xml_ok (XElem name attrs kids)"
  shows "\<exists>t st. typed_as (XElem name attrs kids) t \<and> renderable t \<and>
    sax_run (reader_callbacks hs h hc) (xml_events (XElem name attrs kids)) (parser, e) =
      map_option (\<lambda>u. (parser, e\<lparr>e_store := st, e_userdata := u\<rparr>)) (h t (e_userdata e))"
proof -
  have "building (e_store e) [] (e_store e)" using assms(4) by (simp add: building_refl)
  from run_top_elem [OF this assms(3,2,1,5)] tree_of_xml_typed [OF assms(5)] show ?thesis by blast
qed

theorem delivered_stanza_typed_witness:
  "\<exists>t st. typed_as (XElem ''a'' [(''id'', ''1''), (''id'', ''2'')] [XText ''x'']) t \<and> renderable t \<and>
    sax_run (reader_callbacks (\<lambda>n _ u. Some u) (\<lambda>t u. Some (u @ [t])) (\<lambda>n u. Some u))
      [Start_element ''a'' (Some [(''id'', ''1''), (''id'', ''2'')]), Characters ''x'' 1, End_element ''a'']
      (\<lparr> p_expat = Some (), p_depth = 1, p_stanza = None \<rparr>,
       \<lparr> e_store = empty_store, e_mem = [], e_userdata = [] \<rparr>) =
    Some (\<lparr> p_expat = Some (), p_depth = 1, p_stanza = None \<rparr>,
       \<lparr> e_store = st, e_mem = [], e_userdata = [t] \<rparr>)"
  using delivered_stanza_typed [of "\<lparr> p_expat = Some (), p_depth = 1, p_stanza = None \<rparr>"
      "\<lparr> e_store = empty_store, e_mem = [], e_userdata = [] \<rparr>" "''a''" "[(''id'', ''1''), (''id'', ''2'')]" "[XText ''x'']"
      "\<lambda>n _ u. Some u" "\<lambda>t u. Some (u @ [t])" "\<lambda>n u. Some u"]
  by (simp add: st_get_def empty_store_def ascii_def del: sax_run.simps typed_as.simps)

end
