(* ===== verification/Tls_Schannel.thy ===== *)
theory Tls_Schannel
  imports Event_Facts
begin

section \<open>The TLS wrapper for Windows (tls_schannel.c)\<close>

text \<open>
  Models \<open>src/tls_schannel.c\<close>, which keeps the buffers of a TLS connection itself: what was received and not yet
  decrypted, what was decrypted and not yet read, and what was encrypted and not yet sent.  The functions of the
  Security Support Provider Interface are a parameter, a record \<open>sspi\<close> of functions on a security context of
  any type; the socket is that of the event loop.  The names of the functions are prefixed, since every TLS wrapper
  defines the same ones.
\<close>

subsection \<open>The interface and the state\<close>

definition SEC_E_OK :: int where "SEC_E_OK = 0"
definition SEC_I_CONTINUE_NEEDED :: int where "SEC_I_CONTINUE_NEEDED = 0x90312"
definition SEC_I_INCOMPLETE_CREDENTIALS :: int where "SEC_I_INCOMPLETE_CREDENTIALS = 0x90320"
definition SEC_I_RENEGOTIATE :: int where "SEC_I_RENEGOTIATE = 0x90321"
definition SEC_E_INCOMPLETE_MESSAGE :: int where "SEC_E_INCOMPLETE_MESSAGE = 0x80090318 - 2 ^ 32"
definition WSAEWOULDBLOCK :: int where "WSAEWOULDBLOCK = 10035"
definition WSAEINPROGRESS :: int where "WSAEINPROGRESS = 10036"
definition WSAEMSGSIZE :: int where "WSAEMSGSIZE = 10040"
definition WSAECONNRESET :: int where "WSAECONNRESET = 10054"

lemmas sec_defs = SEC_E_OK_def SEC_I_CONTINUE_NEEDED_def SEC_I_INCOMPLETE_CREDENTIALS_def SEC_I_RENEGOTIATE_def
  SEC_E_INCOMPLETE_MESSAGE_def WSAEWOULDBLOCK_def WSAEINPROGRESS_def WSAEMSGSIZE_def WSAECONNRESET_def

text \<open>
  \<open>sp_initialize\<close> is \<open>InitializeSecurityContext\<close>, from the context (none in the first call), the name of the server
  and the token received, to a status, the token to send and the context.  \<open>sp_decrypt\<close> yields the status,
  the decrypted data and the extra bytes behind the message; \<open>sp_encrypt\<close> gets the sizes of header and trailer
  and the data between them, and yields the status and the contents of the three areas afterwards.
  \<open>sp_memcpy_down\<close> says whether the platform's \<open>memcpy\<close> copes with areas that overlap when it
  copies to the lower address, which the C standard leaves undefined.
\<close>

record 'k sspi =
  sp_max_token :: nat
  sp_initialize :: "'k option \<Rightarrow> string option \<Rightarrow> string \<Rightarrow> int \<times> string \<times> 'k"
  sp_sizes :: "'k \<Rightarrow> nat \<times> nat \<times> nat"
  sp_decrypt :: "'k \<Rightarrow> string \<Rightarrow> int \<times> string \<times> string option \<times> 'k"
  sp_encrypt :: "'k \<Rightarrow> nat \<Rightarrow> string \<Rightarrow> nat \<Rightarrow> int \<times> string \<times> 'k"
  sp_memcpy_down :: bool

record 'k sch_tls =
  sch_mem :: mem
  sch_sock :: int
  sch_hsec32 :: bool
  sch_init :: bool
  sch_hctxt :: "'k option"
  cbHeader :: nat
  cbMaximumMessage :: nat
  cbTrailer :: nat
  recvbuffer :: "string option"
  recvbuffermaxlen :: nat
  recvbufferpos :: nat
  readybuffer :: "string option"
  readybufferpos :: nat
  readybufferlen :: nat
  sendbuffer :: "string option"
  sendbuffermaxlen :: nat
  sendbufferlen :: nat
  sendbufferpos :: nat
  sch_lasterror :: int

definition sch_tls_error :: "'k sch_tls \<Rightarrow> int" where
  "sch_tls_error t = sch_lasterror t"

definition sch_tls_is_recoverable :: "int \<Rightarrow> bool" where
  "sch_tls_is_recoverable error \<longleftrightarrow>
     error = SEC_E_OK \<or> error = SEC_E_INCOMPLETE_MESSAGE \<or> error = WSAEWOULDBLOCK \<or> error = WSAEMSGSIZE \<or>
     error = WSAEINPROGRESS"

definition sch_tls_pending :: "'k sch_tls \<Rightarrow> int" where
  "sch_tls_pending t =
     (if readybufferpos t < readybufferlen t then int (readybufferlen t) - int (readybufferpos t) else 0)"

definition sch_tls_stop :: "'k sch_tls \<Rightarrow> int" where
  "sch_tls_stop t = - 1"

definition sch_tls_set_credentials :: "'k sch_tls \<Rightarrow> string \<Rightarrow> int" where
  "sch_tls_set_credentials t cafilename = - 1"

subsection \<open>Creation and release\<close>

text \<open>
  What the system answers to \<open>tls_new\<close>: whether it is of the line that has no TLS, whether the library is there,
  its entry point and its table of functions, and the status of each query.  The algorithm that is asked for depends on
  the version of the system; it is given to the function that acquires the credentials.
\<close>

datatype sch_algorithm = CALG_RC4 | CALG_AES

record sch_system =
  win9x :: bool
  winver :: "nat \<times> nat"
  load_library :: bool
  get_proc_address :: bool
  init_interface :: bool
  query_package :: int
  acquire_credentials :: "sch_algorithm \<Rightarrow> int"
  query_algs :: int
  query_strengths :: int
  query_protocols :: int

datatype sch_resource = Recv_buffer | Ready_buffer | Send_buffer | Credentials | Library | Tls_object

definition sch_tls_free :: "'k sch_tls \<Rightarrow> sch_resource list" where
  "sch_tls_free t =
     (if recvbuffer t \<noteq> None then [Recv_buffer] else []) @
     (if readybuffer t \<noteq> None then [Ready_buffer] else []) @
     (if sendbuffer t \<noteq> None then [Send_buffer] else []) @
     (if sch_init t then [Credentials] else []) @
     (if sch_hsec32 t then [Library] else []) @
     [Tls_object]"

definition sch_tls_zero :: "mem \<Rightarrow> int \<Rightarrow> 'k sch_tls" where
  "sch_tls_zero m sock = \<lparr> sch_mem = m, sch_sock = sock, sch_hsec32 = False, sch_init = False, sch_hctxt = None,
     cbHeader = 0, cbMaximumMessage = 0, cbTrailer = 0, recvbuffer = None, recvbuffermaxlen = 0, recvbufferpos = 0,
     readybuffer = None, readybufferpos = 0, readybufferlen = 0,
     sendbuffer = None, sendbuffermaxlen = 0, sendbufferlen = 0, sendbufferpos = 0, sch_lasterror = 0 \<rparr>"

definition sch_choose_algorithm :: "nat \<times> nat \<Rightarrow> sch_algorithm" where
  "sch_choose_algorithm v = (if fst v \<ge> 6 \<and> snd v \<ge> 2 then CALG_AES else CALG_RC4)"

text \<open>The result is the new object, or what was released when it failed.\<close>

definition sch_tls_new :: "sch_system \<Rightarrow> mem \<Rightarrow> int \<Rightarrow> 'k sch_tls option \<times> sch_resource list \<times> mem" where
  "sch_tls_new sys m sock =
     (if win9x sys then (None, [], m)
      else case xmpp_alloc m of (ok, m) \<Rightarrow>
        if \<not> ok then (None, [], m)
        else
          let t = sch_tls_zero m sock;
              loaded = t\<lparr>sch_hsec32 := True\<rparr>;
              acquired = loaded\<lparr>sch_init := True\<rparr>
          in if \<not> load_library sys then (None, sch_tls_free t, m)
             else if \<not> get_proc_address sys then (None, sch_tls_free loaded, m)
             else if \<not> init_interface sys then (None, sch_tls_free loaded, m)
             else if query_package sys \<noteq> SEC_E_OK then (None, sch_tls_free loaded, m)
             else if acquire_credentials sys (sch_choose_algorithm (winver sys)) \<noteq> SEC_E_OK then (None, sch_tls_free loaded, m)
             else if query_algs sys \<noteq> SEC_E_OK then (None, sch_tls_free acquired, m)
             else if query_strengths sys \<noteq> SEC_E_OK then (None, sch_tls_free acquired, m)
             else if query_protocols sys \<noteq> SEC_E_OK then (None, sch_tls_free acquired, m)
             else (Some acquired, [], m))"

subsection \<open>The handshake\<close>

text \<open>The name of the server is the domain of the connection with this socket, which \<open>strdup\<close> gets unchecked.\<close>

fun sch_server_name :: "(int \<times> string option) list \<Rightarrow> int \<Rightarrow> string option option" where
  "sch_server_name [] sock = Some None"
| "sch_server_name ((s, d) # rest) sock =
     (if s = sock then map_option Some d else sch_server_name rest sock)"

text \<open>A token is given to one call of \<open>send\<close>.\<close>

definition sch_send_token :: "('x, 'n) platform \<Rightarrow> 'k sch_tls \<Rightarrow> string \<Rightarrow> 'n \<Rightarrow> 'k sch_tls \<times> 'n" where
  "sch_send_token pf t token n =
     (if token \<noteq> [] then
        (case sock_write pf (sch_sock t) token n of (sent, n) \<Rightarrow>
          (if sent = - 1 then t\<lparr>sch_lasterror := sock_error pf n\<rparr> else t, n))
      else (t, n))"

definition sch_wait :: "('x, 'n) platform \<Rightarrow> int \<Rightarrow> int \<times> int \<Rightarrow> 'n \<Rightarrow> 'n" where
  "sch_wait pf sock tv n = (case sys_select pf sock [sock] [] tv n of (_, _, _, n) \<Rightarrow> n)"

text \<open>Reading a token until \<open>recv\<close> has nothing more, into a buffer of \<open>cbMaxToken\<close> bytes.\<close>

partial_function (option) sch_token_loop ::
    "('x, 'n) platform \<Rightarrow> 'k sch_tls \<Rightarrow> nat \<Rightarrow> string \<Rightarrow> 'n \<Rightarrow> (string \<times> 'k sch_tls \<times> 'n) option" where
  "sch_token_loop pf t maxlen token n =
     (case sock_read pf (sch_sock t) (maxlen - length token) (sch_wait pf (sch_sock t) (0, 1000) n) of
        (inbytes, data, n) \<Rightarrow>
          if inbytes > 0 then sch_token_loop pf t maxlen (token @ take (nat inbytes) data) n
          else Some (token, t\<lparr>sch_lasterror := sock_error pf n\<rparr>, n))"

partial_function (option) sch_handshake_loop ::
    "('x, 'n) platform \<Rightarrow> 'k sspi \<Rightarrow> string option \<Rightarrow> int \<Rightarrow> string \<Rightarrow> 'k sch_tls \<Rightarrow> 'n \<Rightarrow>
      (int \<times> string \<times> 'k sch_tls \<times> 'n) option" where
  "sch_handshake_loop pf sp name ret out t n =
     (if ret = SEC_I_CONTINUE_NEEDED \<or> ret = SEC_I_INCOMPLETE_CREDENTIALS then
        (case sch_send_token pf t out n of (t, n) \<Rightarrow>
         Option.bind (sch_token_loop pf t (sp_max_token sp) [] (sch_wait pf (sch_sock t) (2, 0) n)) (\<lambda>(token, t, n).
         case sp_initialize sp (sch_hctxt t) name token of (ret, out, k) \<Rightarrow>
           sch_handshake_loop pf sp name ret out (t\<lparr>sch_hctxt := Some k\<rparr>) n))
      else Some (ret, out, t, n))"

text \<open>A block from the allocator; its contents are those of fresh memory, written as \<open>junk\<close>.\<close>

definition sch_alloc :: "char \<Rightarrow> nat \<Rightarrow> 'k sch_tls \<Rightarrow> string option \<times> 'k sch_tls" where
  "sch_alloc junk len t = (case xmpp_alloc (sch_mem t) of (ok, m) \<Rightarrow>
     (if ok then Some (replicate len junk) else None, t\<lparr>sch_mem := m\<rparr>))"

text \<open>The token buffer must have been allocated if it is read into; the results of the last three allocations
  are not looked at.\<close>

definition sch_tls_start ::
    "char \<Rightarrow> ('x, 'n) platform \<Rightarrow> 'k sspi \<Rightarrow> (int \<times> string option) list \<Rightarrow> 'k sch_tls \<Rightarrow> 'n \<Rightarrow>
      (int \<times> 'k sch_tls \<times> 'n) option" where
  "sch_tls_start junk pf sp conns t n = do {
     name \<leftarrow> sch_server_name conns (sch_sock t);
     let (sbin, t) = sch_alloc junk (sp_max_token sp) t;
     let (ret, out, k) = sp_initialize sp None name [];
     let t = t\<lparr>sch_hctxt := Some k\<rparr>;
     (ret, out, t, n) \<leftarrow>
       (if sbin = None \<and> (ret = SEC_I_CONTINUE_NEEDED \<or> ret = SEC_I_INCOMPLETE_CREDENTIALS) then None
        else sch_handshake_loop pf sp name ret out t n);
     if ret \<noteq> SEC_E_OK then Some (0, t\<lparr>sch_lasterror := ret\<rparr>, n)
     else do {
       let (t, n) = sch_send_token pf t out n;
       k \<leftarrow> sch_hctxt t;
       let (h, mx, tr) = sp_sizes sp k;
       let t = t\<lparr>cbHeader := h, cbMaximumMessage := mx, cbTrailer := tr, recvbuffermaxlen := h + mx + tr\<rparr>;
       let (b, t) = sch_alloc junk (recvbuffermaxlen t) t;
       let t = t\<lparr>recvbuffer := b, recvbufferpos := 0, sendbuffermaxlen := h + mx + tr\<rparr>;
       let (b, t) = sch_alloc junk (sendbuffermaxlen t) t;
       let t = t\<lparr>sendbuffer := b, sendbufferpos := 0, sendbufferlen := 0\<rparr>;
       let (b, t) = sch_alloc junk mx t;
       Some (1, t\<lparr>readybuffer := b, readybufferpos := 0, readybufferlen := 0\<rparr>, n) } }"

subsection \<open>Reading\<close>

text \<open>The handshake anew that a server may ask for; on success an incomplete message is feigned.\<close>

definition sch_renegotiate ::
    "char \<Rightarrow> ('x, 'n) platform \<Rightarrow> 'k sspi \<Rightarrow> (int \<times> string option) list \<Rightarrow> 'k sch_tls \<Rightarrow> 'n \<Rightarrow>
      (int \<times> string \<times> 'k sch_tls \<times> 'n) option" where
  "sch_renegotiate junk pf sp conns t n = do {
     (ret, t, n) \<leftarrow> sch_tls_start junk pf sp conns t n;
     Some (- 1, [], if ret = 0 then t else t\<lparr>sch_lasterror := SEC_E_INCOMPLETE_MESSAGE\<rparr>, n) }"

text \<open>A decrypted message: its data becomes ready, and the extra bytes behind it move to the front of the receive
  buffer, from which they may overlap the area they are copied to.\<close>

definition sch_message ::
    "'k sspi \<Rightarrow> string \<Rightarrow> string \<Rightarrow> string option \<Rightarrow> 'k sch_tls \<Rightarrow> 'k sch_tls option" where
  "sch_message sp buf data extra t = do {
     ready \<leftarrow> readybuffer t;
     ready \<leftarrow> blit ready 0 data;
     let t = t\<lparr>readybuffer := Some ready, readybufferpos := 0, readybufferlen := length data\<rparr>;
     case extra of
       None \<Rightarrow> Some (t\<lparr>recvbufferpos := 0\<rparr>)
     | Some e \<Rightarrow>
         if 2 * length e > recvbufferpos t \<and> \<not> sp_memcpy_down sp then None
         else do {
           buf \<leftarrow> blit buf 0 e;
           Some (t\<lparr>recvbuffer := Some buf, recvbufferpos := length e\<rparr>) } }"

text \<open>Topping up the receive buffer: \<open>Inl\<close> when the read gives up.\<close>

definition sch_top_up :: "('x, 'n) platform \<Rightarrow> 'k sch_tls \<Rightarrow> 'n \<Rightarrow> ('k sch_tls + 'k sch_tls) option \<times> 'n" where
  "sch_top_up pf t n =
     (case sock_read pf (sch_sock t) (recvbuffermaxlen t - recvbufferpos t) n of (bytes, data, n) \<Rightarrow>
       (if bytes = 0 then Some (Inl (t\<lparr>sch_lasterror := WSAECONNRESET\<rparr>))
        else if bytes = - 1 \<and> \<not> sch_tls_is_recoverable (sock_error pf n)
        then Some (Inl (t\<lparr>sch_lasterror := sock_error pf n\<rparr>))
        else if bytes > 0 then do {
          buf \<leftarrow> recvbuffer t;
          buf \<leftarrow> blit buf (recvbufferpos t) (take (nat bytes) data);
          Some (Inr (t\<lparr>recvbuffer := Some buf, recvbufferpos := recvbufferpos t + nat bytes\<rparr>)) }
        else Some (Inr t), n))"

text \<open>
  The result is the code's, with the bytes that were stored in the caller's buffer.  Decryption works in place; when it
  does not succeed, the contents of the receive buffer are taken to be as before.
\<close>

partial_function (option) sch_tls_read ::
    "char \<Rightarrow> ('x, 'n) platform \<Rightarrow> 'k sspi \<Rightarrow> (int \<times> string option) list \<Rightarrow> 'k sch_tls \<Rightarrow> nat \<Rightarrow> 'n \<Rightarrow>
      (int \<times> string \<times> 'k sch_tls \<times> 'n) option" where
  "sch_tls_read junk pf sp conns t len n =
     (if readybufferpos t < readybufferlen t then
        Option.bind (readybuffer t) (\<lambda>ready.
          let avail = readybufferlen t - readybufferpos t;
              bytes = (if len < avail then len else avail);
              data = take bytes (drop (readybufferpos t) ready);
              t' = t\<lparr>readybufferpos := readybufferpos t + bytes\<rparr>
          in if len < avail then Some (int bytes, data, t', n)
             else Option.bind (sch_tls_read junk pf sp conns t' (len - bytes) n) (\<lambda>(rd, more_data, t, n).
               Some (if rd = - 1 then if sch_tls_is_recoverable (sch_lasterror t) then int bytes else - 1 else int bytes + rd,
                 data @ more_data, t, n)))
      else
        (case sch_top_up pf t n of (topped, n) \<Rightarrow>
         Option.bind topped (\<lambda>topped.
           case topped of
             Inl t \<Rightarrow> Some (- 1, [], t, n)
           | Inr t \<Rightarrow>
               if recvbufferpos t > 0 then
                 Option.bind (recvbuffer t) (\<lambda>buf.
                 Option.bind (sch_hctxt t) (\<lambda>k.
                   case sp_decrypt sp k (take (recvbufferpos t) buf) of (ret, data, extra, k) \<Rightarrow>
                     if ret = SEC_E_OK then
                       Option.bind (sch_message sp buf data extra (t\<lparr>sch_hctxt := Some k\<rparr>)) (\<lambda>t.
                         sch_tls_read junk pf sp conns t len n)
                     else if ret = SEC_E_INCOMPLETE_MESSAGE then
                       Some (- 1, [], t\<lparr>sch_hctxt := Some k, sch_lasterror := SEC_E_INCOMPLETE_MESSAGE\<rparr>, n)
                     else if ret = SEC_I_RENEGOTIATE then
                       sch_renegotiate junk pf sp conns (t\<lparr>sch_hctxt := Some k\<rparr>) n
                     else Some (- 1, [], t\<lparr>sch_hctxt := Some k, sch_lasterror := ret\<rparr>, n)))
               else Some (- 1, [], t\<lparr>sch_lasterror := SEC_E_INCOMPLETE_MESSAGE\<rparr>, n))))"

subsection \<open>Writing\<close>

definition sch_tls_clear_pending_write :: "('x, 'n) platform \<Rightarrow> 'k sch_tls \<Rightarrow> 'n \<Rightarrow> (int \<times> 'k sch_tls \<times> 'n) option" where
  "sch_tls_clear_pending_write pf t n =
     (if sendbufferpos t < sendbufferlen t then do {
        buf \<leftarrow> sendbuffer t;
        (case sock_write pf (sch_sock t) (drop (sendbufferpos t) (take (sendbufferlen t) buf)) n of (bytes, n) \<Rightarrow>
           if bytes = - 1 then Some (- 1, t\<lparr>sch_lasterror := sock_error pf n\<rparr>, n)
           else (let t = (if bytes > 0 then t\<lparr>sendbufferpos := sendbufferpos t + nat bytes\<rparr> else t)
             in Some (if sendbufferpos t < sendbufferlen t then 0 else 1, t, n))) }
      else Some (1, t, n))"

text \<open>One chunk: its data is copied behind the place of the header and encrypted there.  The length to send is set
  from the sizes of the areas, before the encryption and whatever it leaves in them.\<close>

definition sch_seal :: "'k sspi \<Rightarrow> string \<Rightarrow> 'k sch_tls \<Rightarrow> (int \<times> 'k sch_tls) option" where
  "sch_seal sp chunk t = do {
     buf \<leftarrow> sendbuffer t;
     buf \<leftarrow> blit buf (cbHeader t) chunk;
     k \<leftarrow> sch_hctxt t;
     (case sp_encrypt sp k (cbHeader t) chunk (cbTrailer t) of (ret, area, k) \<Rightarrow> do {
        buf \<leftarrow> blit buf 0 area;
        Some (ret, t\<lparr>sendbuffer := Some buf, sendbufferlen := cbHeader t + length chunk + cbTrailer t, sch_hctxt := Some k\<rparr>) }) }"

partial_function (option) sch_write_loop ::
    "('x, 'n) platform \<Rightarrow> 'k sspi \<Rightarrow> string \<Rightarrow> nat \<Rightarrow> 'k sch_tls \<Rightarrow> 'n \<Rightarrow> (int \<times> 'k sch_tls \<times> 'n) option" where
  "sch_write_loop pf sp p sent t n =
     (if p = [] then Some (int sent, t, n)
      else let chunk = take (cbMaximumMessage t) p
        in Option.bind (sch_seal sp chunk t) (\<lambda>(ret, t).
             if ret \<noteq> SEC_E_OK then Some (- 1, t\<lparr>sch_lasterror := ret\<rparr>, n)
             else Option.bind (sch_tls_clear_pending_write pf (t\<lparr>sendbufferpos := 0\<rparr>) n) (\<lambda>(ret, t, n).
               if ret = - 1 \<and> \<not> sch_tls_is_recoverable (sch_tls_error t) then Some (- 1, t, n)
               else if ret = 0 \<or> ret = - 1 then Some (int (sent + length chunk), t, n)
               else sch_write_loop pf sp (drop (length chunk) p) (sent + length chunk) t n)))"

definition sch_tls_write ::
    "('x, 'n) platform \<Rightarrow> 'k sspi \<Rightarrow> 'k sch_tls \<Rightarrow> string \<Rightarrow> 'n \<Rightarrow> (int \<times> 'k sch_tls \<times> 'n) option" where
  "sch_tls_write pf sp t buff n = do {
     (ret, t, n) \<leftarrow> sch_tls_clear_pending_write pf t n;
     if ret \<le> 0 then Some (ret, t, n)
     else sch_write_loop pf sp buff 0 (t\<lparr>sendbufferpos := 0, sendbufferlen := 0\<rparr>) n }"

end
