(* ===== verification/Schannel_Facts.thy ===== *)
theory Schannel_Facts
  imports Tls_Schannel
begin

section \<open>Properties of the TLS wrapper for Windows\<close>

text \<open>
  What \<open>tls_read\<close> and \<open>tls_write\<close> of \<open>tls_schannel.c\<close> do to the two streams of bytes, the data of the
  application and the messages on the wire.  The laws of the socket and of the security functions are predicates on
  them; the latter speak of the data and the messages that a security context has processed so far.
\<close>

subsection \<open>The laws\<close>

text \<open>A socket that delivers the bytes of a finite input in order.\<close>

definition hears :: "('x, 'n) platform \<Rightarrow> ('n \<Rightarrow> string) \<Rightarrow> bool" where
  "hears pf incoming \<longleftrightarrow> (\<forall>k len n ret data n'. sys_recv pf k len n = (ret, data, n') \<longrightarrow>
     ret \<le> int len \<and> nat ret \<le> length data \<and> incoming n = take (nat ret) data @ incoming n')"

text \<open>A socket that takes a prefix of what it is given.\<close>

definition takes :: "('x, 'n) platform \<Rightarrow> ('n \<Rightarrow> string) \<Rightarrow> bool" where
  "takes pf wire \<longleftrightarrow> (\<forall>k s n ret n'. sys_send pf k s n = (ret, n') \<longrightarrow>
     ret \<le> int (length s) \<and> wire n' = wire n @ take (nat ret) s)"

text \<open>Decryption consumes a message at the front of the buffer and hands back what follows it, or changes nothing.\<close>

definition decrypts :: "'k sspi \<Rightarrow> nat \<Rightarrow> ('k \<Rightarrow> string) \<Rightarrow> ('k \<Rightarrow> string) \<Rightarrow> bool" where
  "decrypts sp mx plain cipher \<longleftrightarrow> (\<forall>k b ret data extra k'. sp_decrypt sp k b = (ret, data, extra, k') \<longrightarrow>
     ret \<noteq> SEC_I_RENEGOTIATE \<and>
     (ret \<noteq> SEC_E_OK \<longrightarrow> plain k' = plain k \<and> cipher k' = cipher k) \<and>
     (ret = SEC_E_OK \<longrightarrow> length data \<le> mx \<and> plain k' = plain k @ data \<and>
        (\<exists>rec. rec \<noteq> [] \<and> b = rec @ (case extra of None \<Rightarrow> [] | Some e \<Rightarrow> e) \<and> cipher k' = cipher k @ rec)))"

text \<open>Encryption fills the three areas, or changes nothing of its context.\<close>

definition encrypts :: "'k sspi \<Rightarrow> ('k \<Rightarrow> string) \<Rightarrow> ('k \<Rightarrow> string) \<Rightarrow> bool" where
  "encrypts sp plain cipher \<longleftrightarrow> (\<forall>k h chunk tr ret area k'. sp_encrypt sp k h chunk tr = (ret, area, k') \<longrightarrow>
     length area = h + length chunk + tr \<and>
     (if ret = SEC_E_OK then plain k' = plain k @ chunk \<and> cipher k' = cipher k @ area
      else plain k' = plain k \<and> cipher k' = cipher k))"

subsection \<open>Creation\<close>

text \<open>A creation that fails has released exactly what it had acquired, each thing once.\<close>

lemma sch_tls_new_releases:
  assumes "sch_tls_new sys m sock = (None :: 'k sch_tls option, released, m')" "\<not> win9x sys" "fst (xmpp_alloc m)"
  defines "package \<equiv> load_library sys \<and> get_proc_address sys \<and> init_interface sys \<and> query_package sys = SEC_E_OK"
  defines "credentials \<equiv> acquire_credentials sys (sch_choose_algorithm (winver sys)) = SEC_E_OK"
  shows "released = (if package \<and> credentials then [Credentials] else []) @ (if load_library sys then [Library] else []) @ [Tls_object]"
  using assms(1-3) unfolding package_def credentials_def
  by (auto simp: sch_tls_new_def sch_tls_free_def sch_tls_zero_def Let_def split: prod.splits if_splits)

text \<open>Version 10.0 of the system is not at least 6.2 in both numbers: it gets the algorithm that the comment says is disabled.\<close>

lemma sch_algorithm_10: "sch_choose_algorithm (10, 0) = CALG_RC4" "sch_choose_algorithm (6, 2) = CALG_AES"
  by (simp_all add: sch_choose_algorithm_def)

subsection \<open>Reading\<close>

definition sch_unread :: "'k sch_tls \<Rightarrow> string" where
  "sch_unread t = (case readybuffer t of None \<Rightarrow> []
     | Some r \<Rightarrow> drop (readybufferpos t) (take (readybufferlen t) r))"

definition sch_received :: "'k sch_tls \<Rightarrow> string" where
  "sch_received t = (case recvbuffer t of None \<Rightarrow> [] | Some b \<Rightarrow> take (recvbufferpos t) b)"

definition sch_read_ok :: "nat \<Rightarrow> 'k sch_tls \<Rightarrow> bool" where
  "sch_read_ok mx t \<longleftrightarrow>
     (\<exists>r b k. readybuffer t = Some r \<and> length r = mx \<and> recvbuffer t = Some b \<and> length b = recvbuffermaxlen t \<and>
        sch_hctxt t = Some k) \<and>
     readybufferpos t \<le> readybufferlen t \<and> readybufferlen t \<le> mx \<and> recvbufferpos t \<le> recvbuffermaxlen t"

lemma sch_read_ok_lasterror [simp]:
  "sch_read_ok mx (t\<lparr>sch_lasterror := e\<rparr>) = sch_read_ok mx t"
  "sch_unread (t\<lparr>sch_lasterror := e\<rparr>) = sch_unread t"
  "sch_received (t\<lparr>sch_lasterror := e\<rparr>) = sch_received t"
  by (auto simp: sch_read_ok_def sch_unread_def sch_received_def split: option.splits)

lemma sch_received_ready [simp]: "sch_received (t\<lparr>readybufferpos := p\<rparr>) = sch_received t"
  by (auto simp: sch_received_def split: option.splits)

lemma sch_read_ok_hctxt [simp]:
  "sch_read_ok mx t \<Longrightarrow> sch_read_ok mx (t\<lparr>sch_hctxt := Some k\<rparr>)"
  "sch_unread (t\<lparr>sch_hctxt := c\<rparr>) = sch_unread t"
  "sch_received (t\<lparr>sch_hctxt := c\<rparr>) = sch_received t"
  by (auto simp: sch_read_ok_def sch_unread_def sch_received_def split: option.splits)

text \<open>Topping up moves bytes from the input to the receive buffer; it gives up only for an error of the socket or its end.\<close>

lemma sch_top_up_ok:
  assumes "hears pf incoming" "sch_read_ok mx t" "readybufferlen t \<le> readybufferpos t" "sch_top_up pf t n = (topped, n')"
  obtains e where "topped = Some (Inl (t\<lparr>sch_lasterror := e\<rparr>))" "\<not> sch_tls_is_recoverable e" "incoming n' = incoming n"
  | t' where "topped = Some (Inr t')" "sch_read_ok mx t'" "sch_unread t' = []" "sch_hctxt t' = sch_hctxt t"
      "sch_received t' @ incoming n' = sch_received t @ incoming n" "recvbufferpos t' = length (sch_received t')"
      "readybufferlen t' \<le> readybufferpos t'"
proof -
  obtain b where b: "recvbuffer t = Some b" "length b = recvbuffermaxlen t" "recvbufferpos t \<le> recvbuffermaxlen t"
    using assms(2) by (auto simp: sch_read_ok_def)
  obtain ret data n1 where r: "sys_recv pf (sch_sock t) (recvbuffermaxlen t - recvbufferpos t) n = (ret, data, n1)"
    by (cases "sys_recv pf (sch_sock t) (recvbuffermaxlen t - recvbufferpos t) n") auto
  have law: "ret \<le> int (recvbuffermaxlen t - recvbufferpos t)" "nat ret \<le> length data"
      "incoming n = take (nat ret) data @ incoming n1"
    using assms(1) r unfolding hears_def by blast+
  note tu = assms(4) [unfolded sch_top_up_def sock_read_def r prod.case]
  consider "ret = 0" | "ret = - 1" "\<not> sch_tls_is_recoverable (sock_error pf n1)" | "ret > 0"
    | "ret < 0" "ret = - 1 \<longrightarrow> sch_tls_is_recoverable (sock_error pf n1)"
    by linarith
  then show thesis
  proof cases
    case 1
    then show thesis using that(1) [of WSAECONNRESET] tu law by (simp add: sch_tls_is_recoverable_def sec_defs)
  next
    case 2
    then have "topped = Some (Inl (t\<lparr>sch_lasterror := sock_error pf n1\<rparr>))" "incoming n' = incoming n" using tu law by auto
    then show thesis by (rule that(1) [OF _ 2(2)])
  next
    case 3
    let ?d = "take (nat ret) data" and ?p = "recvbufferpos t"
    have fits: "?p + length ?d \<le> length b" "length ?d = nat ret" using law b 3 by auto
    define buf where "buf = take ?p b @ ?d @ drop (?p + length ?d) b"
    define t' where "t' = t\<lparr>recvbuffer := Some buf, recvbufferpos := ?p + nat ret\<rparr>"
    have lb: "length buf = length b" using fits by (simp add: buf_def)
    have tk: "take (?p + nat ret) buf = take ?p b @ ?d" using b fits by (simp add: buf_def)
    have bl: "blit b ?p ?d = Some buf" using blit_in [OF fits(1)] by (simp add: buf_def)
    have rcv: "sch_received t' = sch_received t @ ?d" using tk by (simp add: sch_received_def t'_def b)
    show thesis
    proof (rule that(2))
      show "topped = Some (Inr t')" using tu 3 b(1) bl by (simp add: t'_def)
      show "sch_read_ok mx t'" using assms(2) b fits lb by (auto simp: sch_read_ok_def t'_def)
      show "sch_unread t' = []" using assms(3) by (simp add: sch_unread_def t'_def split: option.splits)
      show "recvbufferpos t' = length (sch_received t')" using b fits lb by (simp add: sch_received_def t'_def)
      show "sch_received t' @ incoming n' = sch_received t @ incoming n" using rcv law(3) tu 3 by simp
    qed (use assms(3) in \<open>simp_all add: t'_def\<close>)
  next
    case 4
    then have same: "topped = Some (Inr t)" "n' = n1" "incoming n1 = incoming n" using tu law(3) by auto
    show thesis
    proof (rule that(2))
      show "topped = Some (Inr t)" by (rule same(1))
      show "sch_unread t = []" using assms(3) by (simp add: sch_unread_def split: option.splits)
      show "recvbufferpos t = length (sch_received t)" using b by (simp add: sch_received_def)
    qed (use same assms(2,3) in simp_all)
  qed
qed

text \<open>A message is decrypted: its data is ready, and it has left the receive buffer.\<close>

lemma sch_message_ok:
  assumes "sch_read_ok mx t" "length data \<le> mx" "sp_memcpy_down sp" "rec \<noteq> []" "recvbuffer t = Some b"
    "take (recvbufferpos t) b = rec @ (case extra of None \<Rightarrow> [] | Some e \<Rightarrow> e)"
  obtains t' where "sch_message sp b data extra t = Some t'" "sch_read_ok mx t'" "sch_unread t' = data"
    "sch_hctxt t' = sch_hctxt t" "rec @ sch_received t' = sch_received t" "recvbufferpos t' < recvbufferpos t"
proof -
  obtain r where r: "readybuffer t = Some r" "length r = mx" and len: "length b = recvbuffermaxlen t" "recvbufferpos t \<le> length b"
    using assms(1,5) by (auto simp: sch_read_ok_def)
  define ready where "ready = data @ drop (length data) r"
  define e where "e = (case extra of None \<Rightarrow> [] | Some e \<Rightarrow> e)"
  define buf where "buf = e @ drop (length e) b"
  have bl: "blit r 0 data = Some ready" using assms(2) r by (simp add: blit_in ready_def)
  have "length (take (recvbufferpos t) b) = length rec + length e" using assms(6) by (simp add: e_def)
  then have le: "recvbufferpos t = length rec + length e" using len by simp
  then have bl2: "blit b 0 e = Some buf" using len by (simp add: blit_in buf_def)
  define t1 where "t1 = t\<lparr>readybuffer := Some ready, readybufferpos := 0, readybufferlen := length data\<rparr>"
  define t' where "t' = (case extra of None \<Rightarrow> t1\<lparr>recvbufferpos := 0\<rparr> | Some _ \<Rightarrow> t1\<lparr>recvbuffer := Some buf, recvbufferpos := length e\<rparr>)"
  show thesis
  proof (rule that)
    show "sch_message sp b data extra t = Some t'"
      using r bl bl2 assms(3) by (auto simp: sch_message_def t'_def t1_def e_def split: option.splits)
    show "sch_read_ok mx t'"
      using assms(1,2) r le len by (auto simp: sch_read_ok_def t'_def t1_def ready_def buf_def assms(5) split: option.splits)
    show "sch_unread t' = data" by (auto simp: sch_unread_def t'_def t1_def ready_def split: option.splits)
    show "sch_hctxt t' = sch_hctxt t" by (simp add: t'_def t1_def split: option.splits)
    show "rec @ sch_received t' = sch_received t"
      using assms(5,6) by (auto simp: sch_received_def t'_def t1_def buf_def e_def split: option.splits)
    show "recvbufferpos t' < recvbufferpos t" using le assms(4) by (auto simp: t'_def t1_def e_def split: option.splits)
  qed
qed

text \<open>What a read may do: \<open>new\<close> is the data decrypted by it, \<open>data\<close> what it stores for the caller.\<close>

definition sch_reads ::
    "nat \<Rightarrow> ('k \<Rightarrow> string) \<Rightarrow> ('k \<Rightarrow> string) \<Rightarrow> ('n \<Rightarrow> string) \<Rightarrow> 'k sch_tls \<Rightarrow> nat \<Rightarrow> 'n \<Rightarrow>
      int \<times> string \<times> 'k sch_tls \<times> 'n \<Rightarrow> bool" where
  "sch_reads mx plain cipher incoming t len n result \<longleftrightarrow> (case result of (ret, data, t', n') \<Rightarrow>
     sch_read_ok mx t' \<and>
     (\<exists>new. plain (the (sch_hctxt t')) = plain (the (sch_hctxt t)) @ new \<and> sch_unread t @ new = data @ sch_unread t') \<and>
     cipher (the (sch_hctxt t')) @ sch_received t' @ incoming n' =
       cipher (the (sch_hctxt t)) @ sch_received t @ incoming n \<and>
     length data \<le> len \<and>
     (ret = int (length data) \<or> ret = - 1 \<and> (data = [] \<or> \<not> sch_tls_is_recoverable (sch_lasterror t'))))"

text \<open>The two cases of a read: data is ready, or it has to come from the socket.\<close>

lemma sch_unread_split:
  assumes "sch_read_ok mx t" "readybuffer t = Some r" "readybufferpos t + k \<le> readybufferlen t"
  shows "sch_unread t = take k (drop (readybufferpos t) r) @ sch_unread (t\<lparr>readybufferpos := readybufferpos t + k\<rparr>)"
    "length (take k (drop (readybufferpos t) r)) = k"
    "sch_read_ok mx (t\<lparr>readybufferpos := readybufferpos t + k\<rparr>)"
proof -
  have r: "length r = mx" "readybufferlen t \<le> length r" using assms(1,2) by (auto simp: sch_read_ok_def)
  let ?x = "drop (readybufferpos t) (take (readybufferlen t) r)"
  have "take k ?x = take k (drop (readybufferpos t) r)"
    using assms(3) by (simp only: drop_take take_take) (simp add: min_absorb1)
  then have "?x = take k (drop (readybufferpos t) r) @ drop (readybufferpos t + k) (take (readybufferlen t) r)"
    using append_take_drop_id [of k ?x] by (simp only: drop_drop add.commute)
  then show "sch_unread t = take k (drop (readybufferpos t) r) @ sch_unread (t\<lparr>readybufferpos := readybufferpos t + k\<rparr>)"
    using assms(2) by (simp add: sch_unread_def)
  show "length (take k (drop (readybufferpos t) r)) = k" using assms(3) r by simp
  show "sch_read_ok mx (t\<lparr>readybufferpos := readybufferpos t + k\<rparr>)" using assms by (auto simp: sch_read_ok_def)
qed

lemma sch_reads_returns:
  assumes "hears pf incoming" "decrypts sp mx plain cipher" "sp_memcpy_down sp"
  shows "sch_read_ok mx t \<Longrightarrow>
    \<exists>result. sch_tls_read junk pf sp conns t len n = Some result \<and> sch_reads mx plain cipher incoming t len n result"
proof (induction "2 * (length (incoming n) + recvbufferpos t) + (if readybufferpos t < readybufferlen t then 1 else 0)"
    arbitrary: t len n rule: less_induct)
  case less
  show ?case
  proof (cases "readybufferpos t < readybufferlen t")
    case True
    obtain r where r: "readybuffer t = Some r" using less.prems by (auto simp: sch_read_ok_def)
    define avail where "avail = readybufferlen t - readybufferpos t"
    define k where "k = (if len < avail then len else avail)"
    define t' where "t' = t\<lparr>readybufferpos := readybufferpos t + k\<rparr>"
    let ?d = "take k (drop (readybufferpos t) r)"
    note split = sch_unread_split [OF less.prems r, of k, folded t'_def]
    have kle: "readybufferpos t + k \<le> readybufferlen t" "k \<le> len" using True by (auto simp: k_def avail_def)
    show ?thesis
    proof (cases "len < avail")
      case short: True
      then have "sch_tls_read junk pf sp conns t len n = Some (int k, ?d, t', n)"
        using True r by (simp add: sch_tls_read.simps [of junk pf sp conns t] Let_def k_def avail_def t'_def)
      moreover have "sch_reads mx plain cipher incoming t len n (int k, ?d, t', n)"
        using split kle by (simp add: sch_reads_def t'_def)
      ultimately show ?thesis by blast
    next
      case False
      then have kk: "k = avail" by (simp add: k_def)
      have none: "\<not> readybufferpos t' < readybufferlen t'" using kk by (simp add: t'_def avail_def)
      obtain rd d2 t2 n2 where rec: "sch_tls_read junk pf sp conns t' (len - k) n = Some (rd, d2, t2, n2)"
          and ok: "sch_reads mx plain cipher incoming t' (len - k) n (rd, d2, t2, n2)"
        using less.hyps [of n t' "len - k"] split(3) kle none True by (auto simp: t'_def)
      define ret where "ret = (if rd = - 1 then if sch_tls_is_recoverable (sch_lasterror t2) then int k else - 1 else int k + rd)"
      have "sch_tls_read junk pf sp conns t len n = Some (ret, ?d @ d2, t2, n2)"
        using True r False rec kk
        by (simp add: sch_tls_read.simps [of junk pf sp conns t] Let_def avail_def t'_def ret_def)
      moreover have "sch_reads mx plain cipher incoming t len n (ret, ?d @ d2, t2, n2)"
        using ok split(1,2) kle by (auto simp: sch_reads_def t'_def ret_def)
      ultimately show ?thesis by blast
    qed
  next
    case False
    obtain topped n1 where tu: "sch_top_up pf t n = (topped, n1)" by (cases "sch_top_up pf t n")
    have empty: "sch_unread t = []" using False by (simp add: sch_unread_def split: option.splits)
    from assms(1) less.prems leI [OF False] tu show ?thesis
    proof (cases rule: sch_top_up_ok)
      case (1 e)
      then show ?thesis using False tu less.prems
        by (simp add: sch_tls_read.simps [of junk pf sp conns t] sch_reads_def)
    next
      case (2 t1)
      obtain b k where b: "recvbuffer t1 = Some b" and k: "sch_hctxt t1 = Some k" using 2(2) by (auto simp: sch_read_ok_def)
      note simps = sch_tls_read.simps [of junk pf sp conns t]
      show ?thesis
      proof (cases "recvbufferpos t1 > 0")
        case nothing: False
        then have "sch_tls_read junk pf sp conns t len n = Some (- 1, [], t1\<lparr>sch_lasterror := SEC_E_INCOMPLETE_MESSAGE\<rparr>, n1)"
          using False tu 2(1) by (simp add: simps)
        then show ?thesis using 2 empty by (simp add: sch_reads_def)
      next
        case True
        obtain ret data extra k1 where d: "sp_decrypt sp k (take (recvbufferpos t1) b) = (ret, data, extra, k1)"
          by (cases "sp_decrypt sp k (take (recvbufferpos t1) b)") auto
        note law = assms(2) [unfolded decrypts_def, rule_format, OF d]
        define t2 where "t2 = t1\<lparr>sch_hctxt := Some k1\<rparr>"
        show ?thesis
        proof (cases "ret = SEC_E_OK")
          case err: False
          define e where "e = (if ret = SEC_E_INCOMPLETE_MESSAGE then SEC_E_INCOMPLETE_MESSAGE else ret)"
          have "sch_tls_read junk pf sp conns t len n = Some (- 1, [], t2\<lparr>sch_lasterror := e\<rparr>, n1)"
            using False tu 2(1) True b k d err law by (simp add: simps t2_def e_def)
          moreover have "sch_hctxt t = Some k" using 2(4) k by simp
          ultimately show ?thesis using 2(2,3,5) empty err law by (simp add: sch_reads_def t2_def)
        next
          case good: True
          obtain rec where rec: "rec \<noteq> []" "take (recvbufferpos t1) b = rec @ (case extra of None \<Rightarrow> [] | Some e \<Rightarrow> e)"
              "cipher k1 = cipher k @ rec" "plain k1 = plain k @ data" "length data \<le> mx" using law good by auto
          have ok2: "sch_read_ok mx t2" "recvbuffer t2 = Some b" "recvbufferpos t2 = recvbufferpos t1"
            using 2(2) b by (simp_all add: t2_def)
          obtain t3 where m: "sch_message sp b data extra t2 = Some t3" "sch_read_ok mx t3" "sch_unread t3 = data"
              "sch_hctxt t3 = sch_hctxt t2" "rec @ sch_received t3 = sch_received t2" "recvbufferpos t3 < recvbufferpos t2"
            using sch_message_ok [OF ok2(1) rec(5) assms(3) rec(1) ok2(2)] rec(2) ok2(3) by metis
          have len: "length (incoming n1) + recvbufferpos t1 = length (incoming n) + recvbufferpos t"
          proof -
            obtain b0 where "recvbuffer t = Some b0" "recvbufferpos t \<le> length b0" using less.prems by (auto simp: sch_read_ok_def)
            then show ?thesis using arg_cong [OF 2(5), of length] 2(6) by (simp add: sch_received_def)
          qed
          have "2 * (length (incoming n1) + recvbufferpos t3) + (if readybufferpos t3 < readybufferlen t3 then 1 else 0)
              < 2 * (length (incoming n) + recvbufferpos t) + (if readybufferpos t < readybufferlen t then 1 else 0)"
            using m(6) ok2(3) len by simp
          from less.hyps [OF this m(2), of len] obtain rd d2 t4 n2
            where rd: "sch_tls_read junk pf sp conns t3 len n1 = Some (rd, d2, t4, n2)"
              and ok: "sch_reads mx plain cipher incoming t3 len n1 (rd, d2, t4, n2)" by auto
          have "sch_tls_read junk pf sp conns t len n = Some (rd, d2, t4, n2)"
            using False tu 2(1) True b k d good m(1) rd by (simp add: simps t2_def)
          moreover have "sch_reads mx plain cipher incoming t len n (rd, d2, t4, n2)"
          proof -
            have c: "sch_hctxt t3 = Some k1" "sch_hctxt t = Some k" using m(4) 2(4) k by (auto simp: t2_def)
            have r3: "rec @ sch_received t3 @ incoming n1 = sch_received t @ incoming n"
              using m(5) 2(5) by (simp add: t2_def flip: append_assoc)
            show ?thesis using ok c empty m(3) rec(3,4) r3 by (auto simp: sch_reads_def)
          qed
          ultimately show ?thesis by blast
        qed
      qed
    qed
  qed
qed


text \<open>Security functions whose messages are two bytes long, a mark and a byte of data, and a socket with a finite input.\<close>

definition two_bytes :: "(string \<times> string) sspi" where
  "two_bytes = \<lparr> sp_max_token = 8, sp_initialize = (\<lambda>k name token. (SEC_E_OK, [], ([], []))), sp_sizes = (\<lambda>k. (1, 1, 0)),
     sp_decrypt = (\<lambda>(plain, cipher) b. case b of
         x # y # rest \<Rightarrow> (SEC_E_OK, [y], if rest = [] then None else Some rest, (plain @ [y], cipher @ [x, y]))
       | _ \<Rightarrow> (SEC_E_INCOMPLETE_MESSAGE, [], None, (plain, cipher))),
     sp_encrypt = (\<lambda>(plain, cipher) h chunk tr. let area = replicate h (CHR ''!'') @ chunk @ replicate tr (CHR ''!'')
       in (SEC_E_OK, area, (plain @ chunk, cipher @ area))),
     sp_memcpy_down = True \<rparr>"

definition fed_platform :: "(unit, string) platform" where
  "fed_platform = slow_platform\<lparr>sys_recv := (\<lambda>k len n. if n = [] then (- 1, [], n) else (int (length (take len n)), take len n, drop len n)),
     sys_errno := (\<lambda>n. WSAEWOULDBLOCK)\<rparr>"

definition sample_sch :: "(string \<times> string) sch_tls" where
  "sample_sch = (sch_tls_zero [] 5)\<lparr>sch_hctxt := Some ([], []), cbHeader := 1, cbMaximumMessage := 1,
     recvbuffer := Some ''????'', recvbuffermaxlen := 4, readybuffer := Some ''?'',
     sendbuffer := Some ''??'', sendbuffermaxlen := 2\<rparr>"

lemma fed_hears: "hears fed_platform (\<lambda>n. n)"
  by (auto simp: hears_def fed_platform_def min_def split: if_splits)

lemma two_bytes_decrypts: "decrypts two_bytes 1 fst snd"
  by (auto simp: decrypts_def two_bytes_def sec_defs split: list.splits if_splits)

lemma sample_sch_ok: "sch_read_ok 1 sample_sch"
  by (simp add: sch_read_ok_def sample_sch_def sch_tls_zero_def)


text \<open>
  Claim C35.  When the data that is ready fits the read and the other side has closed the connection, the read takes the data
  and reports an error: the caller sees \<open>- 1\<close>, and the last bytes of the stream are gone.
\<close>

theorem sch_read_drops_last:
  assumes "sch_read_ok mx t" "sch_unread t \<noteq> []" "length (sch_unread t) \<le> len"
    "sys_recv pf (sch_sock t) (recvbuffermaxlen t - recvbufferpos t) n = (0, d, n')"
  shows "\<exists>t'. sch_tls_read junk pf sp conns t len n = Some (- 1, sch_unread t, t', n') \<and> sch_unread t' = [] \<and>
    sch_tls_pending t' = 0 \<and> sch_tls_error t' = WSAECONNRESET"
proof -
  obtain r where r: "readybuffer t = Some r" "length r = mx" "readybufferlen t \<le> mx" using assms(1) by (auto simp: sch_read_ok_def)
  define avail where "avail = readybufferlen t - readybufferpos t"
  have un: "sch_unread t = take avail (drop (readybufferpos t) r)" "length (sch_unread t) = avail"
    using r by (simp_all add: sch_unread_def avail_def drop_take)
  have lt: "readybufferpos t < readybufferlen t" "\<not> len < avail" using assms(2,3) un by (auto simp: avail_def)
  define t1 where "t1 = t\<lparr>readybufferpos := readybufferlen t\<rparr>"
  define t' where "t' = t1\<lparr>sch_lasterror := WSAECONNRESET\<rparr>"
  have idle: "\<not> readybufferpos t1 < readybufferlen t1" by (simp add: t1_def)
  have "sch_top_up pf t1 n = (Some (Inl t'), n')" using assms(4) by (simp add: sch_top_up_def sock_read_def t1_def t'_def)
  then have nested: "sch_tls_read junk pf sp conns t1 (len - avail) n = Some (- 1, [], t', n')"
    using idle by (simp add: sch_tls_read.simps [of junk pf sp conns t1])
  have "readybufferpos t + avail = readybufferlen t" using lt by (simp add: avail_def)
  then have "sch_tls_read junk pf sp conns t len n = Some (- 1, sch_unread t, t', n')"
    using lt r(1) nested un(1)
    by (simp add: sch_tls_read.simps [of junk pf sp conns t] Let_def avail_def [symmetric] t1_def [symmetric])
       (simp add: t'_def sch_tls_is_recoverable_def sec_defs)
  then show ?thesis
    by (simp add: t'_def t1_def sch_unread_def sch_tls_pending_def sch_tls_error_def split: option.splits)
qed

definition sample_ready :: "(string \<times> string) sch_tls" where
  "sample_ready = sample_sch\<lparr>readybuffer := Some ''x'', readybufferlen := 1\<rparr>"

theorem sch_read_drops_last_witness:
  "\<exists>t'. sch_tls_read (CHR ''?'') slow_platform two_bytes [] sample_ready 4096 [] = Some (- 1, ''x'', t', []) \<and> sch_unread t' = []"
proof -
  have ok: "sch_read_ok 1 sample_ready" and u: "sch_unread sample_ready = ''x''"
    by (simp_all add: sch_read_ok_def sample_ready_def sample_sch_def sch_tls_zero_def sch_unread_def)
  have "sys_recv slow_platform (sch_sock sample_ready) (recvbuffermaxlen sample_ready - recvbufferpos sample_ready) [] = (0, [], [])"
    by (simp add: slow_platform_def)
  from sch_read_drops_last [OF ok _ _ this, of 4096 "CHR ''?''" two_bytes "[]"] u show ?thesis by auto
qed

subsection \<open>Writing\<close>

definition sch_unsent :: "'k sch_tls \<Rightarrow> string" where
  "sch_unsent t = (case sendbuffer t of None \<Rightarrow> [] | Some b \<Rightarrow> drop (sendbufferpos t) (take (sendbufferlen t) b))"

definition sch_write_ok :: "'k sch_tls \<Rightarrow> bool" where
  "sch_write_ok t \<longleftrightarrow>
     (\<exists>b k. sendbuffer t = Some b \<and> sch_hctxt t = Some k \<and> length b = cbHeader t + cbMaximumMessage t + cbTrailer t) \<and>
     sendbufferpos t \<le> sendbufferlen t \<and> sendbufferlen t \<le> cbHeader t + cbMaximumMessage t + cbTrailer t \<and>
     cbMaximumMessage t > 0"

definition sch_plain :: "('k \<Rightarrow> string) \<Rightarrow> 'k sch_tls \<Rightarrow> string" where
  "sch_plain f t = f (the (sch_hctxt t))"

text \<open>Clearing what is pending sends a prefix of it, and says by its result whether all of it went.\<close>

lemma sch_clear_ok:
  assumes "takes pf wire" "sch_write_ok t"
  obtains ret t' n' where "sch_tls_clear_pending_write pf t n = Some (ret, t', n')" "sch_write_ok t'"
    "wire n' @ sch_unsent t' = wire n @ sch_unsent t" "sch_hctxt t' = sch_hctxt t" "cbMaximumMessage t' = cbMaximumMessage t"
    "ret \<in> {- 1, 0, 1}" "ret = 1 \<Longrightarrow> sch_unsent t' = []"
proof -
  obtain b where b: "sendbuffer t = Some b" "length b = cbHeader t + cbMaximumMessage t + cbTrailer t"
    using assms(2) by (auto simp: sch_write_ok_def)
  show thesis
  proof (cases "sendbufferpos t < sendbufferlen t")
    case False
    have "sch_unsent t = []" using False b by (simp add: sch_unsent_def)
    then show thesis using that [of 1 t n] False assms(2) by (simp add: sch_tls_clear_pending_write_def)
  next
    case True
    let ?s = "sch_unsent t"
    have s: "?s = drop (sendbufferpos t) (take (sendbufferlen t) b)" using b by (simp add: sch_unsent_def)
    obtain bytes n1 where w: "sys_send pf (sch_sock t) ?s n = (bytes, n1)" by (cases "sys_send pf (sch_sock t) ?s n")
    have law: "bytes \<le> int (length ?s)" "wire n1 = wire n @ take (nat bytes) ?s"
      using assms(1) w unfolding takes_def by blast+
    have len: "sendbufferlen t \<le> length b" using assms(2) b by (simp add: sch_write_ok_def)
    note clear = sch_tls_clear_pending_write_def [of pf t n]
    show thesis
    proof (cases "bytes = - 1")
      case err: True
      have "sch_tls_clear_pending_write pf t n = Some (- 1, t\<lparr>sch_lasterror := sock_error pf n1\<rparr>, n1)"
        using True b w err by (simp add: clear sock_write_def s)
      then show thesis using that assms(2) law err b by (simp add: sch_write_ok_def sch_unsent_def)
    next
      case False
      define t' where "t' = t\<lparr>sendbufferpos := sendbufferpos t + nat bytes\<rparr>"
      define ret :: int where "ret = (if sendbufferpos t' < sendbufferlen t' then 0 else 1)"
      have "sch_tls_clear_pending_write pf t n = Some (ret, t', n1)"
        using True b w False by (simp add: clear sock_write_def s Let_def t'_def ret_def)
      moreover have u: "sch_unsent t' = drop (nat bytes) ?s" using b by (simp add: sch_unsent_def t'_def add.commute)
      moreover have "sch_write_ok t'" using assms(2) law(1) s len by (auto simp: sch_write_ok_def t'_def)
      moreover have "ret = 1 \<Longrightarrow> sch_unsent t' = []" by (auto simp: ret_def sch_unsent_def split: if_splits option.splits)
      ultimately show thesis using that law(2) by (simp add: ret_def t'_def)
    qed
  qed
qed

text \<open>Sealing a chunk of data: from the start of the buffer, its areas are what is to be sent.\<close>

lemma sch_seal_ok:
  assumes "encrypts sp plain cipher" "sch_write_ok t" "length chunk \<le> cbMaximumMessage t"
  obtains ret t' area where "sch_seal sp chunk t = Some (ret, t')" "sch_write_ok (t'\<lparr>sendbufferpos := 0\<rparr>)"
    "sch_unsent (t'\<lparr>sendbufferpos := 0\<rparr>) = area" "cbMaximumMessage t' = cbMaximumMessage t"
    "ret = SEC_E_OK \<Longrightarrow> sch_plain plain t' = sch_plain plain t @ chunk \<and> sch_plain cipher t' = sch_plain cipher t @ area"
    "ret \<noteq> SEC_E_OK \<Longrightarrow> sch_plain plain t' = sch_plain plain t \<and> sch_plain cipher t' = sch_plain cipher t"
proof -
  obtain b k where b: "sendbuffer t = Some b" "sch_hctxt t = Some k" "length b = cbHeader t + cbMaximumMessage t + cbTrailer t"
    using assms(2) by (auto simp: sch_write_ok_def)
  let ?len = "cbHeader t + length chunk + cbTrailer t"
  obtain b1 where b1: "blit b (cbHeader t) chunk = Some b1" "length b1 = length b"
    using b(3) assms(3) by (simp add: blit_in)
  obtain ret area k' where e: "sp_encrypt sp k (cbHeader t) chunk (cbTrailer t) = (ret, area, k')"
    by (cases "sp_encrypt sp k (cbHeader t) chunk (cbTrailer t)") auto
  note law = assms(1) [unfolded encrypts_def, rule_format, OF e]
  define b2 where "b2 = area @ drop ?len b1"
  define t' where "t' = t\<lparr>sendbuffer := Some b2, sendbufferlen := ?len, sch_hctxt := Some k'\<rparr>"
  have fits: "length area = ?len" "?len \<le> length b1" using law b1(2) b(3) assms(3) by auto
  then have "blit b1 0 area = Some b2" by (simp add: blit_in b2_def)
  then have "sch_seal sp chunk t = Some (ret, t')" using b(1,2) b1(1) e by (simp add: sch_seal_def t'_def)
  moreover have "sch_write_ok (t'\<lparr>sendbufferpos := 0\<rparr>)"
    using assms(2,3) fits b1(2) b(3) by (auto simp: sch_write_ok_def t'_def b2_def)
  moreover have "sch_unsent (t'\<lparr>sendbufferpos := 0\<rparr>) = area" using fits by (simp add: sch_unsent_def t'_def b2_def)
  ultimately show thesis using that law b(2) by (simp add: sch_plain_def t'_def split: if_splits)
qed

lemma sch_plain_simps [simp]:
  "sch_plain f (t\<lparr>sendbufferpos := p\<rparr>) = sch_plain f t" "sch_plain f (t\<lparr>sendbufferlen := l\<rparr>) = sch_plain f t"
  "sch_plain f (t\<lparr>sch_lasterror := e\<rparr>) = sch_plain f t"
  by (simp_all add: sch_plain_def)

text \<open>
  What a write may do: \<open>d\<close> bytes of the data are encrypted, to the messages \<open>new\<close>; these are sent or kept, or, when an
  encryption fails, sent.
\<close>

definition sch_writes ::
    "('k \<Rightarrow> string) \<Rightarrow> ('k \<Rightarrow> string) \<Rightarrow> ('n \<Rightarrow> string) \<Rightarrow> 'k sch_tls \<Rightarrow> string \<Rightarrow> string \<Rightarrow> nat \<Rightarrow> int \<times> 'k sch_tls \<times> 'n \<Rightarrow> bool" where
  "sch_writes plain cipher wire t before s sent result \<longleftrightarrow> (case result of (ret, t', n') \<Rightarrow>
     \<exists>d new. d \<le> length s \<and> sch_plain plain t' = sch_plain plain t @ take d s \<and> sch_plain cipher t' = sch_plain cipher t @ new \<and>
       (ret = int (sent + d) \<and> sch_write_ok t' \<and> wire n' @ sch_unsent t' = before @ new \<or>
        ret = - 1 \<and> \<not> sch_tls_is_recoverable (sch_lasterror t') \<and> sch_write_ok t' \<and> wire n' @ sch_unsent t' = before @ new \<or>
        ret = - 1 \<and> sch_lasterror t' \<noteq> SEC_E_OK \<and> wire n' = before @ new))"

lemma sch_write_loop_returns:
  assumes "takes pf wire" "encrypts sp plain cipher"
  shows "sch_write_ok t \<Longrightarrow> sch_unsent t = [] \<Longrightarrow>
    \<exists>result. sch_write_loop pf sp s sent t n = Some result \<and> sch_writes plain cipher wire t (wire n) s sent result"
proof (induction "length s" arbitrary: s sent t n rule: less_induct)
  case less
  note simps = sch_write_loop.simps [of pf sp s sent t n]
  show ?case
  proof (cases "s = []")
    case True
    then have "sch_write_loop pf sp s sent t n = Some (int sent, t, n)" by (subst simps) simp
    moreover have "sch_writes plain cipher wire t (wire n) s sent (int sent, t, n)"
      using less.prems by (simp add: sch_writes_def)
    ultimately show ?thesis by blast
  next
    case False
    define chunk where "chunk = take (cbMaximumMessage t) s"
    have ch: "length chunk \<le> cbMaximumMessage t" "length chunk > 0" "take (length chunk) s = chunk" "length chunk \<le> length s"
      using less.prems(1) False by (auto simp: chunk_def sch_write_ok_def min_def)
    obtain ret t1 area where seal: "sch_seal sp chunk t = Some (ret, t1)" "sch_write_ok (t1\<lparr>sendbufferpos := 0\<rparr>)"
        "sch_unsent (t1\<lparr>sendbufferpos := 0\<rparr>) = area"
        "ret = SEC_E_OK \<Longrightarrow> sch_plain plain t1 = sch_plain plain t @ chunk \<and> sch_plain cipher t1 = sch_plain cipher t @ area"
        "ret \<noteq> SEC_E_OK \<Longrightarrow> sch_plain plain t1 = sch_plain plain t \<and> sch_plain cipher t1 = sch_plain cipher t"
      using sch_seal_ok [OF assms(2) less.prems(1) ch(1)] by metis
    show ?thesis
    proof (cases "ret = SEC_E_OK")
      case err: False
      then have "sch_write_loop pf sp s sent t n = Some (- 1, t1\<lparr>sch_lasterror := ret\<rparr>, n)"
        using False seal(1) by (simp add: simps chunk_def [symmetric] Let_def)
      moreover have "sch_writes plain cipher wire t (wire n) s sent (- 1, t1\<lparr>sch_lasterror := ret\<rparr>, n)"
        using seal(5) err by (auto simp: sch_writes_def intro!: exI [of _ 0])
      ultimately show ?thesis by blast
    next
      case True
      note seal4 = seal(4) [OF True]
      have same: "sch_hctxt (t1\<lparr>sendbufferpos := 0\<rparr>) = sch_hctxt t1" by simp
      obtain r t2 n2 where c: "sch_tls_clear_pending_write pf (t1\<lparr>sendbufferpos := 0\<rparr>) n = Some (r, t2, n2)" "sch_write_ok t2"
          "wire n2 @ sch_unsent t2 = wire n @ area" "sch_hctxt t2 = sch_hctxt t1" "r \<in> {- 1, 0, 1}" "r = 1 \<Longrightarrow> sch_unsent t2 = []"
        using sch_clear_ok [OF assms(1) seal(2), of n] unfolding seal(3) same by metis
      have p2: "sch_plain f t2 = sch_plain f t1" for f using c(4) by (simp add: sch_plain_def)
      note step = simps [unfolded chunk_def [symmetric]]
      consider "r = - 1" "\<not> sch_tls_is_recoverable (sch_tls_error t2)" | "r = 0 \<or> r = - 1" "r = - 1 \<longrightarrow> sch_tls_is_recoverable (sch_tls_error t2)"
        | "r = 1" using c(5) by auto
      then show ?thesis
      proof cases
        case 1
        then have "sch_write_loop pf sp s sent t n = Some (- 1, t2, n2)" using False seal(1) True c(1) by (simp add: step Let_def)
        moreover have "sch_writes plain cipher wire t (wire n) s sent (- 1, t2, n2)"
          using 1 c seal4 ch by (auto simp: sch_writes_def p2 sch_tls_error_def intro!: exI [of _ "length chunk"])
        ultimately show ?thesis by blast
      next
        case 2
        then have "sch_write_loop pf sp s sent t n = Some (int (sent + length chunk), t2, n2)"
          using False seal(1) True c(1) by (auto simp: step Let_def)
        moreover have "sch_writes plain cipher wire t (wire n) s sent (int (sent + length chunk), t2, n2)"
          using 2 c seal4 ch by (auto simp: sch_writes_def p2 intro!: exI [of _ "length chunk"])
        ultimately show ?thesis by blast
      next
        case 3
        then have u: "sch_unsent t2 = []" "wire n2 = wire n @ area" using c(3,6) by auto
        have "length (drop (length chunk) s) < length s" using ch False by simp
        from less.hyps [OF this c(2) u(1), of "sent + length chunk" n2] obtain result
          where res: "sch_write_loop pf sp (drop (length chunk) s) (sent + length chunk) t2 n2 = Some result"
            and ok: "sch_writes plain cipher wire t2 (wire n2) (drop (length chunk) s) (sent + length chunk) result" by blast
        obtain r3 t3 n3 where r3: "result = (r3, t3, n3)" by (cases result)
        have go: "sch_write_loop pf sp s sent t n = Some (r3, t3, n3)"
          using False seal(1) True c(1) 3 res r3 by (simp add: step Let_def)
        from ok [unfolded r3 sch_writes_def prod.case] obtain d new
          where d: "d \<le> length (drop (length chunk) s)" "sch_plain plain t3 = sch_plain plain t2 @ take d (drop (length chunk) s)"
            "sch_plain cipher t3 = sch_plain cipher t2 @ new"
            and rest: "r3 = int (sent + length chunk + d) \<and> sch_write_ok t3 \<and> wire n3 @ sch_unsent t3 = wire n2 @ new \<or>
              r3 = - 1 \<and> \<not> sch_tls_is_recoverable (sch_lasterror t3) \<and> sch_write_ok t3 \<and> wire n3 @ sch_unsent t3 = wire n2 @ new \<or>
              r3 = - 1 \<and> sch_lasterror t3 \<noteq> SEC_E_OK \<and> wire n3 = wire n2 @ new"
          by blast
        have "take (length chunk + d) s = chunk @ take d (drop (length chunk) s)" using ch(3) by (simp add: take_add)
        then have "sch_writes plain cipher wire t (wire n) s sent (r3, t3, n3)"
          unfolding sch_writes_def prod.case
          using d rest u(2) seal4 ch(4) by (intro exI [of _ "length chunk + d"] exI [of _ "area @ new"]) (auto simp: p2)
        then show ?thesis using go by blast
      qed
    qed
  qed
qed


text \<open>A failed encryption leaves the areas as they were, the data among them, with their length set: they count as pending.\<close>

lemma slow_takes: "takes slow_platform (\<lambda>n. n)"
  by (auto simp: takes_def slow_platform_def min_def)

lemma two_bytes_encrypts: "encrypts two_bytes fst snd"
  by (auto simp: encrypts_def two_bytes_def sec_defs Let_def)


text \<open>
   When the encryption of the first message of a write fails and leaves the data as it was, the write reports an
  error, and what the object then holds as pending is the data itself: the next \<open>tls_clear_pending_write\<close> hands it to the
  socket without encryption.
\<close>

theorem sch_failed_encryption_leaks:
  assumes "sch_write_ok t" "sch_unsent t = []" "s \<noteq> []" "length s \<le> cbMaximumMessage t"
    "sp_encrypt sp (the (sch_hctxt t)) (cbHeader t) s (cbTrailer t) = (e, h @ s @ tr, k)" "e \<noteq> SEC_E_OK"
    "length h = cbHeader t" "length tr = cbTrailer t"
  shows "\<exists>t'. sch_tls_write pf sp t s n = Some (- 1, t', n) \<and> sch_tls_error t' = e \<and>
    sch_unsent t' = h @ s @ tr \<and>
    (\<forall>n ret n'. sys_send pf (sch_sock t) (h @ s @ tr) n = (ret, n') \<longrightarrow>
      (\<exists>r t''. sch_tls_clear_pending_write pf t' n = Some (r, t'', n')))"
proof -
  obtain b kk where b: "sendbuffer t = Some b" "sch_hctxt t = Some kk" "length b = cbHeader t + cbMaximumMessage t + cbTrailer t"
    using assms(1) by (auto simp: sch_write_ok_def)
  let ?len = "cbHeader t + length s + cbTrailer t"
  have idle: "\<not> sendbufferpos t < sendbufferlen t"
    using assms(1,2) b by (auto simp: sch_unsent_def sch_write_ok_def)
  obtain b1 where b1: "blit b (cbHeader t) s = Some b1" "length b1 = length b" using b(3) assms(4) by (simp add: blit_in)
  define b2 where "b2 = (h @ s @ tr) @ drop (length (h @ s @ tr)) b1"
  have "blit b1 0 (h @ s @ tr) = Some b2"
    using assms(4,7,8) b(3) b1(2) by (simp only: blit_in b2_def) (simp add: blit_def)
  then have seal: "sch_seal sp s (t\<lparr>sendbufferpos := 0, sendbufferlen := 0\<rparr>) =
      Some (e, t\<lparr>sendbufferpos := 0, sendbuffer := Some b2, sendbufferlen := ?len, sch_hctxt := Some k\<rparr>)"
    using b(1,2) b1(1) assms(5) by (simp add: sch_seal_def)
  define t' where "t' = t\<lparr>sendbufferpos := 0, sendbuffer := Some b2, sendbufferlen := ?len, sch_hctxt := Some k, sch_lasterror := e\<rparr>"
  have "sch_tls_write pf sp t s n = Some (- 1, t', n)"
    using idle seal assms(3,4,6)
    by (simp add: sch_tls_write_def sch_tls_clear_pending_write_def [of pf t] sch_write_loop.simps [of pf sp s] t'_def)
  moreover have "sch_tls_clear_pending_write pf t' m \<noteq> None \<and> snd (snd (the (sch_tls_clear_pending_write pf t' m))) = m'"
    if "sys_send pf (sch_sock t) (h @ s @ tr) m = (ret, m')" for m ret m'
  proof -
    have "take ?len b2 = h @ s @ tr" using assms(7,8) by (simp add: b2_def)
    moreover have "0 < ?len" using assms(3) by simp
    moreover have "sendbufferpos t' = 0" "sendbufferlen t' = ?len" "sendbuffer t' = Some b2" "sch_sock t' = sch_sock t"
      by (simp_all add: t'_def)
    ultimately show ?thesis using that by (simp add: sch_tls_clear_pending_write_def [of pf t'] sock_write_def Let_def)
  qed
  moreover have "sch_unsent t' = h @ s @ tr" using assms(7,8) by (simp add: sch_unsent_def t'_def b2_def)
  moreover have "sch_tls_error t' = e" by (simp add: sch_tls_error_def t'_def)
  ultimately show ?thesis by fastforce
qed

definition no_cipher :: "(string \<times> string) sspi" where
  "no_cipher = two_bytes\<lparr>sp_encrypt := (\<lambda>k h chunk tr. (SEC_I_RENEGOTIATE, replicate h (CHR ''!'') @ chunk @ replicate tr (CHR ''!''), k))\<rparr>"

theorem sch_failed_encryption_leaks_witness:
  "\<exists>t'. sch_tls_write slow_platform no_cipher sample_sch ''a'' [] = Some (- 1, t', []) \<and> sch_unsent t' = ''!a''"
proof -
  have ok: "sch_write_ok sample_sch" "sch_unsent sample_sch = []" "length ''a'' \<le> cbMaximumMessage sample_sch"
    by (simp_all add: sch_write_ok_def sch_unsent_def sample_sch_def sch_tls_zero_def)
  have "sp_encrypt no_cipher (the (sch_hctxt sample_sch)) (cbHeader sample_sch) ''a'' (cbTrailer sample_sch) =
      (SEC_I_RENEGOTIATE, ''!'' @ ''a'' @ [], ([], []))"
    by (simp add: no_cipher_def sample_sch_def sch_tls_zero_def)
  from sch_failed_encryption_leaks [OF ok(1,2) _ ok(3) this, of slow_platform "[]"] show ?thesis
    by (auto simp: sec_defs sample_sch_def sch_tls_zero_def)
qed

end
