(* ===== verification/Tls_Wrappers.thy ===== *)
theory Tls_Wrappers
  imports Tls_Schannel Login_Facts
begin

section \<open>The other TLS wrappers, and how TLS is started\<close>

text \<open>
  Models \<open>src/tls_openssl.c\<close>, \<open>src/tls_gnutls.c\<close> and \<open>src/tls_dummy.c\<close>, whose libraries are parameters,
  and composes each wrapper with \<open>_handle_proceedtls_default\<close> of \<open>auth.c\<close>, which takes every result of
  \<open>tls_start\<close> but \<open>0\<close> for an established connection.  The functions have a prefix for their wrapper.
\<close>

subsection \<open>OpenSSL\<close>

definition SSL_ERROR_NONE :: int where "SSL_ERROR_NONE = 0"
definition SSL_ERROR_WANT_READ :: int where "SSL_ERROR_WANT_READ = 2"
definition SSL_ERROR_WANT_WRITE :: int where "SSL_ERROR_WANT_WRITE = 3"
definition SSL_ERROR_WANT_CONNECT :: int where "SSL_ERROR_WANT_CONNECT = 7"
definition SSL_ERROR_WANT_ACCEPT :: int where "SSL_ERROR_WANT_ACCEPT = 8"

lemmas ssl_error_defs = SSL_ERROR_NONE_def SSL_ERROR_WANT_READ_def SSL_ERROR_WANT_WRITE_def
  SSL_ERROR_WANT_CONNECT_def SSL_ERROR_WANT_ACCEPT_def

text \<open>
  The library works on an \<open>SSL\<close> object of any type, and on the state of the network.  \<open>o_new\<close> is the object that
  \<open>SSL_new\<close> makes in a context with the modes that are set; it is \<open>None\<close> when the context or the object cannot be made,
  which the wrapper does not look at.
\<close>

record ('s, 'n) openssl =
  o_new :: "'s option"
  o_set_fd :: "'s \<Rightarrow> int \<Rightarrow> int \<times> 's"
  o_get_error :: "'s \<Rightarrow> int \<Rightarrow> int"
  o_connect :: "'s \<Rightarrow> 'n \<Rightarrow> int \<times> 's \<times> 'n"
  o_shutdown :: "'s \<Rightarrow> 'n \<Rightarrow> int \<times> 's \<times> 'n"
  o_pending :: "'s \<Rightarrow> int"
  o_read :: "'s \<Rightarrow> nat \<Rightarrow> 'n \<Rightarrow> int \<times> string \<times> 's \<times> 'n"
  o_write :: "'s \<Rightarrow> string \<Rightarrow> 'n \<Rightarrow> int \<times> 's \<times> 'n"

record 's ossl_tls =
  ossl_sock :: int
  ossl_ssl :: 's
  ossl_lasterror :: int

definition ossl_tls_error :: "'s ossl_tls \<Rightarrow> int" where
  "ossl_tls_error t = ossl_lasterror t"

text \<open>The outer option is undefined behaviour, the inner one the handle.\<close>

definition ossl_tls_new :: "('s, 'n) openssl \<Rightarrow> mem \<Rightarrow> int \<Rightarrow> ('s ossl_tls option \<times> mem) option" where
  "ossl_tls_new lib m sock = (case xmpp_alloc m of (ok, m) \<Rightarrow>
     if ok then do {
       s \<leftarrow> o_new lib;
       let (ret, s) = o_set_fd lib s sock;
       Some (if ret \<le> 0 then None else Some \<lparr> ossl_sock = sock, ossl_ssl = s, ossl_lasterror = 0 \<rparr>, m) }
     else Some (None, m))"

definition ossl_tls_set_credentials :: "'s ossl_tls \<Rightarrow> string \<Rightarrow> int" where
  "ossl_tls_set_credentials t cafilename = - 1"

text \<open>The loop around \<open>SSL_connect\<close>, which waits a millisecond between its calls.\<close>

partial_function (option) ossl_connect_loop ::
    "('s, 'n) openssl \<Rightarrow> ('x, 'n) platform \<Rightarrow> 's ossl_tls \<Rightarrow> 'n \<Rightarrow> (int \<times> 's ossl_tls \<times> 'n) option" where
  "ossl_connect_loop lib pf t n =
     (case o_connect lib (ossl_ssl t) n of (ret, s, n) \<Rightarrow>
        let t = t\<lparr>ossl_ssl := s\<rparr>
        in if ret = - 1 then
             (case sys_select pf (ossl_sock t + 1) [ossl_sock t] [ossl_sock t] (0, 1000) n of (_, _, _, n) \<Rightarrow>
                ossl_connect_loop lib pf t n)
           else Some (ret, t, n))"

definition ossl_tls_start ::
    "('s, 'n) openssl \<Rightarrow> ('x, 'n) platform \<Rightarrow> 's ossl_tls \<Rightarrow> 'n \<Rightarrow> (int \<times> 's ossl_tls \<times> 'n) option" where
  "ossl_tls_start lib pf t n = do {
     (ret, t, n) \<leftarrow> ossl_connect_loop lib pf t n;
     if ret \<le> 0 then Some (0, t\<lparr>ossl_lasterror := o_get_error lib (ossl_ssl t) ret\<rparr>, n)
     else Some (1, t, n) }"

definition ossl_tls_stop :: "('s, 'n) openssl \<Rightarrow> 's ossl_tls \<Rightarrow> 'n \<Rightarrow> int \<times> 's ossl_tls \<times> 'n" where
  "ossl_tls_stop lib t n = (case o_shutdown lib (ossl_ssl t) n of (ret, s, n) \<Rightarrow>
     let t = t\<lparr>ossl_ssl := s\<rparr>
     in if ret \<le> 0 then (0, t\<lparr>ossl_lasterror := o_get_error lib s ret\<rparr>, n) else (1, t, n))"

definition ossl_tls_is_recoverable :: "int \<Rightarrow> bool" where
  "ossl_tls_is_recoverable error \<longleftrightarrow>
     error = SSL_ERROR_NONE \<or> error = SSL_ERROR_WANT_READ \<or> error = SSL_ERROR_WANT_WRITE \<or>
     error = SSL_ERROR_WANT_CONNECT \<or> error = SSL_ERROR_WANT_ACCEPT"

definition ossl_tls_pending :: "('s, 'n) openssl \<Rightarrow> 's ossl_tls \<Rightarrow> int" where
  "ossl_tls_pending lib t = o_pending lib (ossl_ssl t)"

definition ossl_tls_read :: "('s, 'n) openssl \<Rightarrow> 's ossl_tls \<Rightarrow> nat \<Rightarrow> 'n \<Rightarrow> int \<times> string \<times> 's ossl_tls \<times> 'n" where
  "ossl_tls_read lib t len n = (case o_read lib (ossl_ssl t) len n of (ret, data, s, n) \<Rightarrow>
     let t = t\<lparr>ossl_ssl := s\<rparr>
     in (ret, data, if ret \<le> 0 then t\<lparr>ossl_lasterror := o_get_error lib s ret\<rparr> else t, n))"

definition ossl_tls_write :: "('s, 'n) openssl \<Rightarrow> 's ossl_tls \<Rightarrow> string \<Rightarrow> 'n \<Rightarrow> int \<times> 's ossl_tls \<times> 'n" where
  "ossl_tls_write lib t buff n = (case o_write lib (ossl_ssl t) buff n of (ret, s, n) \<Rightarrow>
     let t = t\<lparr>ossl_ssl := s\<rparr>
     in (ret, if ret \<le> 0 then t\<lparr>ossl_lasterror := o_get_error lib s ret\<rparr> else t, n))"

definition ossl_tls_clear_pending_write :: "'s ossl_tls \<Rightarrow> int" where
  "ossl_tls_clear_pending_write t = 0"

subsection \<open>GnuTLS\<close>

text \<open>A session of any type, with its socket and priorities set, and the credentials that are made for it.\<close>

record ('s, 'c, 'n) gnutls =
  g_init :: "int \<Rightarrow> 's"
  g_allocate_credentials :: 'c
  g_set_trust_file :: "'c \<Rightarrow> string \<Rightarrow> int \<times> 'c"
  g_credentials_set :: "'s \<Rightarrow> 'c \<Rightarrow> int \<times> 's"
  g_handshake :: "'s \<Rightarrow> 'n \<Rightarrow> int \<times> 's \<times> 'n"
  g_bye :: "'s \<Rightarrow> 'n \<Rightarrow> int \<times> 's \<times> 'n"
  g_check_pending :: "'s \<Rightarrow> int"
  g_recv :: "'s \<Rightarrow> nat \<Rightarrow> 'n \<Rightarrow> int \<times> string \<times> 's \<times> 'n"
  g_send :: "'s \<Rightarrow> string \<Rightarrow> 'n \<Rightarrow> int \<times> 's \<times> 'n"

record ('s, 'c) gnu_tls =
  gnu_sock :: int
  gnu_session :: 's
  gnu_cred :: 'c

definition gnu_tls_new :: "('s, 'c, 'n) gnutls \<Rightarrow> mem \<Rightarrow> int \<Rightarrow> ('s, 'c) gnu_tls option \<times> mem" where
  "gnu_tls_new lib m sock = (case xmpp_alloc m of (ok, m) \<Rightarrow>
     (if ok then Some \<lparr> gnu_sock = sock, gnu_session = g_init lib sock, gnu_cred = g_allocate_credentials lib \<rparr> else None, m))"

definition gnu_tls_set_credentials :: "('s, 'c, 'n) gnutls \<Rightarrow> ('s, 'c) gnu_tls \<Rightarrow> string \<Rightarrow> int \<times> ('s, 'c) gnu_tls" where
  "gnu_tls_set_credentials lib t cafilename =
     (case g_set_trust_file lib (gnu_cred t) cafilename of (err, cred) \<Rightarrow>
        let t = t\<lparr>gnu_cred := cred\<rparr>
        in if err < 0 then (err, t)
           else (case g_credentials_set lib (gnu_session t) cred of (err, s) \<Rightarrow> (err, t\<lparr>gnu_session := s\<rparr>)))"

definition gnu_tls_start :: "('s, 'c, 'n) gnutls \<Rightarrow> ('s, 'c) gnu_tls \<Rightarrow> 'n \<Rightarrow> int \<times> ('s, 'c) gnu_tls \<times> 'n" where
  "gnu_tls_start lib t n = (case g_handshake lib (gnu_session t) n of (ret, s, n) \<Rightarrow> (ret, t\<lparr>gnu_session := s\<rparr>, n))"

definition gnu_tls_stop :: "('s, 'c, 'n) gnutls \<Rightarrow> ('s, 'c) gnu_tls \<Rightarrow> 'n \<Rightarrow> int \<times> ('s, 'c) gnu_tls \<times> 'n" where
  "gnu_tls_stop lib t n = (case g_bye lib (gnu_session t) n of (ret, s, n) \<Rightarrow> (ret, t\<lparr>gnu_session := s\<rparr>, n))"

definition gnu_tls_error :: "('s, 'c) gnu_tls \<Rightarrow> int" where
  "gnu_tls_error t = 0"

definition gnu_tls_pending :: "('s, 'c, 'n) gnutls \<Rightarrow> ('s, 'c) gnu_tls \<Rightarrow> int" where
  "gnu_tls_pending lib t = g_check_pending lib (gnu_session t)"

definition gnu_tls_read :: "('s, 'c, 'n) gnutls \<Rightarrow> ('s, 'c) gnu_tls \<Rightarrow> nat \<Rightarrow> 'n \<Rightarrow> int \<times> string \<times> ('s, 'c) gnu_tls \<times> 'n" where
  "gnu_tls_read lib t len n = (case g_recv lib (gnu_session t) len n of (ret, data, s, n) \<Rightarrow> (ret, data, t\<lparr>gnu_session := s\<rparr>, n))"

definition gnu_tls_write :: "('s, 'c, 'n) gnutls \<Rightarrow> ('s, 'c) gnu_tls \<Rightarrow> string \<Rightarrow> 'n \<Rightarrow> int \<times> ('s, 'c) gnu_tls \<times> 'n" where
  "gnu_tls_write lib t buff n = (case g_send lib (gnu_session t) buff n of (ret, s, n) \<Rightarrow> (ret, t\<lparr>gnu_session := s\<rparr>, n))"

subsection \<open>The dummy\<close>

typedecl dummy_tls

definition dummy_tls_new :: "int \<Rightarrow> dummy_tls option" where
  "dummy_tls_new sock = None"

definition dummy_tls_set_credentials :: "dummy_tls \<Rightarrow> string \<Rightarrow> int" where
  "dummy_tls_set_credentials t cafilename = - 1"

definition dummy_tls_start :: "dummy_tls option \<Rightarrow> int" where
  "dummy_tls_start t = - 1"

definition dummy_tls_stop :: "dummy_tls \<Rightarrow> int" where
  "dummy_tls_stop t = - 1"

definition dummy_tls_error :: "dummy_tls \<Rightarrow> int" where
  "dummy_tls_error t = 0"

definition dummy_tls_pending :: "dummy_tls \<Rightarrow> int" where
  "dummy_tls_pending t = 0"

definition dummy_tls_read :: "dummy_tls \<Rightarrow> nat \<Rightarrow> int \<times> string" where
  "dummy_tls_read t len = (- 1, [])"

definition dummy_tls_write :: "dummy_tls \<Rightarrow> string \<Rightarrow> int" where
  "dummy_tls_write t buff = - 1"

definition dummy_tls_clear_pending_write :: "dummy_tls \<Rightarrow> int" where
  "dummy_tls_clear_pending_write t = - 1"

definition dummy_tls_is_recoverable :: "int \<Rightarrow> bool" where
  "dummy_tls_is_recoverable error \<longleftrightarrow> False"

subsection \<open>When the handshake loop of OpenSSL ends\<close>

text \<open>The states that the loop goes through: from each, \<open>SSL_connect\<close> has returned \<open>- 1\<close>, and the socket was waited for.\<close>

inductive ossl_polls ::
    "('s, 'n) openssl \<Rightarrow> ('x, 'n) platform \<Rightarrow> int \<Rightarrow> 's \<Rightarrow> 'n \<Rightarrow> 's \<Rightarrow> 'n \<Rightarrow> bool"
  for lib :: "('s, 'n) openssl" and pf :: "('x, 'n) platform" and sock :: int where
  polls_none: "ossl_polls lib pf sock s n s n"
| polls_again: "o_connect lib s n = (- 1, s1, n1) \<Longrightarrow> sys_select pf (sock + 1) [sock] [sock] (0, 1000) n1 = (r, rs, ws, n2) \<Longrightarrow>
    ossl_polls lib pf sock s1 n2 s' n' \<Longrightarrow> ossl_polls lib pf sock s n s' n'"

lemma connect_loop_polls:
  assumes "ossl_connect_loop lib pf t n = Some (ret, t', n')"
  shows "ret \<noteq> - 1 \<and> (\<exists>s1 n1. ossl_polls lib pf (ossl_sock t) (ossl_ssl t) n s1 n1 \<and>
    o_connect lib s1 n1 = (ret, ossl_ssl t', n') \<and> t' = t\<lparr>ossl_ssl := ossl_ssl t'\<rparr>)"
proof -
  let ?P = "\<lambda>lib pf t n (ret, t', n'). ret \<noteq> - 1 \<and> (\<exists>s1 n1. ossl_polls lib pf (ossl_sock t) (ossl_ssl t) n s1 n1 \<and>
    o_connect lib s1 n1 = (ret, ossl_ssl t', n') \<and> t' = t\<lparr>ossl_ssl := ossl_ssl t'\<rparr>)"
  have "?P lib pf t n (ret, t', n')"
  proof (rule ossl_connect_loop.raw_induct [where P = ?P, OF _ assms])
    fix loop lib pf t n result
    assume IH: "\<And>lib pf t n y. loop lib pf t n = Some y \<Longrightarrow> ?P lib pf t n y"
      and step: "(case o_connect lib (ossl_ssl t) n of (ret, s, n) \<Rightarrow> let t = t\<lparr>ossl_ssl := s\<rparr>
         in if ret = - 1 then (case sys_select pf (ossl_sock t + 1) [ossl_sock t] [ossl_sock t] (0, 1000) n of (_, _, _, n) \<Rightarrow>
                loop lib pf t n) else Some (ret, t, n)) = Some result"
    obtain r s1 n1 where c: "o_connect lib (ossl_ssl t) n = (r, s1, n1)" by (cases "o_connect lib (ossl_ssl t) n") auto
    show "?P lib pf t n result"
    proof (cases "r = - 1")
      case False
      then show ?thesis using step c by (auto simp: Let_def intro!: exI polls_none)
    next
      case True
      obtain r2 rs ws n2 where s: "sys_select pf (ossl_sock t + 1) [ossl_sock t] [ossl_sock t] (0, 1000) n1 = (r2, rs, ws, n2)"
        by (cases "sys_select pf (ossl_sock t + 1) [ossl_sock t] [ossl_sock t] (0, 1000) n1") auto
      have "loop lib pf (t\<lparr>ossl_ssl := s1\<rparr>) n2 = Some result" using step c True s by (simp add: Let_def)
      from IH [OF this] show ?thesis using polls_again [OF c [unfolded True] s] by (cases result) auto
    qed
  qed
  then show ?thesis by simp
qed

lemma polls_connect_loop:
  assumes "ossl_polls lib pf sock s n s1 n1" "o_connect lib s1 n1 = (ret, s', n')" "ret \<noteq> - 1"
  shows "ossl_sock t = sock \<Longrightarrow> ossl_ssl t = s \<Longrightarrow> ossl_connect_loop lib pf t n = Some (ret, t\<lparr>ossl_ssl := s'\<rparr>, n')"
  using assms
proof (induction arbitrary: t rule: ossl_polls.induct)
  case (polls_none s n)
  then show ?case by (simp add: ossl_connect_loop.simps [of lib pf t n] Let_def)
next
  case (polls_again s n s2 n2 r rs ws n3 s1 n1)
  have "ossl_connect_loop lib pf (t\<lparr>ossl_ssl := s2\<rparr>) n3 = Some (ret, (t\<lparr>ossl_ssl := s2\<rparr>)\<lparr>ossl_ssl := s'\<rparr>, n')"
    using polls_again by simp
  then show ?case using polls_again by (simp add: ossl_connect_loop.simps [of lib pf t n] Let_def)
qed

text \<open>
  Claim C36.  With OpenSSL, \<open>tls_start\<close> returns exactly when one of the calls of \<open>SSL_connect\<close> that it makes, a
  millisecond apart, has a result other than \<open>- 1\<close>; it reports success exactly when that result is positive.  As
  \<open>SSL_connect\<close> returns \<open>- 1\<close> for fatal errors, too, the loop does not end after one.
\<close>

theorem ossl_start_returns_iff:
  "(\<exists>t' n'. ossl_tls_start lib pf t n = Some (ret, t', n')) \<longleftrightarrow>
    (\<exists>s1 n1 r s' n'. ossl_polls lib pf (ossl_sock t) (ossl_ssl t) n s1 n1 \<and> o_connect lib s1 n1 = (r, s', n') \<and>
       r \<noteq> - 1 \<and> ret = (if r > 0 then 1 else 0))" (is "?returns \<longleftrightarrow> ?polls")
proof
  assume ?returns
  then obtain r t1 n1 where loop: "ossl_connect_loop lib pf t n = Some (r, t1, n1)" and "ret = (if r > 0 then 1 else 0)"
    by (auto simp: ossl_tls_start_def split: bind_splits if_splits)
  then show ?polls using connect_loop_polls [OF loop] by blast
next
  assume ?polls
  then show ?returns using polls_connect_loop [of lib pf "ossl_sock t" "ossl_ssl t" n _ _ _ _ _ t]
    by (fastforce simp: ossl_tls_start_def)
qed

text \<open>An object for which \<open>SSL_connect\<close> fails with \<open>- 1\<close> whenever it is called: the loop never ends.\<close>

lemma ossl_start_spins:
  assumes "\<And>n. fst (o_connect lib s n) = - 1 \<and> fst (snd (o_connect lib s n)) = s" "ossl_ssl t = s"
  shows "ossl_tls_start lib pf t n = None"
proof (rule ccontr)
  assume "ossl_tls_start lib pf t n \<noteq> None"
  then obtain r t1 n1 where loop: "ossl_connect_loop lib pf t n = Some (r, t1, n1)"
    by (auto simp: ossl_tls_start_def split: bind_splits)
  have stay: "ossl_polls lib pf sock s0 n s' n' \<Longrightarrow> s0 = s \<Longrightarrow> s' = s" for sock s0 n s' n'
    by (induction rule: ossl_polls.induct) (metis assms(1) fst_conv snd_conv)+
  then show False using connect_loop_polls [OF loop] assms by (metis fst_conv)
qed

subsection \<open>Starting TLS on a connection\<close>

text \<open>
  The environment of a connection with each wrapper: its \<open>tls_new\<close> and its \<open>tls_start\<close>, in the network state \<open>n\<close>.  A
  \<open>tls_new\<close> that does not survive is left to \<open>tls_start\<close>, and \<open>tls_start\<close> does not survive a handle that is \<open>NULL\<close>,
  but for the dummy.
\<close>

definition ossl_environ :: "('s, 'n) openssl \<Rightarrow> ('x, 'n) platform \<Rightarrow> 'n \<Rightarrow> environ \<Rightarrow> environ" where
  "ossl_environ lib pf n en = en\<lparr>
     en_tls_new := (\<lambda>c. case ossl_tls_new lib (hc_mem c) (conn_sock c) of Some (None, _) \<Rightarrow> False | _ \<Rightarrow> True),
     en_tls_start := (\<lambda>h c. do {
       (t, _) \<leftarrow> ossl_tls_new lib (hc_mem c) (conn_sock c);
       t \<leftarrow> (if h then t else None);
       (ret, _, _) \<leftarrow> ossl_tls_start lib pf t n;
       Some (ret \<noteq> 0) })\<rparr>"

definition sch_environ ::
    "char \<Rightarrow> ('x, 'n) platform \<Rightarrow> sch_system \<Rightarrow> 'k sspi \<Rightarrow> (int \<times> string option) list \<Rightarrow> 'n \<Rightarrow> environ \<Rightarrow> environ" where
  "sch_environ junk pf sys sp conns n en = en\<lparr>
     en_tls_new := (\<lambda>c. fst (sch_tls_new sys (hc_mem c) (conn_sock c) :: 'k sch_tls option \<times> _) \<noteq> None),
     en_tls_start := (\<lambda>h c. do {
       t \<leftarrow> (if h then fst (sch_tls_new sys (hc_mem c) (conn_sock c)) else None);
       (ret, _, _) \<leftarrow> sch_tls_start junk pf sp conns t n;
       Some (ret \<noteq> 0) })\<rparr>"

definition gnu_environ :: "('s, 'c, 'n) gnutls \<Rightarrow> 'n \<Rightarrow> environ \<Rightarrow> environ" where
  "gnu_environ lib n en = en\<lparr>
     en_tls_new := (\<lambda>c. fst (gnu_tls_new lib (hc_mem c) (conn_sock c)) \<noteq> None),
     en_tls_start := (\<lambda>h c. do {
       t \<leftarrow> (if h then fst (gnu_tls_new lib (hc_mem c) (conn_sock c)) else None);
       (case gnu_tls_start lib t n of (ret, _, _) \<Rightarrow> Some (ret \<noteq> 0)) })\<rparr>"

definition dummy_environ :: "environ \<Rightarrow> environ" where
  "dummy_environ en = en\<lparr>
     en_tls_new := (\<lambda>c. dummy_tls_new (conn_sock c) \<noteq> None),
     en_tls_start := (\<lambda>h c. Some (dummy_tls_start (dummy_tls_new (conn_sock c)) \<noteq> 0))\<rparr>"

text \<open>A stanza \<open>proceed\<close> turns \<open>secured\<close> on exactly when \<open>tls_start\<close> does not return \<open>0\<close>.\<close>

lemma proceedtls_started:
  assumes "handle_proceedtls_default en c s = Some (b, c')" "\<not> secured c" "secured c'"
  obtains "en_tls_start en (en_tls_new en c) (c\<lparr>conn_tls := en_tls_new en c\<rparr>) = Some True"
    "conn_open_stream (conn_prepare_reset (c\<lparr>conn_tls := en_tls_new en c, secured := True\<rparr>) Auth_handle_open) = Some c'"
proof -
  have disc: "\<not> secured d" if "xmpp_disconnect (c\<lparr>conn_tls := False, tls_failed := True\<rparr>) = Some d" for d
    using keepsD [OF keeps_disconnect that] assms(2) by (simp add: flags_def)
  show thesis
    using assms disc that by (auto simp: handle_proceedtls_default_def Let_def split: if_splits bind_splits)
qed

text \<open>
  Claim C7.  A connection that becomes secured with OpenSSL has a completed handshake: the calls of \<open>SSL_connect\<close> that
  \<open>tls_start\<close> made for it ended with a positive result, on the object that was made for its socket.
\<close>

theorem openssl_secured_handshake:
  assumes "handle_proceedtls_default (ossl_environ lib pf n en) c s = Some (b, c')" "\<not> secured c" "secured c'"
  shows "\<exists>t m s1 n1 r s' n'. ossl_tls_new lib (hc_mem c) (conn_sock c) = Some (Some t, m) \<and>
    ossl_polls lib pf (conn_sock c) (ossl_ssl t) n s1 n1 \<and> o_connect lib s1 n1 = (r, s', n') \<and> r > 0"
proof -
  let ?en = "ossl_environ lib pf n en"
  obtain t m where t: "ossl_tls_new lib (hc_mem c) (conn_sock c) = Some (Some t, m)"
      and start: "\<exists>ret t' n'. ossl_tls_start lib pf t n = Some (ret, t', n') \<and> ret \<noteq> 0"
    using assms by (rule proceedtls_started) (auto simp: ossl_environ_def split: bind_splits if_splits)
  obtain ret t' n' where r: "ossl_tls_start lib pf t n = Some (ret, t', n')" "ret \<noteq> 0" using start by blast
  obtain r t1 n1 where loop: "ossl_connect_loop lib pf t n = Some (r, t1, n1)" "r > 0"
    using r by (auto simp: ossl_tls_start_def split: bind_splits if_splits)
  have "ossl_sock t = conn_sock c" using t by (auto simp: ossl_tls_new_def split: bind_splits if_splits prod.splits)
  then show ?thesis using t connect_loop_polls [OF loop(1)] loop(2) by metis
qed

definition proceed_stanza :: stanza where
  "proceed_stanza = tag_node ''proceed'' []"

lemma proceed_name: "xmpp_stanza_get_name (s_node proceed_stanza) = Some ''proceed''"
  by (simp add: proceed_stanza_def tag_node_def xmpp_stanza_get_name_def)

lemma sample_conn_lists: "conn_lists sample_xmpp_conn [] []"
  by (simp add: sample_xmpp_simps conn_lists_def two_lists_def)

text \<open>A library whose handshake completes in the second call.\<close>

definition second_connect :: "(nat, string) openssl" where
  "second_connect = \<lparr> o_new = Some 0, o_set_fd = (\<lambda>s k. (1, s)), o_get_error = (\<lambda>s r. 5),
     o_connect = (\<lambda>s n. if s = 0 then (- 1, 1, n) else (1, s, n)), o_shutdown = (\<lambda>s n. (1, s, n)), o_pending = (\<lambda>s. 0),
     o_read = (\<lambda>s len n. (0, [], s, n)), o_write = (\<lambda>s d n. (0, s, n)) \<rparr>"

theorem openssl_secured_handshake_witness:
  "\<exists>c'. handle_proceedtls_default (ossl_environ second_connect slow_platform [] sample_environ) sample_xmpp_conn proceed_stanza =
      Some (False, c') \<and> secured c' \<and>
    (\<exists>s1 n1 r s' n'. ossl_polls second_connect slow_platform (conn_sock sample_xmpp_conn) 0 [] s1 n1 \<and>
       o_connect second_connect s1 n1 = (r, s', n') \<and> r > 0)"
proof -
  let ?en = "ossl_environ second_connect slow_platform [] sample_environ" and ?c = sample_xmpp_conn
  let ?t = "\<lparr> ossl_sock = conn_sock ?c, ossl_ssl = 0, ossl_lasterror = 0 \<rparr> :: nat ossl_tls"
  have c: "hc_mem ?c = []" "conn_state ?c = XMPP_STATE_CONNECTED" "domain ?c = Some ''d.org''" "lang ?c = Some ''en''" "\<not> secured ?c"
    by (simp_all add: sample_xmpp_simps)
  have new: "ossl_tls_new second_connect (hc_mem ?c) (conn_sock ?c) = Some (Some ?t, [])"
    by (simp add: ossl_tls_new_def c(1) second_connect_def)
  have step: "ossl_connect_loop second_connect slow_platform (t\<lparr>ossl_ssl := Suc 0\<rparr>) n = Some (1, t\<lparr>ossl_ssl := Suc 0\<rparr>, n)" for t n
    by (simp add: ossl_connect_loop.simps [of _ _ "t\<lparr>ossl_ssl := Suc 0\<rparr>"] second_connect_def Let_def)
  have "ossl_connect_loop second_connect slow_platform ?t [] = ossl_connect_loop second_connect slow_platform (?t\<lparr>ossl_ssl := Suc 0\<rparr>) []"
    by (subst ossl_connect_loop.simps) (simp add: second_connect_def slow_platform_def Let_def)
  then have start: "\<exists>t' n'. ossl_tls_start second_connect slow_platform ?t [] = Some (1, t', n')"
    unfolding step by (simp add: ossl_tls_start_def)
  define c1 where "c1 = conn_prepare_reset (?c\<lparr>conn_tls := True, secured := True\<rparr>) Auth_handle_open"
  have c1: "conn_state c1 = XMPP_STATE_CONNECTED" "hc_mem c1 = []" "domain c1 = Some ''d.org''" "lang c1 = Some ''en''" "secured c1"
    by (simp_all add: c1_def conn_prepare_reset_def c)
  obtain c' where open': "conn_open_stream c1 = Some c'" "secured c'"
    using send_raw_string_queues [OF stream_header_text c1(1,2)] c1(5)
    unfolding conn_open_stream_def c1(3,4) by (auto simp: xmpp_send_raw_queues [OF c1(1,2)])
  have "handle_proceedtls_default ?en ?c proceed_stanza = Some (False, c')"
    using new start open' proceed_name c(1)
    by (auto simp: handle_proceedtls_default_def ossl_environ_def c1_def)
  moreover from openssl_secured_handshake [OF this c(5) open'(2)] new
  have "\<exists>s1 n1 r s' n'. ossl_polls second_connect slow_platform (conn_sock ?c) 0 [] s1 n1 \<and>
      o_connect second_connect s1 n1 = (r, s', n') \<and> r > 0" by auto
  ultimately show ?thesis using open'(2) by blast
qed

text \<open>
  Claim C8.  With GnuTLS the outcomes are exchanged, as \<open>gnutls_handshake\<close> returns \<open>0\<close> for success: after a completed
  handshake the connection drops its TLS object, counts TLS as failed and closes the stream; after a failed one it
  counts as secured and opens a new stream.
\<close>

theorem gnutls_handshake_inverted:
  assumes "xmpp_stanza_get_name (s_node s) = Some ''proceed''" "conn_state c = XMPP_STATE_CONNECTED" "hc_mem c = []"
    "conn_lists c hs ts" "domain c = Some d" "lang c = Some l"
    "g_handshake lib (g_init lib (conn_sock c)) n = (r, session, n')"
  shows "(r = 0 \<longrightarrow> (\<exists>c'. handle_proceedtls_default (gnu_environ lib n en) c s = Some (False, c') \<and>
      xmpp_disconnect (c\<lparr>conn_tls := False, tls_failed := True\<rparr>) = Some c' \<and> secured c' = secured c \<and>
      map sq_data (send_queue c') = map sq_data (send_queue c) @ [''</stream:stream>''])) \<and>
    (r \<noteq> 0 \<longrightarrow> (\<exists>c'. handle_proceedtls_default (gnu_environ lib n en) c s = Some (False, c') \<and>
      secured c' \<and> conn_tls c' \<and> open_handler c' = Auth_handle_open \<and> map sq_data (send_queue c') = map sq_data (send_queue c) @
        [stream_header d l (if conn_type c = XMPP_CLIENT then XMPP_NS_CLIENT else XMPP_NS_COMPONENT)]))"
proof (intro conjI impI)
  let ?en = "gnu_environ lib n en"
  have new: "en_tls_new ?en c" using assms(3) by (simp add: gnu_environ_def gnu_tls_new_def)
  have start: "en_tls_start ?en True (c\<lparr>conn_tls := True\<rparr>) = Some (r \<noteq> 0)"
    using assms(3,7) by (simp add: gnu_environ_def gnu_tls_new_def gnu_tls_start_def)
  note h = handle_proceedtls_default_def [of ?en c s]
  {
    assume "r = 0"
    let ?c = "c\<lparr>conn_tls := False, tls_failed := True\<rparr>"
    have "hc_mem ?c = []" "conn_lists ?c hs ts" "conn_state ?c = XMPP_STATE_CONNECTED"
      using assms(2-4) by (simp_all add: conn_lists_def)
    from disconnect_connected [OF this] obtain c' where c': "xmpp_disconnect ?c = Some c'"
      "send_queue c' = send_queue ?c @ [\<lparr> sq_data = ''</stream:stream>'', sq_written = 0 \<rparr>]" by blast
    then show "\<exists>c'. handle_proceedtls_default ?en c s = Some (False, c') \<and>
        xmpp_disconnect (c\<lparr>conn_tls := False, tls_failed := True\<rparr>) = Some c' \<and> secured c' = secured c \<and>
        map sq_data (send_queue c') = map sq_data (send_queue c) @ [''</stream:stream>'']"
      using keepsD [OF keeps_disconnect c'(1)] new start assms(1) \<open>r = 0\<close>
      by (simp add: h flags_def)
  next
    assume "r \<noteq> 0"
    define c1 where "c1 = conn_prepare_reset (c\<lparr>conn_tls := True, secured := True\<rparr>) Auth_handle_open"
    have c1: "conn_state c1 = XMPP_STATE_CONNECTED" "hc_mem c1 = []" "domain c1 = Some d" "lang c1 = Some l"
        "conn_type c1 = conn_type c" "secured c1" "conn_tls c1" "open_handler c1 = Auth_handle_open" "send_queue c1 = send_queue c"
      using assms by (simp_all add: c1_def conn_prepare_reset_def)
    have "handle_proceedtls_default ?en c s = (case conn_open_stream c1 of None \<Rightarrow> None | Some c' \<Rightarrow> Some (False, c'))"
      using new start assms(1) \<open>r \<noteq> 0\<close> by (simp add: h c1_def split: option.splits)
    moreover have "conn_open_stream c1 = Some (xmpp_send_raw c1 (stream_header d l (if conn_type c = XMPP_CLIENT then XMPP_NS_CLIENT else XMPP_NS_COMPONENT)))"
      unfolding conn_open_stream_def c1(3-5) by (rule send_raw_string_queues [OF stream_header_text c1(1,2)])
    ultimately show "\<exists>c'. handle_proceedtls_default ?en c s = Some (False, c') \<and>
        secured c' \<and> conn_tls c' \<and> open_handler c' = Auth_handle_open \<and> map sq_data (send_queue c') = map sq_data (send_queue c) @
          [stream_header d l (if conn_type c = XMPP_CLIENT then XMPP_NS_CLIENT else XMPP_NS_COMPONENT)]"
      using c1 by (simp add: xmpp_send_raw_queues)
  }
qed

definition refusing_gnutls :: "(unit, unit, string) gnutls" where
  "refusing_gnutls = \<lparr> g_init = (\<lambda>k. ()), g_allocate_credentials = (), g_set_trust_file = (\<lambda>c f. (0, c)),
     g_credentials_set = (\<lambda>s c. (0, s)), g_handshake = (\<lambda>s n. (- 32, s, n)), g_bye = (\<lambda>s n. (0, s, n)),
     g_check_pending = (\<lambda>s. 0), g_recv = (\<lambda>s len n. (0, [], s, n)), g_send = (\<lambda>s d n. (0, s, n)) \<rparr>"

text \<open>The server breaks off the handshake, and the client goes on as if it were encrypted.\<close>

theorem gnutls_handshake_inverted_witness:
  "\<exists>c'. handle_proceedtls_default (gnu_environ refusing_gnutls [] sample_environ) sample_xmpp_conn proceed_stanza = Some (False, c') \<and>
    secured c' \<and> conn_tls c'"
proof -
  have "g_handshake refusing_gnutls (g_init refusing_gnutls (conn_sock sample_xmpp_conn)) [] = (- 32, (), [])"
    by (simp add: refusing_gnutls_def)
  from gnutls_handshake_inverted [OF proceed_name _ _ sample_conn_lists _ _ this, of "''d.org''" "''en''" sample_environ]
  show ?thesis by (auto simp: sample_xmpp_simps)
qed

end
