(* ===== verification/Dns_Windows.thy ===== *)
theory Dns_Windows
  imports Dns_Write
begin

section \<open>The SRV lookup on Windows\<close>

text \<open>
  Models \<open>sock_srv_lookup\<close> of \<open>src/sock.c\<close> as it is built on Windows: it asks \<open>dnsapi\<close>, and if that
  fails collects the addresses of name servers, from the network parameters, from the registry and from its
  interfaces, and sends each a query that it writes itself.  The system is a parameter; what its functions put into a
  buffer is the whole buffer afterwards.
\<close>

subsection \<open>The system\<close>

text \<open>
  \<open>w_dnsapi\<close> are the type, target and port of the records that \<open>DnsQuery_A\<close> gives, if the library is there and answers;
  \<open>w_query\<close> reads a value of a key into a buffer with a length; \<open>w_enum\<close> gives the name of a subkey; a path is the list of its parts.  \<open>w_names\<close> and
  \<open>w_arrays\<close> are what the buffers on the stack hold before they are used.
\<close>

record ('key, 'n) winsys =
  w_dnsapi :: "string \<Rightarrow> (nat \<times> string \<times> u16) list option"
  w_network_params :: "string list option"
  w_open :: "string list \<Rightarrow> 'key option"
  w_open_at :: "'key \<Rightarrow> string \<Rightarrow> 'key option"
  w_count :: "'key \<Rightarrow> nat"
  w_enum :: "'key \<Rightarrow> nat \<Rightarrow> string \<times> nat"
  w_query :: "'key \<Rightarrow> string \<Rightarrow> string \<Rightarrow> nat \<Rightarrow> bool \<times> string \<times> nat"
  w_names :: string
  w_arrays :: "string list"
  w_sendto :: "string \<Rightarrow> u8 list \<Rightarrow> 'n \<Rightarrow> 'n"
  w_recvfrom :: "'n \<Rightarrow> int \<times> u8 list \<times> 'n"
  w_errno :: "'n \<Rightarrow> int"
  w_sleep :: "'n \<Rightarrow> 'n"

definition NUL :: char where "NUL = CHR 0x00"

text \<open>A C string in an array of characters; reading on behind an array that holds none is undefined.\<close>

definition text_in :: "string \<Rightarrow> string option" where
  "text_in a = (if NUL \<in> set a then Some (takeWhile (\<lambda>c. c \<noteq> NUL) a) else None)"

subsection \<open>The name servers\<close>

text \<open>\<open>strchr(parse, c)\<close> finds the terminator, too.\<close>

definition in_parse :: "char \<Rightarrow> bool" where
  "in_parse c \<longleftrightarrow> c \<in> set ''0123456789.'' \<or> c = NUL"

function skip_while :: "(char \<Rightarrow> bool) \<Rightarrow> string \<Rightarrow> nat \<Rightarrow> nat option" where
  "skip_while test name p =
     (if p < length name then if test (name ! p) then skip_while test name (p + 1) else Some p
      else None)"
  by pat_completeness auto
termination by (relation "measure (\<lambda>(test, name, p). length name - p)") auto

declare skip_while.simps [simp del]

definition c_strncpy :: "string \<Rightarrow> string \<Rightarrow> nat \<Rightarrow> string option" where
  "c_strncpy dst s n = (let t = takeWhile (\<lambda>c. c \<noteq> NUL) (take n s) in blit dst 0 (t @ replicate (n - length t) NUL))"

text \<open>The loop over the addresses in \<open>name\<close>, from \<open>start\<close>; \<open>n\<close> of the arrays are filled.\<close>

function servers_loop :: "string \<Rightarrow> nat \<Rightarrow> string list \<Rightarrow> nat \<Rightarrow> (string list \<times> nat) option" where
  "servers_loop name start ips n =
     Option.bind (rd name start) (\<lambda>c.
       if c = NUL \<or> n \<ge> 16 then Some (ips, n)
       else Option.bind (skip_while in_parse name start) (\<lambda>stop.
            Option.bind (rd ips n) (\<lambda>ip.
            Option.bind (c_strncpy ip (drop start name) (stop - start)) (\<lambda>ip.
            Option.bind (skip_while (\<lambda>c. c \<noteq> NUL \<and> \<not> in_parse c) name stop) (\<lambda>start.
              servers_loop name start (ips[n := ip]) (n + 1))))))"
  by pat_completeness auto
termination by (relation "measure (\<lambda>(name, start, ips, n). 16 - n)") auto

declare servers_loop.simps [simp del]

definition parse_servers :: "string \<Rightarrow> nat \<Rightarrow> string list \<Rightarrow> nat \<Rightarrow> (string list \<times> nat) option" where
  "parse_servers name len ips n = do {
     name \<leftarrow> wr name len NUL;
     servers_loop name 0 ips n }"

text \<open>\<open>strcpy\<close> of the addresses of the network parameters, sixteen at most.\<close>

fun params_loop :: "string list \<Rightarrow> string list \<Rightarrow> nat \<Rightarrow> (string list \<times> nat) option" where
  "params_loop [] ips n = Some (ips, n)"
| "params_loop (a # as) ips n =
     (if n < 16 then do {
        ip \<leftarrow> rd ips n;
        ip \<leftarrow> blit ip 0 (a @ [NUL]);
        params_loop as (ips[n := ip]) (n + 1) }
      else Some (ips, n))"

definition params_servers :: "('key, 'n) winsys \<Rightarrow> string list \<Rightarrow> (string list \<times> nat) option" where
  "params_servers w ips = (case w_network_params w of None \<Rightarrow> Some (ips, 0) | Some as \<Rightarrow> params_loop as ips 0)"

definition registry_servers :: "('key, 'n) winsys \<Rightarrow> string list \<Rightarrow> nat \<Rightarrow> (string list \<times> nat) option" where
  "registry_servers w ips n =
     (case (case w_open w [''SYSTEM'', ''CurrentControlSet'', ''Services'', ''Tcpip'', ''Parameters''] of
              Some key \<Rightarrow> Some key
            | None \<Rightarrow> w_open w [''SYSTEM'', ''CurrentControlSet'', ''Services'', ''VxD'', ''MSTCP'']) of
        None \<Rightarrow> Some (ips, n)
      | Some key \<Rightarrow>
          (case w_query w key ''NameServer'' (w_names w) 512 of
             (True, name, len) \<Rightarrow> parse_servers name len ips n
           | (False, name, len) \<Rightarrow>
               (case w_query w key ''DhcpNameServer'' name len of
                  (True, name, len) \<Rightarrow> parse_servers name len ips n
                | (False, _, _) \<Rightarrow> Some (ips, n))))"

text \<open>The value is read into the buffer that holds the name of the interface, with the length of that name.\<close>

fun interfaces_loop :: "('key, 'n) winsys \<Rightarrow> 'key \<Rightarrow> nat list \<Rightarrow> string list \<Rightarrow> nat \<Rightarrow> (string list \<times> nat) option" where
  "interfaces_loop w keys [] ips n = Some (ips, n)"
| "interfaces_loop w keys (i # is) ips n = (case w_enum w keys i of (name, len) \<Rightarrow> do {
     entry \<leftarrow> text_in name;
     (ips, n) \<leftarrow> (case w_open_at w keys entry of
         None \<Rightarrow> Some (ips, n)
       | Some key \<Rightarrow>
           (case w_query w key ''DhcpNameServer'' name len of
              (True, name, len) \<Rightarrow> parse_servers name len ips n
            | (False, name, len) \<Rightarrow>
                (case w_query w key ''NameServer'' name len of
                   (True, name, len) \<Rightarrow> parse_servers name len ips n
                 | (False, _, _) \<Rightarrow> Some (ips, n))));
     interfaces_loop w keys is ips n })"

definition interface_servers :: "('key, 'n) winsys \<Rightarrow> string list \<Rightarrow> nat \<Rightarrow> (string list \<times> nat) option" where
  "interface_servers w ips n =
     (case w_open w [''SYSTEM'', ''CurrentControlSet'', ''Services'', ''Tcpip'', ''Parameters'', ''Interfaces''] of
        None \<Rightarrow> Some (ips, n)
      | Some keys \<Rightarrow> interfaces_loop w keys [0..<w_count w keys] ips n)"

definition name_servers :: "('key, 'n) winsys \<Rightarrow> (string list \<times> nat) option" where
  "name_servers w = do {
     (ips, n) \<leftarrow> params_servers w (w_arrays w);
     (ips, n) \<leftarrow> (if n = 0 then registry_servers w ips n else Some (ips, n));
     (if n = 0 then interface_servers w ips n else Some (ips, n)) }"

subsection \<open>The exchange\<close>

text \<open>The query: a header and the question, in a fresh buffer.\<close>

definition query_header :: dnsquery_header where
  "query_header = \<lparr> dh_id = 12345, dh_qr = 0, dh_opcode = 0, dh_aa = 0, dh_tc = 0, dh_rd = 1,
     dh_ra = 0, dh_z = 0, dh_rcode = 0, dh_qdcount = 1, dh_ancount = 0, dh_nscount = 0, dh_arcount = 0 \<rparr>"

text \<open>\<open>strncpy\<close> into the zeroed question does not terminate a name of 1024 characters and more; it is then read on behind.\<close>

definition query_question :: "string \<Rightarrow> dnsquery_question option" where
  "query_question fulldomain =
     (if length fulldomain < 1024
      then Some \<lparr> dq_qname = bytes_of_string fulldomain @ replicate (1024 - length fulldomain) 0, dq_qtype = 33, dq_qclass = 1 \<rparr>
      else None)"

definition write_query :: "u8 list \<Rightarrow> string \<Rightarrow> (u8 list \<times> nat) option" where
  "write_query buf fulldomain = do {
     (buf, off) \<leftarrow> netbuf_add_dnsquery_header buf 0 query_header;
     question \<leftarrow> query_question fulldomain;
     netbuf_add_dnsquery_question buf off question }"

definition SOCKET_ERROR :: int where "SOCKET_ERROR = - 1"
definition WSA_WOULD_BLOCK :: int where "WSA_WOULD_BLOCK = 10035"

fun recv_tries :: "('key, 'n) winsys \<Rightarrow> nat \<Rightarrow> int \<Rightarrow> 'n \<Rightarrow> int \<times> u8 list \<times> 'n" where
  "recv_tries w 0 insize n = (insize, [], n)"
| "recv_tries w (Suc j) insize n = (case w_recvfrom w n of (insize, data, n) \<Rightarrow>
     if insize = SOCKET_ERROR then
       if w_errno w n = WSA_WOULD_BLOCK then recv_tries w j insize (w_sleep w n) else (insize, [], n)
     else (insize, data, n))"

text \<open>The servers in turn, each with a socket of its own, until one has sent something.\<close>

fun ask_servers :: "('key, 'n) winsys \<Rightarrow> u8 list \<Rightarrow> string list \<Rightarrow> int \<Rightarrow> u8 list \<Rightarrow> 'n \<Rightarrow> (int \<times> u8 list \<times> 'n) option" where
  "ask_servers w query [] insize data n = Some (insize, data, n)"
| "ask_servers w query (ip # ips) insize data n =
     (if insize \<le> 0 then do {
        ip \<leftarrow> text_in ip;
        let (insize, data, n) = recv_tries w 50 insize (w_sendto w ip query n);
        ask_servers w query ips insize data n }
      else Some (insize, data, n))"

text \<open>The answer is read from the buffer of the query, whose front it has overwritten.\<close>

definition read_reply ::
    "dnsquery_question \<Rightarrow> dnsquery_resourcerecord \<Rightarrow> int \<Rightarrow> u8 list \<Rightarrow> (string \<times> u16) option option" where
  "read_reply question rr insize buf =
     (if insize > 0 then do {
        (header, off) \<leftarrow> netbuf_get_dnsquery_header buf 0;
        off \<leftarrow> read_questions buf (unat (dh_qdcount header)) off question;
        (off, rr, result) \<leftarrow> read_answers buf (unat (dh_ancount header)) off rr None;
        _ \<leftarrow> read_answers buf (unat (dh_ancount header)) off rr None;
        Some result }
      else Some None)"

definition manual_lookup ::
    "('key, 'n) winsys \<Rightarrow> dnsquery_question \<Rightarrow> dnsquery_resourcerecord \<Rightarrow> u8 list \<Rightarrow> string \<Rightarrow> 'n \<Rightarrow>
      ((string \<times> u16) option \<times> 'n) option" where
  "manual_lookup w question rr buf fulldomain net = do {
     (ips, n) \<leftarrow> name_servers w;
     if n > 0 then do {
       (buf, off) \<leftarrow> write_query buf fulldomain;
       (insize, data, net) \<leftarrow> ask_servers w (take off buf) (take n ips) 0 [] net;
       result \<leftarrow> read_reply question rr insize (data @ drop (length data) buf);
       Some (result, net) }
     else Some (None, net) }"

definition dnsapi_lookup :: "('key, 'n) winsys \<Rightarrow> string \<Rightarrow> (string \<times> u16) option" where
  "dnsapi_lookup w fulldomain = (case w_dnsapi w fulldomain of
     None \<Rightarrow> None
   | Some records \<Rightarrow> map_option snd (find (\<lambda>(ty, _). ty = 33) records))"

definition sock_srv_lookup_win ::
    "('key, 'n) winsys \<Rightarrow> dnsquery_question \<Rightarrow> dnsquery_resourcerecord \<Rightarrow> u8 list \<Rightarrow>
      string \<Rightarrow> string \<Rightarrow> string \<Rightarrow> nat \<Rightarrow> 'n \<Rightarrow> (int \<times> string \<times> int) option" where
  "sock_srv_lookup_win w question rr buf service proto domain resulttargetlength net = do {
     let fulldomain = take 2047 (''_'' @ service @ ''._'' @ proto @ ''.'' @ domain);
     result \<leftarrow> (case dnsapi_lookup w fulldomain of
         Some r \<Rightarrow> Some (Some r)
       | None \<Rightarrow> map_option fst (manual_lookup w question rr buf fulldomain net));
     (case result of
        Some (target, port) \<Rightarrow> Some (1, take (resulttargetlength - 1) target, uint port)
      | None \<Rightarrow> Some (0, take (resulttargetlength - 1) domain, 5222)) }"

subsection \<open>What the parser of the addresses reads\<close>

lemma skip_while_stop: "\<forall>c \<in> set w. test c \<Longrightarrow> \<not> test c \<Longrightarrow>
    skip_while test (pre @ w @ c # post) (length pre) = Some (length pre + length w)"
proof (induction w arbitrary: pre)
  case (Cons x w)
  then show ?case using Cons.IH [of "pre @ [x]"] by (subst skip_while.simps) (simp add: nth_append)
qed (simp add: skip_while.simps)

lemma skip_while_end: "\<forall>c \<in> set w. test c \<Longrightarrow> skip_while test (pre @ w) (length pre) = None"
proof (induction w arbitrary: pre)
  case (Cons x w)
  then show ?case using Cons.IH [of "pre @ [x]"] by (subst skip_while.simps) (simp add: nth_append)
qed (simp add: skip_while.simps)

lemma in_parse_NUL [simp]: "in_parse NUL"
  by (simp add: in_parse_def)

text \<open>One address: it starts with a digit or a dot, and the scan stops at the first character that is neither nor a terminator.\<close>

lemma servers_loop_address:
  assumes "a \<noteq> []" "hd a \<noteq> NUL" "\<forall>c \<in> set a. in_parse c" "\<not> in_parse c" "\<forall>d \<in> set z. \<not> in_parse d"
    "n < 16" "n < length ips" "length a \<le> length (ips ! n)" "e = NUL \<or> in_parse e"
  defines "t \<equiv> takeWhile (\<lambda>c. c \<noteq> NUL) a"
  shows "servers_loop (pre @ a @ c # z @ e # post) (length pre) ips n =
    servers_loop (pre @ a @ c # z @ e # post) (length pre + length a + 1 + length z)
      (ips[n := t @ replicate (length a - length t) NUL @ drop (length a) (ips ! n)]) (n + 1)"
proof -
  let ?name = "pre @ a @ c # z @ e # post"
  have s: "rd ?name (length pre) = Some (hd a)" using assms(1) by (cases a) (simp_all add: rd_def nth_append)
  have stop: "skip_while in_parse ?name (length pre) = Some (length pre + length a)"
    using skip_while_stop [OF assms(3,4), of pre "z @ e # post"] by simp
  have next': "skip_while (\<lambda>c. c \<noteq> NUL \<and> \<not> in_parse c) ?name (length pre + length a) = Some (length pre + length a + 1 + length z)"
    using skip_while_stop [of "c # z" "\<lambda>c. c \<noteq> NUL \<and> \<not> in_parse c" e "pre @ a" post] assms(4,5,9)
    by (auto simp: in_parse_def)
  have tl: "length t \<le> length a" by (simp add: t_def length_takeWhile_le)
  have "c_strncpy (ips ! n) (drop (length pre) ?name) (length a) =
      Some (t @ replicate (length a - length t) NUL @ drop (length a) (ips ! n))"
    using assms(8) tl by (simp add: c_strncpy_def t_def [symmetric] blit_in Let_def)
  then show ?thesis using s stop next' assms(2,6,7) by (subst servers_loop.simps) simp
qed

lemma terminated_twice: "wr (a @ NUL # x # rest) (length a + 1) NUL = Some (a @ NUL # NUL # rest)"
  by (simp add: wr_def list_update_append)

lemma parse_servers_leaves:
  assumes "a \<noteq> []" "NUL \<notin> set a" "\<forall>c \<in> set a. in_parse c" "n < 16" "\<forall>d \<in> set rest. in_parse d"
  shows "parse_servers (a @ NUL # x # rest) (length a + 1) ips n = None"
proof -
  let ?name = "a @ NUL # NUL # rest"
  have all: "\<forall>d \<in> set ?name. in_parse d" using assms(3,5) by auto
  have s: "rd ?name 0 = Some (hd a)" "hd a \<noteq> NUL" using assms(1,2) by (cases a; auto simp: rd_def)+
  have none: "skip_while in_parse ?name 0 = None"
    using skip_while_end [OF all, of "[]"] by (simp only: append_Nil list.size)
  have "\<not> n \<ge> 16" using assms(4) by simp
  then have "servers_loop ?name 0 ips n = None"
    unfolding servers_loop.simps [of ?name 0 ips n] s(1) Option.bind.simps using s(2) none by simp
  then show ?thesis unfolding parse_servers_def terminated_twice Option.bind.simps .
qed

lemma parse_servers_finds:
  assumes "a \<noteq> []" "NUL \<notin> set a" "\<forall>c \<in> set a. in_parse c" "n < 16" "n < length ips" "length (ips ! n) = 256"
    "\<forall>d \<in> set w. in_parse d" "\<forall>d \<in> set (c # z). \<not> in_parse d" "length a + 2 + length w \<le> 256"
  shows "\<exists>ip. parse_servers (a @ NUL # x # w @ c # z @ NUL # post) (length a + 1) ips n = Some (ips[n := ip], n + 1) \<and> text_in ip = Some a"
proof -
  let ?a = "a @ [NUL, NUL] @ w" and ?name = "a @ NUL # NUL # w @ c # z @ NUL # post"
  have t: "takeWhile (\<lambda>c. c \<noteq> NUL) ?a = a" using assms(2) takeWhile_upto [of NUL a "NUL # w"] by simp
  define ip' where "ip' = a @ replicate (length ?a - length a) NUL @ drop (length ?a) (ips ! n)"
  have h: "hd ?a \<noteq> NUL" "?a \<noteq> []" using assms(1,2) by (cases a; auto)+
  have p: "\<forall>c \<in> set ?a. in_parse c" using assms(3,7) by auto
  have len: "length ?a \<le> length (ips ! n)" using assms(6,9) by simp
  have c: "\<not> in_parse c" "\<forall>d \<in> set z. \<not> in_parse d" using assms(8) by auto
  have "servers_loop ?name 0 ips n = servers_loop ?name (length ?a + 1 + length z) (ips[n := ip']) (n + 1)"
    using servers_loop_address [OF h(2,1) p c assms(4,5) len disjI1 [OF refl], of "[]" post, unfolded t] by (simp add: ip'_def)
  moreover have e: "rd ?name (length ?a + 1 + length z) = Some NUL" by (simp add: rd_def nth_append nth_Cons')
  then have "servers_loop ?name (length ?a + 1 + length z) (ips[n := ip']) (n + 1) = Some (ips[n := ip'], n + 1)"
    unfolding servers_loop.simps [of ?name "length ?a + 1 + length z" "ips[n := ip']" "n + 1"] e Option.bind.simps by simp
  ultimately have "parse_servers (a @ NUL # x # w @ c # z @ NUL # post) (length a + 1) ips n = Some (ips[n := ip'], n + 1)"
    by (simp only: parse_servers_def terminated_twice Option.bind.simps)
  moreover have "takeWhile (\<lambda>c. c \<noteq> NUL) ip' = a"
    using assms(2) takeWhile_upto [of NUL a "replicate (Suc (length w)) NUL @ drop (length ?a) (ips ! n)"] by (simp add: ip'_def numeral_2_eq_2)
  moreover have "NUL \<in> set ip'" by (simp add: ip'_def)
  ultimately show ?thesis by (auto simp: text_in_def)
qed

text \<open>
  Claim C37.  A value of one address, whose terminator is followed by another one that the code writes, is scanned through both
  and on into the bytes behind, which nothing has set: when digits, dots and zeros fill the buffer, the scan
  leaves it; only when another character comes early enough is the address found as it stands.
\<close>

theorem registry_scan_passes_terminator:
  assumes "a \<noteq> []" "\<forall>c \<in> set a. c \<in> set ''0123456789.''" "n < 16" "n < length ips" "length (ips ! n) = 256"
  shows "((\<forall>d \<in> set rest. in_parse d) \<longrightarrow> parse_servers (a @ NUL # x # rest) (length a + 1) ips n = None) \<and>
    (\<forall>w c z post. rest = w @ c # z @ NUL # post \<and> (\<forall>d \<in> set w. in_parse d) \<and> (\<forall>d \<in> set (c # z). \<not> in_parse d) \<and>
       length a + 2 + length w \<le> 256 \<longrightarrow>
       (\<exists>ip. parse_servers (a @ NUL # x # rest) (length a + 1) ips n = Some (ips[n := ip], n + 1) \<and> text_in ip = Some a))"
proof -
  have a: "NUL \<notin> set a" "\<forall>c \<in> set a. in_parse c" using assms(2) by (force simp: NUL_def, simp add: in_parse_def)
  show ?thesis
  proof (intro conjI allI impI)
    fix w c z post
    assume "rest = w @ c # z @ NUL # post \<and> (\<forall>d \<in> set w. in_parse d) \<and> (\<forall>d \<in> set (c # z). \<not> in_parse d) \<and> length a + 2 + length w \<le> 256"
    then have r: "rest = w @ c # z @ NUL # post" "\<forall>d \<in> set w. in_parse d" "\<forall>d \<in> set (c # z). \<not> in_parse d" "length a + 2 + length w \<le> 256"
      by blast+
    show "\<exists>ip. parse_servers (a @ NUL # x # rest) (length a + 1) ips n = Some (ips[n := ip], n + 1) \<and> text_in ip = Some a"
      unfolding r(1) by (rule parse_servers_finds [OF assms(1) a assms(3-5) r(2-4)])
  qed (rule parse_servers_leaves [OF assms(1) a assms(3)])
qed

definition stack_arrays :: "string list" where
  "stack_arrays = replicate 16 (replicate 256 (CHR ''?''))"

theorem registry_scan_passes_terminator_witness:
  "parse_servers (''8.8.8.8'' @ NUL # NUL # replicate 503 NUL) (length ''8.8.8.8'' + 1) stack_arrays 0 = None \<and>
    (\<exists>ip. parse_servers (''8.8.8.8'' @ NUL # NUL # [] @ CHR ''?'' # [] @ NUL # replicate 501 NUL) (length ''8.8.8.8'' + 1) stack_arrays 0 =
       Some (stack_arrays[0 := ip], 1) \<and> text_in ip = Some ''8.8.8.8'')"
proof -
  have a: "''8.8.8.8'' \<noteq> []" "\<forall>c \<in> set ''8.8.8.8''. c \<in> set ''0123456789.''" "(0::nat) < 16" "0 < length stack_arrays"
    "length (stack_arrays ! 0) = 256" by (simp_all add: stack_arrays_def)
  have q: "\<forall>d \<in> set (CHR ''?'' # []). \<not> in_parse d" by (simp add: in_parse_def NUL_def)
  have z: "\<forall>d \<in> set (replicate 503 NUL). in_parse d" by simp
  have len: "length ''8.8.8.8'' + 2 + length [] \<le> 256" by simp
  note main = registry_scan_passes_terminator [OF a]
  have "parse_servers (''8.8.8.8'' @ NUL # NUL # replicate 503 NUL) (length ''8.8.8.8'' + 1) stack_arrays 0 = None"
    using main z by blast
  moreover have "\<exists>ip. parse_servers (''8.8.8.8'' @ NUL # NUL # [] @ CHR ''?'' # [] @ NUL # replicate 501 NUL) (length ''8.8.8.8'' + 1) stack_arrays 0 =
      Some (stack_arrays[0 := ip], 0 + 1) \<and> text_in ip = Some ''8.8.8.8''"
    by (rule main [of "[] @ CHR ''?'' # [] @ NUL # replicate 501 NUL" NUL, THEN conjunct2, THEN spec [of _ "[]"],
        THEN spec [of _ "CHR ''?''"], THEN spec [of _ "[]"], THEN spec [of _ "replicate 501 NUL"], THEN mp])
      (use q len in simp)
  ultimately show ?thesis by simp
qed

text \<open>
  An address that another one follows is copied without a terminator: what the array held before, which nothing
  has set, goes on behind it.
\<close>

lemma address_unterminated: "NUL \<notin> set a \<Longrightarrow> text_in (a @ drop (length a) old) = map_option ((@) a) (text_in (drop (length a) old))"
proof -
  assume "NUL \<notin> set a"
  then have "takeWhile (\<lambda>c. c \<noteq> NUL) (a @ drop (length a) old) = a @ takeWhile (\<lambda>c. c \<noteq> NUL) (drop (length a) old)"
    by (subst takeWhile_append2) auto
  then show ?thesis using \<open>NUL \<notin> set a\<close> by (auto simp: text_in_def)
qed

subsection \<open>The query and the answer\<close>

lemma query_header_fits: "header_fits query_header"
  by (simp add: header_fits_def query_header_def)

lemma query_written:
  assumes "\<forall>l \<in> set ls. label_ok l" "length (join_dots ls) < 1024" "12 + length (label_bytes ls) + 5 \<le> length buf"
    "length (dq_qname q0) = 1024"
  obtains buf1 query q' where "write_query buf (join_dots ls) = Some (buf1, length query)" "take (length query) buf1 = query"
    "netbuf_get_dnsquery_header query 0 = Some (query_header, 12)" "netbuf_get_dnsquery_question query 12 q0 = Some (q', length query)"
    "cstring (dq_qname q') = join_dots ls" "dq_qtype q' = 33" "dq_qclass q' = 1"
proof -
  let ?qb = "label_bytes ls @ [0] @ bytes16 33 @ bytes16 1"
  define query where "query = header_bytes query_header @ ?qb"
  define buf1 where "buf1 = query @ drop (length ?qb) (drop 12 buf)"
  define q where "q = \<lparr> dq_qname = bytes_of_string (join_dots ls) @ replicate (1024 - length (join_dots ls)) 0, dq_qtype = 33, dq_qclass = 1 \<rparr>"
  have q: "query_question (join_dots ls) = Some q" "dq_qtype q = 33" "dq_qclass q = 1"
      "dq_qname q = bytes_of_string (join_dots ls) @ replicate (1024 - length (join_dots ls)) 0"
    using assms(2) by (simp_all add: query_question_def q_def)
  have nz: "0 \<notin> set (bytes_of_string (join_dots ls))" by (rule bytes_nonzero [OF join_nonzero [OF assms(1)]])
  have "takeWhile (\<lambda>b. b \<noteq> 0) (dq_qname q) = bytes_of_string (join_dots ls)"
    using nz assms(2) unfolding q(4) by (subst takeWhile_append2) auto
  then have name: "cstring (dq_qname q) = join_dots ls" by (simp add: cstring_def)
  have h: "netbuf_add_dnsquery_header buf 0 query_header = Some (header_bytes query_header @ drop 12 buf, 12)"
    using header_written [of 0 buf query_header] assms(3) by (simp add: put_at_def)
  have qw: "netbuf_add_dnsquery_question (header_bytes query_header @ drop 12 buf) 12 q = Some (buf1, length query)"
    using question_written [OF assms(1) name, of 12 "header_bytes query_header @ drop 12 buf"] assms(3) q(2,3)
    by (simp add: put_at_def buf1_def query_def)
  obtain q' where "netbuf_get_dnsquery_question query 12 q0 = Some (q', length query)" "cstring (dq_qname q') = join_dots ls"
      "dq_qtype q' = 33" "dq_qclass q' = 1"
    using question_read [OF assms(1,2,4), of "header_bytes query_header" 33 1 "[]"] by (auto simp: query_def)
  moreover have "write_query buf (join_dots ls) = Some (buf1, length query)" using h qw q(1) by (simp add: write_query_def)
  moreover have "netbuf_get_dnsquery_header query 0 = Some (query_header, 12)"
    using header_read [OF query_header_fits] by (simp add: query_def)
  ultimately show thesis using that by (simp add: buf1_def)
qed

lemma read_reply_lookup: "Option.bind (read_reply question rr len buf) (\<lambda>result. case result of
      Some (target, port) \<Rightarrow> Some (1, take (k - 1) target, uint port) | None \<Rightarrow> Some (0, take (k - 1) domain, 5222)) =
    sock_srv_lookup (\<lambda>_. (len, buf)) question rr service proto domain k"
  by (cases "len > 0") (simp_all add: sock_srv_lookup_def read_reply_def Let_def del: One_nat_def)

text \<open>
  Claim C38.  Without \<open>dnsapi\<close>, and with name servers and a service name of proper labels, the lookup sends a query that reads back
  as the SRV question for exactly this name, and gives for the first reply what the lookup of the other systems gives
  for the same bytes in the buffer: it looks neither at the number of the reply nor at its sender.
\<close>

theorem manual_lookup_correct:
  assumes "take 2047 (''_'' @ service @ ''._'' @ proto @ ''.'' @ domain) = join_dots ls" "\<forall>l \<in> set ls. label_ok l"
    "length (join_dots ls) < 1024" "12 + length (label_bytes ls) + 5 \<le> length buf" "length (dq_qname q0) = 1024"
    "dnsapi_lookup w (join_dots ls) = None" "name_servers w = Some (ips, n)" "0 < n"
  shows "\<exists>query buf1 q'. netbuf_get_dnsquery_header query 0 = Some (query_header, 12) \<and>
    netbuf_get_dnsquery_question query 12 q0 = Some (q', length query) \<and>
    cstring (dq_qname q') = join_dots ls \<and> dq_qtype q' = 33 \<and> dq_qclass q' = 1 \<and>
    sock_srv_lookup_win w question rr buf service proto domain k net =
      Option.bind (ask_servers w query (take n ips) 0 [] net) (\<lambda>(insize, data, net).
        sock_srv_lookup (\<lambda>_. (insize, data @ drop (length data) buf1)) question rr service proto domain k)"
proof -
  obtain buf1 query q' where q: "write_query buf (join_dots ls) = Some (buf1, length query)" "take (length query) buf1 = query"
    "netbuf_get_dnsquery_header query 0 = Some (query_header, 12)" "netbuf_get_dnsquery_question query 12 q0 = Some (q', length query)"
    "cstring (dq_qname q') = join_dots ls" "dq_qtype q' = 33" "dq_qclass q' = 1"
    using query_written [OF assms(2-5)] by blast
  have manual: "manual_lookup w question rr buf (join_dots ls) net =
      Option.bind (ask_servers w query (take n ips) 0 [] net) (\<lambda>(insize, data, net).
        Option.bind (read_reply question rr insize (data @ drop (length data) buf1)) (\<lambda>result. Some (result, net)))"
    using assms(7,8) q(1,2) by (simp add: manual_lookup_def)
  have "sock_srv_lookup_win w question rr buf service proto domain k net =
      Option.bind (ask_servers w query (take n ips) 0 [] net) (\<lambda>(insize, data, net).
        sock_srv_lookup (\<lambda>_. (insize, data @ drop (length data) buf1)) question rr service proto domain k)"
  proof (cases "ask_servers w query (take n ips) 0 [] net")
    case None
    then show ?thesis unfolding sock_srv_lookup_win_def Let_def assms(1,6) manual by simp
  next
    case (Some r)
    obtain insize data net' where r: "r = (insize, data, net')" by (cases r)
    show ?thesis
      unfolding sock_srv_lookup_win_def Let_def assms(1,6) manual Some r
      using read_reply_lookup [of question rr insize "data @ drop (length data) buf1" k domain service proto, symmetric]
      by (cases "read_reply question rr insize (data @ drop (length data) buf1)") (simp_all del: One_nat_def)
  qed
  then show ?thesis using q by blast
qed

text \<open>A system with one name server, which refuses the query.\<close>

definition sample_winsys :: "(unit, nat) winsys" where
  "sample_winsys = \<lparr> w_dnsapi = (\<lambda>d. None), w_network_params = Some [''8.8.8.8''], w_open = (\<lambda>p. None), w_open_at = (\<lambda>k p. None),
     w_count = (\<lambda>k. 0), w_enum = (\<lambda>k i. ([], 0)), w_query = (\<lambda>k v b l. (False, b, l)), w_names = [], w_arrays = stack_arrays,
     w_sendto = (\<lambda>ip q n. n + 1), w_recvfrom = (\<lambda>n. (SOCKET_ERROR, [], n)), w_errno = (\<lambda>n. 10054), w_sleep = (\<lambda>n. n) \<rparr>"

theorem manual_lookup_correct_witness:
  "\<exists>query q'. netbuf_get_dnsquery_question query 12 sample_question = Some (q', length query) \<and>
    cstring (dq_qname q') = ''_xmpp-client._tcp.d'' \<and> dq_qtype q' = 33 \<and>
    sock_srv_lookup_win sample_winsys sample_question sample_rr (replicate 64 0) ''xmpp-client'' ''tcp'' ''d'' 100 0 = Some (0, ''d'', 5222)"
proof -
  let ?ls = "[''_xmpp-client'', ''_tcp'', ''d'']"
  let ?ip = "''8.8.8.8'' @ NUL # replicate 248 (CHR ''?'')"
  have names: "name_servers sample_winsys = Some (stack_arrays[0 := ?ip], 1)"
    by (simp add: name_servers_def params_servers_def sample_winsys_def stack_arrays_def rd_def blit_def)
  have "NUL \<notin> set ''8.8.8.8''" by (simp add: NUL_def)
  then have "text_in ?ip = Some ''8.8.8.8''" using takeWhile_upto [of NUL "''8.8.8.8''" "replicate 248 (CHR ''?'')"] by (simp add: text_in_def)
  moreover have "take 1 (xs[0 := ip]) = [ip]" if "xs \<noteq> []" for xs and ip :: string using that by (cases xs) auto
  then have "take 1 (stack_arrays[0 := ip]) = [ip]" for ip by (simp add: stack_arrays_def)
  moreover have "(50::nat) = Suc 49" by simp
  ultimately have ask: "ask_servers sample_winsys query (take 1 (stack_arrays[0 := ?ip])) 0 [] 0 = Some (SOCKET_ERROR, [], 1)" for query
    by (simp only: ask_servers.simps recv_tries.simps Option.bind.simps Let_def) (simp add: sample_winsys_def SOCKET_ERROR_def WSA_WOULD_BLOCK_def)
  have l: "\<forall>l \<in> set ?ls. label_ok l" "length (dq_qname sample_question) = 1024" "dnsapi_lookup sample_winsys (join_dots ?ls) = None"
    by (simp_all add: label_ok_def sample_question_def dnsapi_lookup_def sample_winsys_def)
  have j: "take 2047 (''_'' @ ''xmpp-client'' @ ''._'' @ ''tcp'' @ ''.'' @ ''d'') = join_dots ?ls" by simp
  from manual_lookup_correct [OF j l(1) _ _ l(2,3) names, of "replicate 64 0" sample_question sample_rr 100 0] show ?thesis
    unfolding ask by (auto simp: sock_srv_lookup_def SOCKET_ERROR_def)
qed

end
