(* ===== verification/Session_Facts.thy ===== *)
theory Session_Facts
  imports Login_Facts
begin

section \<open>The end of a login\<close>

text \<open>
  What happens between the success of the authentication and the event that tells the user of the connection: the
  features of the new stream, the binding of a resource and the session (\<open>auth.c\<close>), as one sequence.
\<close>

subsection \<open>The requests\<close>

definition tag_ns :: "string \<Rightarrow> string \<Rightarrow> stanza_node" where
  "tag_ns name ns = \<lparr> s_type = XMPP_STANZA_TAG, s_data = Some name,
     s_attributes = Some (attrs_table [[], [], [], [(''xmlns'', ns)], [], [], [], []]) \<rparr>"

definition iq_node :: "string \<Rightarrow> string \<Rightarrow> stanza_node" where
  "iq_node ty i = \<lparr> s_type = XMPP_STANZA_TAG, s_data = Some ''iq'',
     s_attributes = Some (attrs_table [[], [(''id'', i)], [], [], [(''type'', ty)], [], [], []]) \<rparr>"

lemma iq_tag: "hc_mem c = [] \<Longrightarrow> new_tag c ''iq'' [(''type'', ty), (''id'', i)] k = k (iq_node ty i) c"
  by (simp add: new_tag_def need_def iq_node_def attrs_table_def build_simps Let_def eval_nat_numeral)

lemma session_tag: "hc_mem c = [] \<Longrightarrow> name_node c blank_node ''session'' [(''xmlns'', ns)] = Some (tag_ns ''session'' ns, c)"
  by (simp add: tag_ns_def attrs_table_def build_simps Let_def eval_nat_numeral)

lemma iq_buckets:
  "length es = 8 \<Longrightarrow> bucket_index (attrs_table es) ''id'' = Some 1"
  "length es = 8 \<Longrightarrow> bucket_index (attrs_table es) ''type'' = Some 4"
  by (simp_all add: attrs_table_def bucket_index_def hash_key_def schar_def c_rem_def Let_def)

lemma hash_ok_iq: "hash_ok (attrs_table [[], [(''id'', i)], [], [], [(''type'', ty)], [], [], []])"
  by (simp add: hash_ok_def attrs_table_def All_less_Suc bucket_index_def hash_key_def schar_def c_rem_def Let_def)

lemma iq_open: "tag_open (iq_node ty i) ''iq'' = [''<iq'', '' id=\"'' @ escape i @ ''\"'', '' type=\"'' @ escape ty @ ''\"'']"
  using iq_buckets [of "[[], [(''id'', i)], [], [], [(''type'', ty)], [], [], []]"]
  by (simp add: iq_node_def tag_open_def hash_keys_eq attr_pieces_def hash_map_def attrs_table_def)

lemma tag_ns_open: "tag_open (tag_ns name ns) name = [''<'' @ name, '' xmlns=\"'' @ escape ns @ ''\"'']"
  using attr_buckets(1) [of "[[], [], [], [(''xmlns'', ns)], [], [], [], []]"]
  by (simp add: tag_ns_def tag_open_def hash_keys_eq attr_pieces_def hash_map_def attrs_table_def)

lemma copy_tag_ns: "xmpp_stanza_copy [] (Stanza (tag_ns name ns) []) = Some (Some (Stanza (tag_ns name ns) []), [])"
proof -
  let ?h = "attrs_table [[], [], [], [(''xmlns'', ns)], [], [], [], []]"
  let ?it = "\<lparr>it_ref = 1, it_entry = [], it_index = - 1\<rparr>"
  have it: "hash_iter_new [] ?h = (Some ?it, hash_clone ?h, [])" by (simp add: hash_iter_new_def)
  have ks: "hash_iter_keys (hash_clone ?h) ?it = [''xmlns'']"
    using hash_keys_eq [of "hash_clone ?h"] by (simp add: hash_keys_def hash_clone_def attrs_table_def)
  have "hash_get (hash_clone ?h) ''xmlns'' = Some (Some ns)"
    by (simp add: hash_get_def hash_clone_def attrs_table_def bucket_index_def hash_key_def schar_def c_rem_def Let_def)
  then have "copy_attributes (Some ?h) [] = Some (Some (Some ?h), [])"
    using it ks by (simp add: copy_attributes_def) (simp add: attrs_table_def build_simps Let_def eval_nat_numeral)
  then show ?thesis by (simp add: tag_ns_def)
qed

definition resource_element :: "string option \<Rightarrow> stanza list" where
  "resource_element r = (case r of None \<Rightarrow> [] | Some t \<Rightarrow> if t = [] then [] else [tag_node ''resource'' [text_node t]])"

definition bind_request :: "string option \<Rightarrow> stanza" where
  "bind_request r = Stanza (iq_node ''set'' ''_xmpp_bind1'') [Stanza (tag_ns ''bind'' XMPP_NS_BIND) (resource_element r)]"

definition session_request :: stanza where
  "session_request = Stanza (iq_node ''set'' ''_xmpp_session1'') [Stanza (tag_ns ''session'' XMPP_NS_SESSION) []]"

definition resource_text :: "string option \<Rightarrow> string" where
  "resource_text r = (case r of None \<Rightarrow> ''/>'' | Some t \<Rightarrow>
     if t = [] then ''/>'' else ''><resource>'' @ escape t @ ''</resource></bind>'')"

lemma bind_request_text:
  "renderable (bind_request r)"
  "stanza_text (bind_request r) =
     ''<iq id=\"_xmpp_bind1\" type=\"set\"><bind xmlns=\"urn:ietf:params:xml:ns:xmpp-bind\"'' @ resource_text r @ ''</iq>''"
proof -
  have op1: "tag_open (iq_node ''set'' ''_xmpp_bind1'') ''iq'' = [''<iq'', '' id=\"_xmpp_bind1\"'', '' type=\"set\"'']"
    unfolding iq_open by (simp add: escape_def)
  have op2: "tag_open (tag_ns ''bind'' XMPP_NS_BIND) ''bind'' = [''<bind'', '' xmlns=\"urn:ietf:params:xml:ns:xmpp-bind\"'']"
    unfolding tag_ns_open by (simp add: escape_def XMPP_NS_BIND_def)
  have op3: "tag_open \<lparr> s_type = XMPP_STANZA_TAG, s_data = Some ''resource'', s_attributes = None \<rparr> ''resource'' = [''<resource'']"
    by (simp add: tag_open_def)
  have t: "s_type (iq_node a b) = XMPP_STANZA_TAG" "s_data (iq_node a b) = Some ''iq''"
    "s_type (tag_ns m ns) = XMPP_STANZA_TAG" "s_data (tag_ns m ns) = Some m" for a b m ns
    by (simp_all add: iq_node_def tag_ns_def)
  show "renderable (bind_request r)"
    using hash_ok_iq [of "''_xmpp_bind1''" "''set''"] hash_ok_attrs(1) [of XMPP_NS_BIND]
    by (auto simp: bind_request_def resource_element_def iq_node_def tag_ns_def tag_node_def text_node_def split: option.splits)
  show "stanza_text (bind_request r) =
     ''<iq id=\"_xmpp_bind1\" type=\"set\"><bind xmlns=\"urn:ietf:params:xml:ns:xmpp-bind\"'' @ resource_text r @ ''</iq>''"
    by (simp add: stanza_text_def bind_request_def t op1 op2 resource_element_def resource_text_def tag_node_def text_node_def
        op3 split: option.split)
qed

lemma session_request_text:
  "renderable session_request"
  "stanza_text session_request =
     ''<iq id=\"_xmpp_session1\" type=\"set\"><session xmlns=\"urn:ietf:params:xml:ns:xmpp-session\"/></iq>''"
proof -
  have op1: "tag_open (iq_node ''set'' ''_xmpp_session1'') ''iq'' = [''<iq'', '' id=\"_xmpp_session1\"'', '' type=\"set\"'']"
    unfolding iq_open by (simp add: escape_def)
  have op2: "tag_open (tag_ns ''session'' XMPP_NS_SESSION) ''session'' = [''<session'', '' xmlns=\"urn:ietf:params:xml:ns:xmpp-session\"'']"
    unfolding tag_ns_open by (simp add: escape_def XMPP_NS_SESSION_def)
  show "renderable session_request"
    using hash_ok_iq [of "''_xmpp_session1''" "''set''"] hash_ok_attrs(1) [of XMPP_NS_SESSION]
    by (simp add: session_request_def iq_node_def tag_ns_def)
  show "stanza_text session_request =
     ''<iq id=\"_xmpp_session1\" type=\"set\"><session xmlns=\"urn:ietf:params:xml:ns:xmpp-session\"/></iq>''"
    using op1 op2 by (simp add: stanza_text_def session_request_def iq_node_def tag_ns_def)
qed

lemma send_bind_ok:
  assumes "hc_mem c = []" "conn_state c = XMPP_STATE_CONNECTED" "jid c = Some j" "xmpp_jid_resource [] j = (r, [])"
    "length (stanza_text (bind_request r)) < 1024"
  shows "send_bind c (Some (Stanza (tag_ns ''bind'' XMPP_NS_BIND) [])) = Some (xmpp_send_raw c (stanza_text (bind_request r)))"
proof -
  note send = xmpp_send_ok [OF bind_request_text(1) assms(5,2,1)]
  have res: "new_tag c ''resource'' [] k = k \<lparr> s_type = XMPP_STANZA_TAG, s_data = Some ''resource'', s_attributes = None \<rparr> c" for k
    using assms(1) by (simp add: new_tag_def need_def build_simps)
  have tx: "text_stanza c blank_node t = (text_node t, c)" for t
    using assms(1) by (simp add: text_stanza_def xmpp_stanza_set_text_def blank_node_def text_node_def)
  have n: "new_node c = (Some blank_node, c)" using assms(1) by (simp add: new_node_def)
  have "send_bind c (Some (Stanza (tag_ns ''bind'' XMPP_NS_BIND) [])) = xmpp_send c (bind_request r)"
    using assms(1,3,4) iq_tag [OF assms(1)] copy_tag_ns res tx n
    by (auto simp: send_bind_def need_def bind_request_def resource_element_def tag_node_def Let_def split: option.split)
  then show ?thesis using send by simp
qed

lemma send_session_ok:
  assumes "hc_mem c = []" "conn_state c = XMPP_STATE_CONNECTED"
  shows "send_session c = Some (xmpp_send_raw c (stanza_text session_request))"
proof -
  have "length (stanza_text session_request) < 1024" unfolding session_request_text(2) by simp
  note send = xmpp_send_ok [OF session_request_text(1) this assms(2,1)]
  have "send_session c = xmpp_send c session_request"
    using assms(1) iq_tag [OF assms(1)] session_tag [OF assms(1)]
    by (simp add: send_session_def new_node_def session_request_def)
  then show ?thesis using send by simp
qed

subsection \<open>Steps that keep a connection ready\<close>

definition in_login :: "conn \<Rightarrow> (lib_handler, udata) node list \<Rightarrow> (lib_handler, udata) node list \<Rightarrow> bool" where
  "in_login c hs ts \<longleftrightarrow> conn_lists c hs ts \<and> hc_mem c = [] \<and> conn_state c = XMPP_STATE_CONNECTED \<and> hash_ok (id_handlers c)"

lemma two_lists_fresh: "two_lists it n a b xs ys \<Longrightarrow> two_lists (it(n := x)) (Suc n) a b xs ys"
proof -
  assume l: "two_lists it n a b xs ys"
  have lt: "\<forall>p \<in> fst ` set xs \<union> fst ` set ys. p < n" "chain it xs None" "chain it ys None" using l unfolding two_lists_def by blast+
  have "chain (it(n := x)) xs None" "chain (it(n := x)) ys None"
    by (rule chain_other [of it _ None "{n}"]; use lt in fastforce)+
  moreover have "\<forall>p \<in> fst ` set xs \<union> fst ` set ys. p < Suc n" using lt(1) less_Suc_eq by blast
  ultimately show ?thesis using l unfolding two_lists_def by blast
qed

lemma more_login:
  "hconn.more (c :: conn) = hconn.more (c' :: conn) \<Longrightarrow> jid c = jid c' \<and> send_queue c = send_queue c' \<and>
     bind_required c = bind_required c' \<and> session_required c = session_required c' \<and> conn_handler c = conn_handler c' \<and>
     bound_jid c = bound_jid c'"
  by (cases c; cases c') simp

lemma login_delete:
  assumes "in_login c hs ts"
  obtains c' where "xmpp_timed_handler_delete c h = Some c'" "in_login c' hs (without h ts)" "same_rest c c'"
  using delete_timed_lists [of c hs ts h] assms unfolding in_login_def same_rest_def by auto

lemma login_timed:
  assumes "in_login c hs ts"
  obtains c' ts' where "handler_add_timed c h period u = Some c'" "in_login c' hs ts'" "same_rest c c'" "h \<in> set (funs ts')"
proof -
  obtain c' now where c': "timed_handler_add_common c h period u False = Some c'" "same_rest c c'"
    "conn_lists c' hs (if h \<in> set (funs ts) then ts else ts @ [(hc_fresh c, blank_handler False h u (Timed_key period now))])"
    using add_timed_lists [of c hs ts h period u False] assms unfolding in_login_def by blast
  have "h \<in> set (funs (if h \<in> set (funs ts) then ts else ts @ [(hc_fresh c, blank_handler False h u (Timed_key period now))]))"
    by (simp add: blank_handler_def)
  moreover have "in_login c' hs (if h \<in> set (funs ts) then ts else ts @ [(hc_fresh c, blank_handler False h u (Timed_key period now))])"
    using c'(2,3) assms unfolding in_login_def same_rest_def by simp
  ultimately show thesis using that c'(1,2) by (simp add: handler_add_timed_def)
qed

lemma login_add_id:
  assumes "in_login c hs ts" "ascii i" "id_lookup c i = Some None"
  obtains c' where "handler_add_id c h i u = Some c'" "in_login c' hs ts" "\<exists>p. id_lookup c' i = Some (Some p)"
    "\<And>k. ascii k \<Longrightarrow> k \<noteq> i \<Longrightarrow> id_lookup c' k = id_lookup c k" "authenticated c' = authenticated c" "hconn.more c' = hconn.more c"
proof -
  let ?x = "\<lparr> hl_user_handler = False, hl_handler = h, hl_userdata = u, hl_enabled = False, hl_next = None, hl_key = Id_key i \<rparr>"
  have m: "hc_mem c = []" and ok: "hash_ok (id_handlers c)" using assms(1) by (simp_all add: in_login_def)
  have k: "key_ok (id_handlers c) i" by (rule hash_key_ascii [OF ok assms(2)])
  obtain r t freed m' where a: "hash_add [] (id_handlers c) i (Some (hc_fresh c)) = Some (r, t, freed, m')" "hash_ok t"
      "key_ok t = key_ok (id_handlers c)" "hash_map t = (hash_map (id_handlers c))(i \<mapsto> Some (hc_fresh c))" "m' = []"
    using hash_add_spec [OF ok k, of "[]" "Some (hc_fresh c)"] by fastforce
  define c' where "c' = c\<lparr>hc_items := (hc_items c)(hc_fresh c := Some ?x), hc_fresh := Suc (hc_fresh c), id_handlers := t\<rparr>"
  have look: "id_lookup (c\<lparr>hc_items := it, hc_fresh := n\<rparr>) i = Some None" for it n using assms(3) by (simp add: id_lookup_def)
  have "handler_add_id c h i u = Some c'"
    using m assms(3) look a(1,5)
    by (simp add: handler_add_id_def id_handler_add_common_def conn_alloc_def conn_strdup_def new_item_def put_item_def id_store_def
        find_handler.simps [of _ _ _ None] c'_def)
  moreover have "in_login c' hs ts"
    using assms(1) a(2) two_lists_fresh [of "hc_items c" "hc_fresh c" "handlers c" "timed_handlers c" hs ts "Some ?x"]
    by (simp add: in_login_def conn_lists_def c'_def)
  moreover have "\<exists>p. id_lookup c' i = Some (Some p)"
    using a(3,4) k by (auto simp: id_lookup_def c'_def hash_get_map)
  moreover have "id_lookup c' j = id_lookup c j" if "ascii j" "j \<noteq> i" for j
    using that a(3,4) hash_key_ascii [OF ok that(1)] by (simp add: id_lookup_def c'_def hash_get_map)
  ultimately show thesis using that by (simp add: c'_def)
qed

lemma login_send: "in_login c hs ts \<Longrightarrow> in_login (xmpp_send_raw c d) hs ts \<and>
    send_queue (xmpp_send_raw c d) = send_queue c @ [\<lparr> sq_data = d, sq_written = 0 \<rparr>] \<and>
    authenticated (xmpp_send_raw c d) = authenticated c \<and> bound_jid (xmpp_send_raw c d) = bound_jid c \<and>
    session_required (xmpp_send_raw c d) = session_required c \<and> conn_handler (xmpp_send_raw c d) = conn_handler c \<and>
    id_lookup (xmpp_send_raw c d) k = id_lookup c k"
  by (auto simp: in_login_def xmpp_send_raw_queues conn_lists_def id_lookup_def)

subsection \<open>The stanzas of the server\<close>

definition features_bind :: "bool \<Rightarrow> stanza" where
  "features_bind session = tag_node ''stream:features'' (Stanza (tag_ns ''bind'' XMPP_NS_BIND) [] #
     (if session then [Stanza (tag_ns ''session'' XMPP_NS_SESSION) []] else []))"

definition bind_result :: "string \<Rightarrow> stanza" where
  "bind_result full = Stanza (iq_node ''result'' ''_xmpp_bind1'')
     [Stanza (tag_ns ''bind'' XMPP_NS_BIND) [tag_node ''jid'' [text_node full]]]"

definition session_result :: stanza where
  "session_result = Stanza (iq_node ''result'' ''_xmpp_session1'') []"

lemma tag_ns_gets: "xmpp_stanza_get_name (tag_ns name ns) = Some name" "xmpp_stanza_get_ns (tag_ns name ns) = Some (Some ns)"
  "s_type (tag_ns name ns) = XMPP_STANZA_TAG" "s_data (tag_ns name ns) = Some name"
  by (simp_all add: tag_ns_def xmpp_stanza_get_name_def xmpp_stanza_get_ns_def xmpp_stanza_get_attribute_def hash_get_def
      attrs_table_def bucket_index_def hash_key_def schar_def c_rem_def Let_def)

lemma iq_type: "xmpp_stanza_get_type (iq_node ty i) = Some (Some ty)"
  by (simp add: iq_node_def xmpp_stanza_get_type_def xmpp_stanza_get_attribute_def hash_get_def
      attrs_table_def bucket_index_def hash_key_def schar_def c_rem_def Let_def)

lemma features_bind_children:
  "named_child (features_bind session) ''bind'' XMPP_NS_BIND = Some (Some (Stanza (tag_ns ''bind'' XMPP_NS_BIND) []), True)"
  "\<exists>x. named_child (features_bind session) ''session'' XMPP_NS_SESSION = Some (x, session)"
  by (auto simp: named_child_def features_bind_def tag_node_def xmpp_stanza_get_child_by_name_def tag_ns_gets strcmp_eq.simps)

lemma bind_result_child:
  "xmpp_stanza_get_child_by_name (bind_result full) ''bind'' = Some [Stanza (tag_ns ''bind'' XMPP_NS_BIND) [tag_node ''jid'' [text_node full]]]"
  "xmpp_stanza_get_child_by_name (Stanza (tag_ns ''bind'' XMPP_NS_BIND) [tag_node ''jid'' [text_node full]]) ''jid'' =
    Some [tag_node ''jid'' [text_node full]]"
  by (simp_all add: bind_result_def xmpp_stanza_get_child_by_name_def tag_ns_gets tag_node_def xmpp_stanza_get_name_def)

lemma jid_text: "full \<noteq> [] \<Longrightarrow> xmpp_stanza_get_text [] (tag_node ''jid'' [text_node full]) = Some (Some full, [])"
  by (simp add: tag_node_def text_node_def xmpp_stanza_get_text_def)

subsection \<open>The sequence\<close>

lemma login_features:
  assumes "in_login c hs ts" "id_lookup c ''_xmpp_bind1'' = Some None" "id_lookup c ''_xmpp_session1'' = Some None"
    "jid c = Some j" "xmpp_jid_resource [] j = (r, [])" "length (stanza_text (bind_request r)) < 1024"
    "\<not> session_required c"
  obtains c' ts' where "handle_features_sasl c (features_bind session) = Some (False, c')" "in_login c' hs ts'"
    "H_missing_bind \<in> set (funs ts')" "\<exists>p. id_lookup c' ''_xmpp_bind1'' = Some (Some p)" "id_lookup c' ''_xmpp_session1'' = Some None"
    "send_queue c' = send_queue c @ [\<lparr> sq_data = stanza_text (bind_request r), sq_written = 0 \<rparr>]"
    "session_required c' = session" "authenticated c' = authenticated c" "conn_handler c' = conn_handler c"
proof -
  obtain d where d: "xmpp_timed_handler_delete c H_missing_features_sasl = Some d"
      "in_login d hs (without H_missing_features_sasl ts)" "same_rest c d"
    using login_delete [OF assms(1)] by blast
  have md: "hconn.more d = hconn.more c" "authenticated d = authenticated c" "id_handlers d = id_handlers c"
    using d(3) by (simp_all add: same_rest_def)
  note more_d = more_login [OF md(1)]
  define e where "e = (if session then d\<lparr>bind_required := True, session_required := True\<rparr> else d\<lparr>bind_required := True\<rparr>)"
  have e: "in_login e hs (without H_missing_features_sasl ts)" "bind_required e" "session_required e = session"
      "authenticated e = authenticated c" "jid e = Some j" "send_queue e = send_queue c" "conn_handler e = conn_handler c"
      "id_handlers e = id_handlers c"
    using d(2) md(2,3) more_d assms(4,7) by (simp_all add: e_def in_login_def conn_lists_def)
  have look: "id_lookup e ''_xmpp_bind1'' = Some None" "id_lookup e ''_xmpp_session1'' = Some None"
    using assms(2,3) e(8) by (simp_all add: id_lookup_def)
  have asc: "ascii ''_xmpp_bind1''" "ascii ''_xmpp_session1''" by simp_all
  obtain f where f: "handler_add_id e H_bind ''_xmpp_bind1'' U_null = Some f" "in_login f hs (without H_missing_features_sasl ts)"
      "\<exists>p. id_lookup f ''_xmpp_bind1'' = Some (Some p)" "\<And>k. ascii k \<Longrightarrow> k \<noteq> ''_xmpp_bind1'' \<Longrightarrow> id_lookup f k = id_lookup e k"
      "authenticated f = authenticated e" "hconn.more f = hconn.more e"
    using login_add_id [OF e(1) asc(1) look(1), of H_bind U_null] by blast
  obtain g ts' where g: "handler_add_timed f H_missing_bind BIND_TIMEOUT U_null = Some g" "in_login g hs ts'" "same_rest f g"
      "H_missing_bind \<in> set (funs ts')"
    using login_timed [OF f(2)] by blast
  have mg: "hconn.more g = hconn.more e" "authenticated g = authenticated c" "id_handlers g = id_handlers f"
    using g(3) f(5,6) e(4) by (simp_all add: same_rest_def)
  note more_g = more_login [OF mg(1)]
  have ids: "\<exists>p. id_lookup g ''_xmpp_bind1'' = Some (Some p)" "id_lookup g ''_xmpp_session1'' = Some None"
    using f(3) f(4) [OF asc(2)] look(2) mg(3) by (simp_all add: id_lookup_def)
  define c' where "c' = xmpp_send_raw g (stanza_text (bind_request r))"
  have "send_bind g (Some (Stanza (tag_ns ''bind'' XMPP_NS_BIND) [])) = Some c'"
    unfolding c'_def by (rule send_bind_ok [OF _ _ _ assms(5,6)]) (use g(2) more_g e(5) in \<open>auto simp: in_login_def\<close>)
  moreover obtain x where "named_child (features_bind session) ''session'' XMPP_NS_SESSION = Some (x, session)"
    using features_bind_children(2) by blast
  ultimately have "handle_features_sasl c (features_bind session) = Some (False, c')"
    using d(1) f(1) g(1) e(2) features_bind_children(1) [of session]
    by (cases session) (simp_all add: handle_features_sasl_def e_def)
  then show thesis
    using that [of c' ts'] login_send [OF g(2)] g(4) ids more_g mg(2) e(3,6,7) unfolding c'_def by auto
qed

lemma login_result:
  assumes "in_login c hs ts"
  obtains d where "xmpp_timed_handler_delete c h = Some d" "in_login d hs (without h ts)" "id_lookup d = id_lookup c"
    "authenticated d = authenticated c" "send_queue d = send_queue c" "session_required d = session_required c"
    "conn_handler d = conn_handler c" "bound_jid d = bound_jid c"
proof -
  obtain d where d: "xmpp_timed_handler_delete c h = Some d" "in_login d hs (without h ts)" "same_rest c d"
    using login_delete [OF assms] by blast
  have "hconn.more d = hconn.more c" using d(3) by (simp add: same_rest_def)
  from more_login [OF this] show thesis using that d by (simp add: same_rest_def id_lookup_def fun_eq_iff)
qed

lemma answered: "Option.bind x (\<lambda>c. Some (False, c)) = map_option (Pair False) x"
  by (cases x) simp_all

lemma login_bind:
  assumes "in_login c hs ts" "id_lookup c ''_xmpp_session1'' = Some None" "full \<noteq> []" "conn_handler c = Some h"
  shows "\<not> session_required c \<Longrightarrow> \<exists>d. handle_bind en c (bind_result full) = map_option (Pair False) (en_conn en h XMPP_CONN_CONNECT d) \<and>
      authenticated d \<and> bound_jid d = Some full \<and> send_queue d = send_queue c"
    and "session_required c \<Longrightarrow> \<exists>d ts'. handle_bind en c (bind_result full) = Some (False, d) \<and> in_login d hs ts' \<and>
      H_missing_session \<in> set (funs ts') \<and> (\<exists>p. id_lookup d ''_xmpp_session1'' = Some (Some p)) \<and>
      authenticated d = authenticated c \<and> bound_jid d = Some full \<and> conn_handler d = Some h \<and>
      send_queue d = send_queue c @ [\<lparr> sq_data = stanza_text session_request, sq_written = 0 \<rparr>]"
proof -
  obtain d where d: "xmpp_timed_handler_delete c H_missing_bind = Some d" "in_login d hs (without H_missing_bind ts)"
    "id_lookup d = id_lookup c" "authenticated d = authenticated c" "send_queue d = send_queue c"
    "session_required d = session_required c" "conn_handler d = conn_handler c"
    using login_result [OF assms(1)] by metis
  have m: "hc_mem d = []" using d(2) by (simp add: in_login_def)
  define e where "e = d\<lparr>bound_jid := Some full\<rparr>"
  have e: "e = d\<lparr>bound_jid := Some full, hc_mem := []\<rparr>" using m by (simp add: e_def)
  note hb = handle_bind_def [of en c "bind_result full"]
  have ty: "xmpp_stanza_get_type (s_node (bind_result full)) = Some (Some ''result'')" by (simp add: bind_result_def iq_type)
  note facts = d(1) ty bind_result_child jid_text [OF assms(3)] m
  {
    assume "\<not> session_required c"
    then have "handle_bind en c (bind_result full) = map_option (Pair False) (en_conn en h XMPP_CONN_CONNECT (e\<lparr>authenticated := True\<rparr>))"
      using facts d(6,7) assms(4) by (simp add: hb call_conn_handler_def e_def answered)
    then show "\<exists>d. handle_bind en c (bind_result full) = map_option (Pair False) (en_conn en h XMPP_CONN_CONNECT d) \<and>
      authenticated d \<and> bound_jid d = Some full \<and> send_queue d = send_queue c"
      using d(5) by (intro exI [of _ "e\<lparr>authenticated := True\<rparr>"]) (simp add: e_def)
  }
  assume s: "session_required c"
  have "id_lookup e k = id_lookup d k" for k by (simp add: e_def id_lookup_def)
  then have e': "in_login e hs (without H_missing_bind ts)" "id_lookup e ''_xmpp_session1'' = Some None"
    using d(2,3) assms(2) by (simp_all add: e_def in_login_def conn_lists_def)
  have asc: "ascii ''_xmpp_session1''" by simp
  obtain f where f: "handler_add_id e H_session ''_xmpp_session1'' U_null = Some f" "in_login f hs (without H_missing_bind ts)"
      "\<exists>p. id_lookup f ''_xmpp_session1'' = Some (Some p)"
      "\<And>k. ascii k \<Longrightarrow> k \<noteq> ''_xmpp_session1'' \<Longrightarrow> id_lookup f k = id_lookup e k"
      "authenticated f = authenticated e" "hconn.more f = hconn.more e"
    using login_add_id [OF e'(1) asc e'(2), of H_session U_null] by blast
  obtain g ts' where g: "handler_add_timed f H_missing_session SESSION_TIMEOUT U_null = Some g" "in_login g hs ts'" "same_rest f g"
      "H_missing_session \<in> set (funs ts')"
    using login_timed [OF f(2)] by blast
  have mg: "hconn.more g = hconn.more e" "authenticated g = authenticated c" "id_handlers g = id_handlers f"
    using g(3) f(5,6) d(4) by (simp_all add: same_rest_def e_def)
  note more_g = more_login [OF mg(1)]
  have "send_session g = Some (xmpp_send_raw g (stanza_text session_request))"
    by (rule send_session_ok) (use g(2) in \<open>simp_all add: in_login_def\<close>)
  then have "handle_bind en c (bind_result full) = Some (False, xmpp_send_raw g (stanza_text session_request))"
    using facts d(6) s f(1) g(1) by (simp add: hb e_def)
  moreover have "\<exists>p. id_lookup g ''_xmpp_session1'' = Some (Some p)" using f(3) mg(3) by (simp add: id_lookup_def)
  moreover have "bound_jid e = Some full" "conn_handler e = Some h" "send_queue e = send_queue c"
    using d(5,7) assms(4) by (simp_all add: e_def)
  ultimately show "\<exists>d ts'. handle_bind en c (bind_result full) = Some (False, d) \<and> in_login d hs ts' \<and>
      H_missing_session \<in> set (funs ts') \<and> (\<exists>p. id_lookup d ''_xmpp_session1'' = Some (Some p)) \<and>
      authenticated d = authenticated c \<and> bound_jid d = Some full \<and> conn_handler d = Some h \<and>
      send_queue d = send_queue c @ [\<lparr> sq_data = stanza_text session_request, sq_written = 0 \<rparr>]"
    using login_send [OF g(2)] g(4) more_g mg(2)
    by (intro exI [of _ "xmpp_send_raw g (stanza_text session_request)"] exI [of _ ts']) auto
qed

lemma login_session:
  assumes "in_login c hs ts" "conn_handler c = Some h"
  shows "\<exists>d. handle_session en c session_result = map_option (Pair False) (en_conn en h XMPP_CONN_CONNECT d) \<and>
    authenticated d \<and> bound_jid d = bound_jid c \<and> send_queue d = send_queue c"
proof -
  obtain d where d: "xmpp_timed_handler_delete c H_missing_session = Some d" "send_queue d = send_queue c"
    "conn_handler d = conn_handler c" "bound_jid d = bound_jid c"
    using login_result [OF assms(1)] by metis
  have "handle_session en c session_result = map_option (Pair False) (en_conn en h XMPP_CONN_CONNECT (d\<lparr>authenticated := True\<rparr>))"
    using d(1,3) assms(2) by (simp add: handle_session_def session_result_def iq_type call_conn_handler_def answered)
  then show ?thesis using d(2,4) by (intro exI [of _ "d\<lparr>authenticated := True\<rparr>"]) simp
qed

text \<open>
  Claim C39.  The end of a login.  When the features of the stream that follows the authentication offer binding, the client asks
  for the resource of its JID; the answer gives it its full JID; if the features offered a session it asks for one, once.
  With the last answer, and not before, the connection counts as authenticated and the user's handler
  is told that it is connected.
\<close>

theorem login_completes:
  assumes "in_login c hs ts" "id_lookup c ''_xmpp_bind1'' = Some None" "id_lookup c ''_xmpp_session1'' = Some None"
    "jid c = Some j" "xmpp_jid_resource [] j = (r, [])" "length (stanza_text (bind_request r)) < 1024"
    "\<not> session_required c" "conn_handler c = Some h" "full \<noteq> []"
  shows "\<exists>c1. handle_features_sasl c (features_bind session) = Some (False, c1) \<and>
    send_queue c1 = send_queue c @ [\<lparr> sq_data = stanza_text (bind_request r), sq_written = 0 \<rparr>] \<and>
    authenticated c1 = authenticated c \<and>
    (if session then
       \<exists>c2 c3. handle_bind en c1 (bind_result full) = Some (False, c2) \<and>
         send_queue c2 = send_queue c1 @ [\<lparr> sq_data = stanza_text session_request, sq_written = 0 \<rparr>] \<and>
         authenticated c2 = authenticated c \<and> bound_jid c2 = Some full \<and>
         handle_session en c2 session_result = map_option (Pair False) (en_conn en h XMPP_CONN_CONNECT c3) \<and>
         authenticated c3 \<and> bound_jid c3 = Some full \<and> send_queue c3 = send_queue c2
     else
       \<exists>c3. handle_bind en c1 (bind_result full) = map_option (Pair False) (en_conn en h XMPP_CONN_CONNECT c3) \<and>
         authenticated c3 \<and> bound_jid c3 = Some full \<and> send_queue c3 = send_queue c1)"
proof -
  obtain c1 ts1 where c1: "handle_features_sasl c (features_bind session) = Some (False, c1)" "in_login c1 hs ts1"
    "id_lookup c1 ''_xmpp_session1'' = Some None" "session_required c1 = session" "authenticated c1 = authenticated c"
    "send_queue c1 = send_queue c @ [\<lparr> sq_data = stanza_text (bind_request r), sq_written = 0 \<rparr>]" "conn_handler c1 = Some h"
    using login_features [OF assms(1-7), of session] assms(8) by metis
  note bnd = login_bind [OF c1(2,3) assms(9) c1(7), of en]
  show ?thesis
  proof (cases session)
    case False
    then show ?thesis using bnd(1) c1 by (intro exI [of _ c1]) simp
  next
    case True
    then obtain c2 ts2 where c2: "handle_bind en c1 (bind_result full) = Some (False, c2)" "in_login c2 hs ts2"
        "authenticated c2 = authenticated c" "bound_jid c2 = Some full" "conn_handler c2 = Some h"
        "send_queue c2 = send_queue c1 @ [\<lparr> sq_data = stanza_text session_request, sq_written = 0 \<rparr>]"
      using bnd(2) c1(4,5) by auto
    obtain c3 where c3: "handle_session en c2 session_result = map_option (Pair False) (en_conn en h XMPP_CONN_CONNECT c3)"
        "authenticated c3" "bound_jid c3 = bound_jid c2" "send_queue c3 = send_queue c2"
      using login_session [OF c2(2,5)] by blast
    show ?thesis using True c1(1,5,6) c2 c3 by (intro exI [of _ c1]) auto
  qed
qed

theorem login_completes_witness:
  "\<exists>c1 c2 c3. handle_features_sasl sample_xmpp_conn (features_bind True) = Some (False, c1) \<and>
    handle_bind sample_environ c1 (bind_result ''u@d.org/r2'') = Some (False, c2) \<and>
    handle_session sample_environ c2 session_result = Some (False, c3) \<and> authenticated c3 \<and> bound_jid c3 = Some ''u@d.org/r2'' \<and>
    map sq_data (send_queue c3) =
      [''<iq id=\"_xmpp_bind1\" type=\"set\"><bind xmlns=\"urn:ietf:params:xml:ns:xmpp-bind\"><resource>r</resource></bind></iq>'',
       ''<iq id=\"_xmpp_session1\" type=\"set\"><session xmlns=\"urn:ietf:params:xml:ns:xmpp-session\"/></iq>'']"
proof -
  have tb: "id_handlers sample_xmpp_conn = fresh_table 32 False" by (simp add: sample_xmpp_simps)
  have ok: "hash_ok (id_handlers sample_xmpp_conn)" unfolding tb by (rule fresh_table_ok) simp
  have r: "in_login sample_xmpp_conn [] []"
    using ok by (simp add: in_login_def) (simp add: sample_xmpp_simps conn_lists_def two_lists_def)
  have fm: "hash_map (id_handlers sample_xmpp_conn) = Map.empty" unfolding tb by (rule fresh_table_map) simp
  have i: "id_lookup sample_xmpp_conn k = Some None" if "ascii k" for k
    using hash_get_map [OF hash_key_ascii [OF ok that]] fm by (simp add: id_lookup_def)
  have j: "jid sample_xmpp_conn = Some ''u@d.org/r''" "xmpp_jid_resource [] ''u@d.org/r'' = (Some ''r'', [])"
    "\<not> session_required sample_xmpp_conn" "conn_handler sample_xmpp_conn = Some 0" "send_queue sample_xmpp_conn = []"
    by (simp_all add: sample_xmpp_simps xmpp_jid_resource_def strchr_def)
  have t: "resource_text (Some ''r'') = ''><resource>r</resource></bind>''" by (simp add: resource_text_def escape_def)
  have l: "length (stanza_text (bind_request (Some ''r''))) < 1024" unfolding bind_request_text(2) t by simp
  have a: "ascii ''_xmpp_bind1''" "ascii ''_xmpp_session1''" by simp_all
  have en: "en_conn sample_environ 0 ev c = Some c" for ev c by (simp add: sample_environ_def)
  from login_completes [OF r i [OF a(1)] i [OF a(2)] j(1,2) l j(3,4), of "''u@d.org/r2''" True sample_environ]
  show ?thesis unfolding en bind_request_text(2) session_request_text(2) t j(5) by auto
qed

end
