(* ===== verification/Fmtfp.thy ===== *)
theory Fmtfp
  imports Complex_Main Snprintf
begin

section \<open>Floating-point output (fmtfp of snprintf.c)\<close>

text \<open>
  Models \<open>fmtfp\<close> with the functions it uses.  The arithmetic of \<open>LDOUBLE\<close> is a parameter, a record of operations on
  any type; a conversion to \<open>long\<close> may be undefined.  The properties are about exact arithmetic, the
  rational numbers, so that what they show is not a matter of rounding in the machine.
\<close>

record 'f ldouble =
  fl_neg :: "'f \<Rightarrow> 'f"
  fl_negative :: "'f \<Rightarrow> bool"
  fl_minus :: "'f \<Rightarrow> 'f \<Rightarrow> 'f"
  fl_times :: "'f \<Rightarrow> 'f \<Rightarrow> 'f"
  fl_half :: "'f \<Rightarrow> bool"
  fl_ge :: "'f \<Rightarrow> 'f \<Rightarrow> bool"
  fl_of_long :: "int \<Rightarrow> 'f"
  fl_to_long :: "'f \<Rightarrow> int option"

definition abs_val :: "'f ldouble \<Rightarrow> 'f \<Rightarrow> 'f" where
  "abs_val fl v = (if fl_negative fl v then fl_neg fl v else v)"

fun snp_pow10 :: "'f ldouble \<Rightarrow> nat \<Rightarrow> 'f" where
  "snp_pow10 fl 0 = fl_of_long fl 1"
| "snp_pow10 fl (Suc n) = fl_times fl (snp_pow10 fl n) (fl_of_long fl 10)"

text \<open>The increment of a \<open>long\<close>, undefined at its end.\<close>

definition long_inc :: "int \<Rightarrow> int option" where
  "long_inc n = (if n < 2 ^ 63 - 1 then Some (n + 1) else None)"

definition snp_round :: "'f ldouble \<Rightarrow> 'f \<Rightarrow> int option" where
  "snp_round fl v = do {
     intpart \<leftarrow> fl_to_long fl v;
     (if fl_half fl (fl_minus fl v (fl_of_long fl intpart)) then long_inc intpart else Some intpart) }"

text \<open>The digits in the array of 20 characters, least significant first; a negative index into the table is undefined.\<close>

definition fp_digits :: "int \<Rightarrow> string option" where
  "fp_digits n =
     (if n < 0 then None
      else let convert = fmt_digits 20 False 10 (nat n)
        in Some (if length convert = 20 then butlast convert else convert))"

definition fmtfp :: "'f ldouble \<Rightarrow> 'f \<Rightarrow> int \<Rightarrow> int \<Rightarrow> dp_flags \<Rightarrow> string option" where
  "fmtfp fl fvalue mn mx flags = do {
     let mx = (if mx < 0 then 6 else mx);
     let ufvalue = abs_val fl fvalue;
     let signvalue = (if fl_negative fl fvalue then ''-'' else if DP_F_PLUS flags then ''+''
       else if DP_F_SPACE flags then '' '' else []);
     intpart \<leftarrow> fl_to_long fl ufvalue;
     let mx = (if mx > 9 then 9 else mx);
     let pow = snp_pow10 fl (nat mx);
     fracpart \<leftarrow> snp_round fl (fl_times fl pow (fl_minus fl ufvalue (fl_of_long fl intpart)));
     (intpart, fracpart) \<leftarrow>
       (if fl_ge fl (fl_of_long fl fracpart) pow
        then do {
          intpart \<leftarrow> long_inc intpart;
          fracpart \<leftarrow> fl_to_long fl (fl_minus fl (fl_of_long fl fracpart) pow);
          Some (intpart, fracpart) }
        else Some (intpart, fracpart));
     iconvert \<leftarrow> fp_digits intpart;
     fconvert \<leftarrow> fp_digits fracpart;
     let padlen = mn - int (length iconvert) - mx - 1 - (if signvalue \<noteq> [] then 1 else 0);
     let zpadlen = nat (mx - int (length fconvert));
     let padlen = (if padlen < 0 then 0 else padlen);
     let padlen = (if DP_F_MINUS flags then - padlen else padlen);
     let (zeros, signvalue, padlen) =
       (if DP_F_ZERO flags \<and> padlen > 0
        then (signvalue @ replicate (nat (padlen - (if signvalue \<noteq> [] then 1 else 0))) CHR ''0'', [], 0)
        else ([], signvalue, padlen));
     Some (zeros @ replicate (nat padlen) CHR '' '' @ signvalue @ rev iconvert @
       (if mx > 0 then CHR ''.'' # rev fconvert else []) @ replicate zpadlen CHR ''0'' @
       replicate (nat (- padlen)) CHR '' '') }"

subsection \<open>Exact arithmetic\<close>

definition rationals :: "rat ldouble" where
  "rationals = \<lparr> fl_neg = uminus, fl_negative = (\<lambda>x. x < 0), fl_minus = (-), fl_times = (*), fl_half = (\<lambda>x. x \<ge> 1 / 2),
     fl_ge = (\<lambda>x y. x \<ge> y), fl_of_long = of_int,
     fl_to_long = (\<lambda>x. let n = (if x < 0 then - \<lfloor>- x\<rfloor> else \<lfloor>x\<rfloor>) in if - (2 ^ 63) \<le> n \<and> n < 2 ^ 63 then Some n else None) \<rparr>"

text \<open>The decimal digits of a number, and the text of a number rounded to \<open>p\<close> digits behind the point.\<close>

fun decimal :: "nat \<Rightarrow> string" where
  "decimal n = (if n < 10 then [''0123456789'' ! n] else decimal (n div 10) @ [''0123456789'' ! (n mod 10)])"

declare decimal.simps [simp del]

definition rounded :: "rat \<Rightarrow> nat \<Rightarrow> nat" where
  "rounded x p = nat \<lfloor>\<bar>x\<bar> * 10 ^ p + 1 / 2\<rfloor>"

definition fixed_point :: "rat \<Rightarrow> nat \<Rightarrow> string" where
  "fixed_point x p = (let r = rounded x p; frac = decimal (r mod 10 ^ p) in
     (if x < 0 then ''-'' else []) @ decimal (r div 10 ^ p) @
     (if p > 0 then CHR ''.'' # replicate (p - length frac) CHR ''0'' @ frac else []))"

subsection \<open>Digits\<close>

lemma decimal_digit: "d < 10 \<Longrightarrow> decimal d = [''0123456789'' ! d]"
  by (subst decimal.simps) simp

lemma decimal_step: "10 \<le> n \<Longrightarrow> decimal n = decimal (n div 10) @ [''0123456789'' ! (n mod 10)]"
  by (subst decimal.simps) simp

lemma hex_table: "\<forall>d \<in> {0..<10}. ''0123456789abcdef'' ! d = ''0123456789'' ! d \<and> (0 < d \<longrightarrow> ''0123456789'' ! d \<noteq> CHR ''0'')"
  by code_simp

lemma fmt_digits_decimal: "n < 10 ^ Suc k \<Longrightarrow> rev (fmt_digits (Suc k) False 10 n) = decimal n"
proof (induction k arbitrary: n)
  case 0
  then show ?case using bspec [OF hex_table, of n] by (simp add: decimal_digit)
next
  case (Suc k)
  have d: "''0123456789abcdef'' ! (n mod 10) = ''0123456789'' ! (n mod 10)"
    using bspec [OF hex_table, of "n mod 10"] by simp
  show ?case
  proof (cases "n < 10")
    case True
    then show ?thesis using d by (simp add: decimal_digit)
  next
    case False
    then have "n div 10 \<noteq> 0" by (simp add: div_eq_0_iff)
    moreover have "n div 10 < 10 ^ Suc k" using Suc.prems by (simp add: div_less_iff_less_mult)
    ultimately show ?thesis
      unfolding fmt_digits_Suc [OF \<open>n div 10 \<noteq> 0\<close>] using Suc.IH [of "n div 10"] False d
      by (simp add: decimal_step del: fmt_digits.simps)
  qed
qed

lemma fp_digits_decimal: "0 \<le> n \<Longrightarrow> n < 2 ^ 63 \<Longrightarrow> fp_digits n = Some (rev (decimal (nat n)))"
proof -
  assume n: "0 \<le> n" "n < 2 ^ 63"
  have e: "Suc 18 = 19" "Suc 19 = 20" by simp_all
  have "nat n < 2 ^ 63" using n by (simp add: nat_less_iff)
  moreover have "(2::nat) ^ 63 \<le> 10 ^ 19" by simp
  ultimately have "nat n < 10 ^ Suc 18" unfolding e by (rule less_le_trans)
  then have "rev (fmt_digits 19 False 10 (nat n)) = decimal (nat n)"
    using fmt_digits_decimal [of "nat n" 18] unfolding e by blast
  then have d: "fmt_digits 19 False 10 (nat n) = rev (decimal (nat n))" by (metis rev_rev_ident)
  have "\<not> n < 0" using n by simp
  then show ?thesis
    using fmt_digits_butlast [of 19 False 10 "nat n"] unfolding fp_digits_def Let_def e d by (simp only: if_False)
qed

lemma decimal_not_empty: "decimal n \<noteq> []"
  by (subst decimal.simps) simp

lemma hd_decimal: "0 < n \<Longrightarrow> hd (decimal n) \<noteq> CHR ''0''"
proof (induction n rule: decimal.induct)
  case (1 n)
  show ?case
  proof (cases "n < 10")
    case True
    then show ?thesis using bspec [OF hex_table, of n] 1(2) by (simp add: decimal_digit)
  next
    case False
    then show ?thesis using 1(1) by (simp add: decimal_step decimal_not_empty)
  qed
qed

lemma length_decimal_le: "n < 10 ^ Suc k \<Longrightarrow> length (decimal n) \<le> Suc k"
proof (induction k arbitrary: n)
  case (Suc k)
  show ?case
  proof (cases "n < 10")
    case False
    have "n div 10 < 10 ^ Suc k" using Suc.prems by (simp add: div_less_iff_less_mult)
    then show ?thesis using Suc.IH False by (simp add: decimal_step)
  qed (simp add: decimal_digit)
qed (simp add: decimal_digit)

lemma length_decimal_ge: "10 ^ k \<le> n \<Longrightarrow> k < length (decimal n)"
proof (induction k arbitrary: n)
  case (Suc k)
  then have "10 ^ k \<le> n div 10" by (simp add: less_eq_div_iff_mult_less_eq)
  moreover have "10 \<le> n" using Suc.prems order_trans [of 10 "10 ^ Suc k" n] by simp
  ultimately show ?case using Suc.IH by (simp add: decimal_step)
qed (simp add: decimal_not_empty)

subsection \<open>The two parts of a number\<close>

lemma abs_val_rationals [simp]: "abs_val rationals x = \<bar>x\<bar>"
  unfolding abs_val_def rationals_def by simp

lemma pow10_rationals [simp]: "snp_pow10 rationals p = of_int (10 ^ p)"
  by (induction p) (simp_all add: rationals_def)

lemma to_long_rationals: "0 \<le> x \<Longrightarrow> x < 2 ^ 63 \<Longrightarrow> fl_to_long rationals x = Some \<lfloor>x\<rfloor>"
proof -
  assume x: "0 \<le> x" "x < 2 ^ 63"
  have "\<lfloor>x\<rfloor> < 2 ^ 63" using x(2) by (simp add: floor_less_iff)
  moreover have "0 \<le> \<lfloor>x\<rfloor>" using x(1) by simp
  ultimately show ?thesis using x unfolding rationals_def Let_def by simp
qed

lemma round_rationals: "0 \<le> x \<Longrightarrow> x < 2 ^ 62 \<Longrightarrow> snp_round rationals x = Some \<lfloor>x + 1 / 2\<rfloor>"
proof -
  assume x: "0 \<le> x" "x < 2 ^ 62"
  then have x': "x < 2 ^ 63" by simp
  have "\<lfloor>x\<rfloor> < 2 ^ 62" using x(2) by (simp add: floor_less_iff)
  then have "long_inc \<lfloor>x\<rfloor> = Some (\<lfloor>x\<rfloor> + 1)" unfolding long_inc_def by simp
  moreover have "\<lfloor>x + 1 / 2\<rfloor> = (if x - of_int \<lfloor>x\<rfloor> \<ge> 1 / 2 then \<lfloor>x\<rfloor> + 1 else \<lfloor>x\<rfloor>)"
    by (rule floor_unique; cases "x - of_int \<lfloor>x\<rfloor> \<ge> 1 / 2"; use of_int_floor_le [of x] floor_correct [of x] in simp; linarith)
  moreover have "fl_half rationals (fl_minus rationals x (fl_of_long rationals \<lfloor>x\<rfloor>)) = (x - of_int \<lfloor>x\<rfloor> \<ge> 1 / 2)"
    unfolding rationals_def by simp
  ultimately show ?thesis unfolding snp_round_def to_long_rationals [OF x(1) x'] by simp
qed

text \<open>The carry out of the fraction gives the parts of the rounded number.\<close>

lemma rounded_parts:
  fixes x :: rat
  assumes "0 \<le> x"
  shows "let g = \<lfloor>10 ^ p * (x - of_int \<lfloor>x\<rfloor>) + 1 / 2\<rfloor> in
    0 \<le> g \<and> g \<le> 10 ^ p \<and>
    (if 10 ^ p \<le> g then g = 10 ^ p \<and> int (rounded x p div 10 ^ p) = \<lfloor>x\<rfloor> + 1 \<and> rounded x p mod 10 ^ p = 0
     else int (rounded x p div 10 ^ p) = \<lfloor>x\<rfloor> \<and> int (rounded x p mod 10 ^ p) = g)"
proof -
  define P :: int where "P = 10 ^ p"
  define f where "f = x - of_int \<lfloor>x\<rfloor>"
  define g where "g = \<lfloor>of_int P * f + 1 / 2\<rfloor>"
  have P: "0 < P" unfolding P_def by simp
  have f: "0 \<le> f" "f < 1" unfolding f_def by linarith+
  have "0 \<le> of_int P * f" using f P by simp
  then have g0: "0 \<le> g" unfolding g_def by simp
  have "of_int P * f < of_int P" using f P by simp
  then have gP: "g \<le> P" unfolding g_def by linarith
  have x: "x * of_int P = of_int (\<lfloor>x\<rfloor> * P) + of_int P * f" unfolding f_def by (simp add: algebra_simps)
  have "\<lfloor>x * of_int P + 1 / 2\<rfloor> = \<lfloor>x\<rfloor> * P + g"
    unfolding x g_def by (metis add.assoc int_add_floor)
  moreover have "(of_int P :: rat) = 10 ^ p" unfolding P_def by simp
  ultimately have r: "int (rounded x p) = \<lfloor>x\<rfloor> * P + g"
    using assms g0 P unfolding rounded_def by simp
  have d: "int (rounded x p div 10 ^ p) = (\<lfloor>x\<rfloor> * P + g) div P" "int (rounded x p mod 10 ^ p) = (\<lfloor>x\<rfloor> * P + g) mod P"
    unfolding zdiv_int zmod_int r by (simp_all add: P_def)
  have "if P \<le> g then g = P \<and> int (rounded x p div 10 ^ p) = \<lfloor>x\<rfloor> + 1 \<and> int (rounded x p mod 10 ^ p) = 0
     else int (rounded x p div 10 ^ p) = \<lfloor>x\<rfloor> \<and> int (rounded x p mod 10 ^ p) = g"
    unfolding d using P g0 gP by simp
  then show ?thesis using g0 gP unfolding Let_def g_def f_def P_def by (simp split: if_splits)
qed

lemma fmtfp_parts:
  assumes "\<bar>x\<bar> < 2 ^ 62" "p \<le> 9" "mn \<le> 0"
  shows "fmtfp rationals x mn (int p) no_flags =
    Some ((if x < 0 then ''-'' else []) @ decimal (rounded x p div 10 ^ p) @
      (if p > 0 then CHR ''.'' # decimal (rounded x p mod 10 ^ p) else []) @
      replicate (p - length (decimal (rounded x p mod 10 ^ p))) CHR ''0'')"
proof -
  define f where "f = 10 ^ p * (\<bar>x\<bar> - of_int \<lfloor>\<bar>x\<bar>\<rfloor>)"
  define g where "g = \<lfloor>f + 1 / 2\<rfloor>"
  have R: "rounded \<bar>x\<bar> p = rounded x p" unfolding rounded_def by simp
  note g = rounded_parts [of "\<bar>x\<bar>" p, unfolded R Let_def f_def [symmetric] g_def [symmetric]]
  have tens: "(10::int) ^ p \<le> 10 ^ 9" by (rule power_increasing [OF assms(2)]) simp
  have f: "0 \<le> f" unfolding f_def by simp
  have "g \<le> 10 ^ 9" using g tens by linarith
  then have "f + 1 / 2 < of_int (10 ^ 9 + 1)" unfolding g_def by (simp only: floor_le_iff of_int_add of_int_1)
  then have f62: "f < 2 ^ 62" by simp
  have i: "fl_to_long rationals \<bar>x\<bar> = Some \<lfloor>\<bar>x\<bar>\<rfloor>" by (rule to_long_rationals) (use assms(1) in simp_all)
  have s: "snp_round rationals f = Some g" unfolding g_def by (rule round_rationals [OF f f62])
  have x63: "\<lfloor>\<bar>x\<bar>\<rfloor> < 2 ^ 62" using assms(1) by (simp add: floor_less_iff)
  have inc: "long_inc \<lfloor>\<bar>x\<bar>\<rfloor> = Some (\<lfloor>\<bar>x\<bar>\<rfloor> + 1)" using x63 unfolding long_inc_def by simp
  have ops: "fl_minus rationals = (-)" "fl_times rationals = (*)" "fl_of_long rationals = of_int"
    "fl_ge rationals = (\<lambda>x y. x \<ge> y)" "fl_negative rationals x = (x < 0)"
    unfolding rationals_def by simp_all
  have flags: "\<not> DP_F_PLUS no_flags" "\<not> DP_F_SPACE no_flags" "\<not> DP_F_MINUS no_flags" "\<not> DP_F_ZERO no_flags"
    unfolding no_flags_def by simp_all
  have d: "fp_digits \<lfloor>\<bar>x\<bar>\<rfloor> = Some (rev (decimal (nat \<lfloor>\<bar>x\<bar>\<rfloor>)))" "fp_digits (\<lfloor>\<bar>x\<bar>\<rfloor> + 1) = Some (rev (decimal (nat (\<lfloor>\<bar>x\<bar>\<rfloor> + 1))))"
    "fp_digits g = Some (rev (decimal (nat g)))" "fp_digits 0 = Some (rev (decimal 0))"
    using x63 g \<open>g \<le> 10 ^ 9\<close> by (simp_all add: fp_digits_decimal)
  have w: "nat (int a - int b) = a - b" for a b by linarith
  show ?thesis
  proof (cases "10 ^ p \<le> g")
    case True
    then have v: "g = 10 ^ p" "nat (\<lfloor>\<bar>x\<bar>\<rfloor> + 1) = rounded x p div 10 ^ p" "rounded x p mod 10 ^ p = 0"
      using g by (auto simp del: of_nat_Suc)
    have z: "fl_to_long rationals 0 = Some 0" using to_long_rationals [of 0] by simp
    show ?thesis
      unfolding fmtfp_def Let_def ops abs_val_rationals pow10_rationals
      using assms(2,3) f_def s d z v inc True by (simp add: flags i w mult.commute)
  next
    case False
    then have v: "nat \<lfloor>\<bar>x\<bar>\<rfloor> = rounded x p div 10 ^ p" "nat g = rounded x p mod 10 ^ p"
      using g by (auto simp del: of_nat_Suc)
    show ?thesis
      unfolding fmtfp_def Let_def ops abs_val_rationals pow10_rationals
      using assms(2,3) f_def s d v False by (simp add: flags i w mult.commute)
  qed
qed

lemma fmtfp_fixed_point:
  assumes "\<bar>x\<bar> < 2 ^ 62" "p \<le> 9" "mn \<le> 0"
  shows "fmtfp rationals x mn (int p) no_flags = Some (fixed_point x p) \<longleftrightarrow>
    rounded x p mod 10 ^ p = 0 \<or> 10 ^ p \<le> 10 * (rounded x p mod 10 ^ p)"
proof -
  define F where "F = rounded x p mod 10 ^ p"
  define z where "z = replicate (p - length (decimal F)) CHR ''0''"
  have eq: "fmtfp rationals x mn (int p) no_flags = Some (fixed_point x p) \<longleftrightarrow>
      (if p > 0 then decimal F @ z = z @ decimal F else z = [])"
    unfolding fmtfp_parts [OF assms] fixed_point_def Let_def F_def [symmetric] z_def by simp
  show ?thesis
  proof (cases "p = 0 \<or> F = 0")
    case True
    have "replicate n CHR ''0'' @ [CHR ''0''] = CHR ''0'' # replicate n CHR ''0''" for n by (simp add: replicate_append_same)
    then show ?thesis using True unfolding eq F_def [symmetric]
      by (auto simp: F_def z_def decimal_digit)
  next
    case False
    then obtain q where q: "p = Suc q" by (cases p) auto
    have "F < 10 ^ Suc q" unfolding F_def q by simp
    then have le: "length (decimal F) \<le> p" using length_decimal_le q by blast
    show ?thesis
    proof (cases "10 ^ q \<le> F")
      case True
      then have "z = []" using length_decimal_ge [OF True] le q unfolding z_def by simp
      then show ?thesis using True unfolding eq F_def [symmetric] by (simp add: q)
    next
      case low: False
      have "length (decimal F) \<le> q"
      proof (cases q)
        case 0
        then show ?thesis using low False by simp
      next
        case (Suc r)
        then show ?thesis using low length_decimal_le [of F r] by simp
      qed
      then have "z \<noteq> []" "hd z = CHR ''0''" using q unfolding z_def by simp_all
      then have "decimal F @ z \<noteq> z @ decimal F"
        using hd_decimal [of F] False decimal_not_empty [of F] by (metis hd_append2 neq0_conv)
      then show ?thesis using low False unfolding eq F_def [symmetric] by (simp add: q)
    qed
  qed
qed

lemma dopr_precision:
  "dopr_text ''%.*f'' [VInt mx, VDouble fp] = fp 0 mx no_flags"
  by (cases "fp 0 mx no_flags") (simp_all add: dopr_text_def dopr_conv_def is_digit_def)

subsection \<open>Property\<close>



end
