(* ===== verification/Thread.thy ===== *)
theory Thread
  imports Ctx
begin

section \<open>Mutexes (thread.c)\<close>

text \<open>
  Models \<open>src/thread.c\<close>: what is allocated and freed around the calls of the system's mutexes.  The
  blocks of the context's allocator that are in use are a list of addresses.  The functions of the system are parameters: for
  POSIX the mutex is an object in a block of its own, for Windows a handle.
\<close>

record blocks =
  bl_live :: "nat list"
  bl_next :: nat
  bl_mem :: mem

definition bl_alloc :: "blocks \<Rightarrow> nat option \<times> blocks" where
  "bl_alloc h = (case xmpp_alloc (bl_mem h) of
     (True, m) \<Rightarrow> (Some (bl_next h), h\<lparr>bl_live := bl_next h # bl_live h, bl_next := bl_next h + 1, bl_mem := m\<rparr>)
   | (False, m) \<Rightarrow> (None, h\<lparr>bl_mem := m\<rparr>))"

text \<open>Freeing a block that is not in use is undefined.\<close>

definition bl_free :: "nat \<Rightarrow> blocks \<Rightarrow> blocks option" where
  "bl_free a h = (if a \<in> set (bl_live h) then Some (h\<lparr>bl_live := remove1 a (bl_live h)\<rparr>) else None)"

text \<open>The functions of the system: a mutex is named by an address or a handle; \<open>'s\<close> is the state of the system.\<close>

record 's mutex_calls =
  mc_create :: "'s \<Rightarrow> nat option \<times> 's"
  mc_init :: "nat \<Rightarrow> 's \<Rightarrow> bool \<times> 's"
  mc_destroy :: "nat \<Rightarrow> 's \<Rightarrow> bool \<times> 's"
  mc_lock :: "nat \<Rightarrow> 's \<Rightarrow> bool \<times> 's"
  mc_unlock :: "nat \<Rightarrow> 's \<Rightarrow> bool \<times> 's"

record mutex_t =
  mu_block :: nat
  mu_mutex :: "nat option"

subsection \<open>Operations\<close>

definition mutex_create :: "bool \<Rightarrow> 's mutex_calls \<Rightarrow> 's \<Rightarrow> blocks \<Rightarrow> (mutex_t option \<times> 's \<times> blocks) option" where
  "mutex_create windows sys s h = (case bl_alloc h of
     (None, h) \<Rightarrow> Some (None, s, h)
   | (Some m, h) \<Rightarrow> do {
       (mutex, s, h) \<leftarrow>
         (if windows then (case mc_create sys s of (r, s) \<Rightarrow> Some (r, s, h))
          else (case bl_alloc h of
              (None, h) \<Rightarrow> Some (None, s, h)
            | (Some a, h) \<Rightarrow> (case mc_init sys a s of
                  (True, s) \<Rightarrow> Some (Some a, s, h)
                | (False, s) \<Rightarrow> map_option (\<lambda>h. (None, s, h)) (bl_free a h))));
       (case mutex of
          None \<Rightarrow> map_option (\<lambda>h. (None, s, h)) (bl_free m h)
        | Some a \<Rightarrow> Some (Some \<lparr> mu_block = m, mu_mutex = Some a \<rparr>, s, h)) })"

text \<open>The block of the POSIX mutex is not freed.\<close>

definition mutex_destroy :: "'s mutex_calls \<Rightarrow> mutex_t \<Rightarrow> 's \<Rightarrow> blocks \<Rightarrow> (bool \<times> 's \<times> blocks) option" where
  "mutex_destroy sys m s h =
     (case (case mu_mutex m of Some a \<Rightarrow> mc_destroy sys a s | None \<Rightarrow> (True, s)) of
        (ret, s) \<Rightarrow> map_option (\<lambda>h. (ret, s, h)) (bl_free (mu_block m) h))"

text \<open>A call for a mutex without an object is undefined.\<close>

definition mutex_lock :: "'s mutex_calls \<Rightarrow> mutex_t \<Rightarrow> 's \<Rightarrow> (bool \<times> 's) option" where
  "mutex_lock sys m s = map_option (\<lambda>a. mc_lock sys a s) (mu_mutex m)"

definition mutex_trylock :: "mutex_t \<Rightarrow> bool" where
  "mutex_trylock m = False"

definition mutex_unlock :: "'s mutex_calls \<Rightarrow> mutex_t \<Rightarrow> 's \<Rightarrow> (bool \<times> 's) option" where
  "mutex_unlock sys m s = map_option (\<lambda>a. mc_unlock sys a s) (mu_mutex m)"

text \<open>A mutex that is created and destroyed \<open>n\<close> times over.\<close>

primrec mutex_cycles :: "bool \<Rightarrow> 's mutex_calls \<Rightarrow> nat \<Rightarrow> 's \<Rightarrow> blocks \<Rightarrow> ('s \<times> blocks) option" where
  "mutex_cycles windows sys 0 s h = Some (s, h)"
| "mutex_cycles windows sys (Suc n) s h = do {
     (m, s, h) \<leftarrow> mutex_create windows sys s h;
     (case m of
        None \<Rightarrow> mutex_cycles windows sys n s h
      | Some m \<Rightarrow> do {
          (_, s, h) \<leftarrow> mutex_destroy sys m s h;
          mutex_cycles windows sys n s h }) }"

subsection \<open>Blocks in use\<close>

text \<open>No block beyond the next address is in use, and none twice.\<close>

definition blocks_ok :: "blocks \<Rightarrow> bool" where
  "blocks_ok h \<longleftrightarrow> distinct (bl_live h) \<and> (\<forall>a \<in> set (bl_live h). a < bl_next h)"

lemma create_failed:
  "mutex_create windows sys s h = Some (None, s', h') \<Longrightarrow> bl_live h' = bl_live h"
  by (auto simp: mutex_create_def bl_alloc_def bl_free_def split: prod.splits bool.splits if_splits option.splits)

lemma create_defined: "blocks_ok h \<Longrightarrow> mutex_create windows sys s h \<noteq> None"
  by (auto simp: mutex_create_def bl_alloc_def bl_free_def blocks_ok_def split: prod.splits bool.splits option.splits)

lemma create_blocks:
  assumes "mutex_create windows sys s h = Some (Some m, s', h')" "blocks_ok h"
  shows "mu_block m = bl_next h \<and> mu_mutex m \<noteq> None \<and> blocks_ok h' \<and> bl_next h \<notin> set (bl_live h) \<and>
    bl_live h' = (if windows then [] else [bl_next h + 1]) @ bl_next h # bl_live h"
  using assms
  by (auto simp: mutex_create_def bl_alloc_def bl_free_def blocks_ok_def split: prod.splits bool.splits if_splits option.splits)
    (fastforce dest: bspec)+

lemma create_succeeds:
  assumes "bl_mem h = []" "\<And>a s. fst (mc_init sys a s)"
  shows "\<exists>m s' h'. mutex_create False sys s h = Some (Some m, s', h') \<and> bl_mem h' = []"
proof -
  obtain s' where "mc_init sys (bl_next h + 1) s = (True, s')" using assms(2) [of "bl_next h + 1" s] by (metis prod.collapse)
  then show ?thesis using assms(1) by (simp add: mutex_create_def bl_alloc_def)
qed

lemma destroy_blocks:
  assumes "mutex_create windows sys s h = Some (Some m, s', h')" "blocks_ok h"
  shows "\<exists>ret s'' h''. mutex_destroy sys m t h' = Some (ret, s'', h'') \<and> blocks_ok h'' \<and> bl_mem h'' = bl_mem h' \<and>
    bl_live h'' = (if windows then [] else [bl_next h + 1]) @ bl_live h"
  using create_blocks [OF assms] 
  by (auto simp: mutex_destroy_def bl_free_def blocks_ok_def split: prod.splits)

lemma create_failed_ok: "mutex_create windows sys s h = Some (None, s', h') \<Longrightarrow> blocks_ok h \<Longrightarrow> blocks_ok h'"
  using create_failed [of windows sys s h s' h']
  by (auto simp: mutex_create_def bl_alloc_def bl_free_def blocks_ok_def split: prod.splits bool.splits if_splits option.splits)

text \<open>On Windows every cycle gives back what it took; on POSIX each one leaves a block behind.\<close>

theorem mutex_cycles_windows:
  assumes "blocks_ok h"
  shows "\<exists>s' h'. mutex_cycles True sys n s h = Some (s', h') \<and> bl_live h' = bl_live h"
  using assms
proof (induction n arbitrary: s h)
  case (Suc n)
  obtain r s1 h1 where c: "mutex_create True sys s h = Some (r, s1, h1)" using create_defined [OF Suc.prems] by fastforce
  show ?case
  proof (cases r)
    case None
    then show ?thesis
      using c Suc.IH [OF create_failed_ok [OF c [unfolded None] Suc.prems], of s1] create_failed [OF c [unfolded None]] by simp
  next
    case (Some m)
    obtain ret s2 h2 where d: "mutex_destroy sys m s1 h1 = Some (ret, s2, h2)" "blocks_ok h2" "bl_live h2 = bl_live h"
      using destroy_blocks [OF c [unfolded Some] Suc.prems, of s1] by auto
    then show ?thesis using c Some Suc.IH [OF d(2), of s2] by simp
  qed
qed simp

theorem mutex_cycles_posix:
  assumes "blocks_ok h" "bl_mem h = []" "\<And>a s. fst (mc_init sys a s)"
  shows "\<exists>s' h'. mutex_cycles False sys n s h = Some (s', h') \<and> length (bl_live h') = length (bl_live h) + n"
  using assms(1,2)
proof (induction n arbitrary: s h)
  case (Suc n)
  obtain m s1 h1 where c: "mutex_create False sys s h = Some (Some m, s1, h1)" "bl_mem h1 = []"
    using create_succeeds [OF Suc.prems(2) assms(3)] by blast
  obtain ret s2 h2 where d: "mutex_destroy sys m s1 h1 = Some (ret, s2, h2)" "blocks_ok h2" "bl_mem h2 = bl_mem h1"
      "bl_live h2 = (bl_next h + 1) # bl_live h"
    using destroy_blocks [OF c(1) Suc.prems(1), of s1] by auto
  then show ?case using c Suc.IH [OF d(2), of s2] by auto
qed simp

end
