(* ===== verification/Spec2Isabelle.thy ===== *)
theory Spec2Isabelle
  imports Base64 Sha1 Run_Facts Timed_Facts Dns_Write Login_Facts Log Sock Parser_Libxml2 Xml_Facts
    Schannel_Facts Tls_Wrappers Dns_Windows Session_Facts Fmtfp Thread
begin

text \<open>
  \<^bold>\<open>A verification of libstrophe, a C library for XMPP clients.\<close>

  \<^bold>\<open>The program.\<close>  A client creates a context (\<open>ctx.c\<close>) and connections (\<open>conn.c\<close>), and calls
  \<open>xmpp_run\<close> (\<open>event.c\<close>).  Each round of the loop sends what is queued, runs timed handlers
  (\<open>handler.c\<close>), waits for the sockets (\<open>sock.c\<close>) and feeds what was read to the parser
  (\<open>parser_expat.c\<close>), which builds stanzas (\<open>stanza.c\<close>) with attributes in hash tables
  (\<open>hash.c\<close>).  A complete stanza goes to the handlers of the connection; those of \<open>auth.c\<close> negotiate
  the stream, with the mechanisms of \<open>sasl.c\<close>, which use MD5 (\<open>md5.c\<close>), Base64 and JIDs
  (\<open>jid.c\<close>).  When TLS was agreed on, one of the wrappers \<open>tls_openssl.c\<close>, \<open>tls_gnutls.c\<close>,
  \<open>tls_schannel.c\<close> and \<open>tls_dummy.c\<close> stands between the event loop and the socket.  Text is formatted by
  \<open>snprintf.c\<close>; SHA-1 (\<open>sha1.c\<close>) and the mutexes (\<open>thread.c\<close>) stand alone.

  \<^bold>\<open>The theories\<close>, in the order of their imports.
    \<^item> \<open>Prelude\<close>: words, lists, buffers and the collections of simplification rules that all share.
    \<^item> \<open>Ctx\<close>: allocation, string duplication, time stamps, log levels and versions (\<open>ctx.c\<close>, \<open>util.c\<close>).
    \<^item> \<open>Hash_Table\<close>: \<open>hash_new\<close> to \<open>hash_iter_next\<close>, with a locale for maps that the table implements.
    \<^item> \<open>Jid\<close>, \<open>Base64\<close>, \<open>Block_Hash\<close> (what two hash functions share), \<open>Md5\<close>, \<open>Sha1\<close>, \<open>Snprintf\<close>,
      \<open>Fmtfp\<close> (floating-point output), \<open>Thread\<close> (mutexes).
    \<^item> \<open>Stanza\<close>: the nodes and trees of stanzas, their attributes, escaping and rendering;
      \<open>Stanza_Store\<close>: the objects with their reference counts and links; \<open>Stanza_Copy\<close>: copies.
    \<^item> \<open>Log\<close>: log messages and their handler (\<open>ctx.c\<close>).
    \<^item> \<open>Xml_Parser\<close>: the functions that expat calls, and the parser object; \<open>Xml_Facts\<close>: the types of
      what it delivers; \<open>Parser_Libxml2\<close>: the variant
      for libxml2 (\<open>parser_libxml2.c\<close>), shown equal to it.
    \<^item> \<open>Sasl\<close>: PLAIN and DIGEST-MD5.
    \<^item> \<open>Handlers\<close>: timed, id and stanza handlers as linked items; \<open>Handler_Lists\<close>: what the links mean;
      \<open>Timed_Facts\<close>: a round of the timed handlers.
    \<^item> \<open>Conn\<close>, \<open>Conn_Facts\<close>: connections; \<open>Auth\<close>, \<open>Auth_Facts\<close>: the negotiation of a stream;
      \<open>Login_Facts\<close>: the flags \<open>authenticated\<close> and \<open>secured\<close> over the life of a connection, as an inductive
      relation of its events; \<open>Session_Facts\<close>: the end of a login, from the features of the last stream to the event
      that tells the user; \<open>Sock\<close>: \<open>sock_connect\<close>, and what \<open>xmpp_connect_client\<close> makes of its result.
    \<^item> \<open>Event_Loop\<close>, \<open>Event_Facts\<close>, \<open>Run_Facts\<close>: contexts, rounds and the loop.
    \<^item> \<open>Dns\<close>, \<open>Dns_Facts\<close>, \<open>Dns_Write\<close>: DNS messages and \<open>sock_srv_lookup\<close>;
      \<open>Dns_Windows\<close>: its branch for Windows, with the registry and a query by hand.
    \<^item> \<open>Tls_Schannel\<close>, \<open>Schannel_Facts\<close>: TLS over Schannel, its handshake, buffers, reading and writing;
      \<open>Tls_Wrappers\<close>: OpenSSL, GnuTLS, and what each wrapper makes of the connection's handshake.

  \<^bold>\<open>Conventions.\<close>  A definition has the name of its C function, less a leading underscore.  A C struct is a record, a
  nullable pointer an option; a C function that may run into undefined behaviour (an access outside a block, through
  \<open>NULL\<close> or to freed memory, or a loop that does not end) is a function to an option, whose \<open>None\<close> is that
  behaviour.  Allocation is a script: a list of answers that the operations use up, and after which every allocation
  succeeds; so a theorem for every script covers every combination of failures.  Unsigned integers whose width
  matters are words; a signed \<open>int\<close> that cannot overflow is an \<open>int\<close>.  Objects that are shared or linked in cycles
  of calls (stanza objects in the parser, handler items) live in an explicit store; otherwise a stanza is a tree.
  The expat scanner, the TLS library, system calls, the DNS and the code of the user are parameters.

  \<^bold>\<open>What is shown.\<close>
    \<^item> Tables: insertion and deletion implement map update, with allocation failures; exactly when a lookup
      is undefined and when the iterator is complete; the last release frees every value once.
    \<^item> Codecs: JIDs, Base64, escaping and digest challenges round-trip; MD5 and SHA-1 in pieces equal their
      reference definitions; formatted output keeps to its buffer, with the exceptions stated.
    \<^item> Parser: the functions called by the scanner deliver exactly the trees of the document, well-typed, and free them.
    \<^item> SASL: the messages equal those of RFC 4616 and RFC 2831.
    \<^item> Handlers: the linked lists implement a registry of functions; a stanza reaches exactly the handlers
      that were registered when it arrived, and firing returns; a timed round likewise, with its waiting time.
    \<^item> Connections and authentication: what is queued, the order and end of the attempts, and the exact conditions of
      the undefined behaviour found.
    \<^item> Security: by which stanzas a connection comes to count as authenticated and as secured, in any order of events and
      with any user code, and that it counts so for ever, with what this means for the next stream.
    \<^item> Connecting and logging: which socket is taken and when an attempt starts; what reaches the log handler.
    \<^item> Event loop: the bytes sent are the messages queued, in order; an attempt to connect that is not answered ends.
    \<^item> DNS: exactly which names are read, and what the lookup returns, including what it reads behind the answers; on Windows
      the query reads back as the question, and the scan of the registry leaves its buffer exactly as stated.
    \<^item> Login: after the authentication the requests are queued in order, and the answers lead to the bound JID and the event.
    \<^item> TLS: over Schannel the bytes read and written are those of the peer and the caller, in order, with the losses stated;
      the results of the handshake under the three libraries.
    \<^item> Floating-point output is right exactly when the fraction does not begin with 0; every mutex leaves a block behind.

  \<^bold>\<open>Loops.\<close>  No model uses fuel.  Loops over an index are functions with a measure; loops over linked objects, over
  compressed names and over the rounds of the event loop, which need not end, are partial functions, whose termination is
  proved where it holds.

  \<^bold>\<open>Not modelled.\<close>  The start and end of the socket and TLS libraries (\<open>xmpp_initialize\<close>), the wrappers of
  \<open>close\<close> and \<open>fcntl\<close> and the default allocator, which only call the system; the machine's own
  floating-point arithmetic, a parameter of \<open>fmtfp\<close>; the store of the conversion \<open>%n\<close>; test programs inside the sources; examples and tests.
\<close>

end
